(* ===== verification/Prelude.thy ===== *)
theory Prelude
  imports Main "HOL-Library.Word" "HOL-Library.Multiset"
begin

text \<open>
  Shared vocabulary of the development: the widths of the C types the drivers use, the
  byte-buffer operations behind \<open>memcpy\<close>, \<open>memset\<close> and the user-space copies, and the
  transition-system contract through which every state machine gets its invariants.
  The collections \<open>c_int_simps\<close> and \<open>buffer_simps\<close> carry most component proofs.
\<close>

unbundle bit_operations_syntax

named_theorems c_int_simps \<open>reading C integer expressions as numbers\<close>
named_theorems buffer_simps \<open>byte buffers\<close>

section \<open>C types\<close>

type_synonym byte = "8 word"
type_synonym c_int = "32 word"
type_synonym c_uint = "32 word"
type_synonym c_ulong = "64 word"
type_synonym size_t = "64 word"
type_synonym ssize_t = "64 word"
type_synonym loff_t = "64 word"
type_synonym dev_t = "32 word"
type_synonym ptr = "64 word"

text \<open>
  The drivers return a negated error number from functions of type \<open>int\<close> or \<open>ssize_t\<close>;
  the numbers are those of \<open>asm-generic/errno-base.h\<close> and \<open>linux/errno.h\<close>.
\<close>

abbreviation (input) EPERM :: "'a::len word" where "EPERM \<equiv> 1"
abbreviation (input) EIO :: "'a::len word" where "EIO \<equiv> 5"
abbreviation (input) ENOMEM :: "'a::len word" where "ENOMEM \<equiv> 12"
abbreviation (input) EAGAIN :: "'a::len word" where "EAGAIN \<equiv> 11"
abbreviation (input) EFAULT :: "'a::len word" where "EFAULT \<equiv> 14"
abbreviation (input) ENODEV :: "'a::len word" where "ENODEV \<equiv> 19"
abbreviation (input) EINVAL :: "'a::len word" where "EINVAL \<equiv> 22"
abbreviation (input) ENOTTY :: "'a::len word" where "ENOTTY \<equiv> 25"
abbreviation (input) ENOSPC :: "'a::len word" where "ENOSPC \<equiv> 28"
abbreviation (input) ERESTARTSYS :: "'a::len word" where "ERESTARTSYS \<equiv> 512"
abbreviation (input) ENOIOCTLCMD :: "'a::len word" where "ENOIOCTLCMD \<equiv> 515"

lemma unat_le_cases [c_int_simps]:
  "unat (if a < b then a else b) = min (unat a) (unat b)" for a b :: "'a::len word"
  by (simp add: word_less_nat_alt min_def)

lemma unat_diff_le [c_int_simps]:
  "unat b \<le> unat a \<Longrightarrow> unat (a - b) = unat a - unat b" for a b :: "'a::len word"
  by (simp add: unat_sub word_le_nat_alt)

lemma unat_ucast_32_64 [simp]: "unat (ucast (x :: 32 word) :: 64 word) = unat x"
  by transfer simp

lemma unat_ucast_64_32: "unat (ucast (x :: 64 word) :: 32 word) = unat x mod 2 ^ 32"
  by (simp add: unsigned_ucast_eq take_bit_eq_mod)

text \<open>A number of \<open>int\<close> range goes through \<open>int\<close> and back unchanged.\<close>

lemma narrow_wide:
  assumes "- (2 ^ 31) \<le> i" and "i < 2 ^ 31"
  shows "scast (ucast (word_of_int i :: 64 word) :: c_int) = (word_of_int i :: 64 word)"
proof -
  have "(ucast (word_of_int i :: 64 word) :: c_int) = word_of_int i"
    by transfer (simp add: take_bit_take_bit min_def)
  moreover have "sint (word_of_int i :: c_int) = i"
    using assms by (simp add: signed_of_int signed_take_bit_int_eq_self_iff)
  ultimately show ?thesis by (metis scast_eq)
qed

lemma uint_le_iff_unat: "uint w \<le> int n \<longleftrightarrow> unat w \<le> n" for w :: "'a::len word"
  using of_nat_le_iff [of "unat w" n, where ?'a = int] by simp

lemma uint_less_iff_unat: "uint w < int n \<longleftrightarrow> unat w < n" for w :: "'a::len word"
  using of_nat_less_iff [of "unat w" n, where ?'a = int] by simp

lemma word_of_unat_eq: "unat w = k \<Longrightarrow> w = of_nat k" for w :: "'a::len word"
  by auto

lemma sint_small:
  fixes w :: "'a::len word"
  assumes "unat w < 2 ^ (LENGTH('a) - 1)"
  shows "sint w = int (unat w)"
proof -
  have "sint (word_of_nat n :: 'a word) = int n" if "n < 2 ^ (LENGTH('a) - 1)" for n
  proof -
    have "int n < 2 ^ (LENGTH('a) - 1)" using that by (metis of_nat_less_iff of_nat_numeral of_nat_power)
    moreover have "- (2 ^ (LENGTH('a) - 1)) \<le> int n" by (rule order_trans [of _ 0]) simp_all
    ultimately show ?thesis by (simp add: signed_of_nat signed_take_bit_int_eq_self_iff)
  qed
  from this [OF assms] show ?thesis by simp
qed

lemma scast_nat_pos:
  fixes w :: c_int
  assumes "unat w < 2 ^ 31"
  shows "unat (scast w :: 64 word) = unat w"
proof -
  have "(scast (word_of_nat n :: c_int) :: 64 word) = word_of_nat n" if "n < 2 ^ 31" for n
  proof -
    have "sint (word_of_nat n :: c_int) = int n"
      using that by (simp add: signed_of_nat signed_take_bit_int_eq_self_iff)
    then show ?thesis by (metis of_int_of_nat_eq scast_eq)
  qed
  from this [of "unat w"] assms have "(scast w :: 64 word) = word_of_nat (unat w)" by simp
  moreover have "unat w mod 2 ^ 64 = unat w" using assms by simp
  ultimately show ?thesis by (simp add: unat_of_nat)
qed

section \<open>Byte buffers\<close>

text \<open>\<open>put_at off bs xs\<close> overwrites \<open>xs\<close> from offset \<open>off\<close> with \<open>bs\<close>; \<open>get_at\<close> reads back.\<close>

definition put_at :: "nat \<Rightarrow> 'a list \<Rightarrow> 'a list \<Rightarrow> 'a list" where
  "put_at off bs xs = take off xs @ bs @ drop (off + length bs) xs"

definition get_at :: "nat \<Rightarrow> nat \<Rightarrow> 'a list \<Rightarrow> 'a list" where
  "get_at off n xs = take n (drop off xs)"

lemma length_put_at [buffer_simps]:
  "off + length bs \<le> length xs \<Longrightarrow> length (put_at off bs xs) = length xs"
  by (simp add: put_at_def)

lemma length_get_at [buffer_simps]:
  "off + n \<le> length xs \<Longrightarrow> length (get_at off n xs) = n"
  by (simp add: get_at_def)

lemma get_put_same [buffer_simps]:
  "off + length bs \<le> length xs \<Longrightarrow> n = length bs \<Longrightarrow> get_at off n (put_at off bs xs) = bs"
  by (simp add: get_at_def put_at_def)

lemma get_put_prefix [buffer_simps]:
  "length bs \<le> length xs \<Longrightarrow> n \<le> length bs \<Longrightarrow> get_at 0 n (put_at 0 bs xs) = take n bs"
  by (simp add: get_at_def put_at_def)

lemma nth_put_at [buffer_simps]:
  "off + length bs \<le> length xs \<Longrightarrow> i < length xs \<Longrightarrow>
   put_at off bs xs ! i = (if off \<le> i \<and> i < off + length bs then bs ! (i - off) else xs ! i)"
  by (auto simp: put_at_def nth_append min_def)

lemma nth_get_at [buffer_simps]:
  "off + n \<le> length xs \<Longrightarrow> i < n \<Longrightarrow> get_at off n xs ! i = xs ! (off + i)"
  by (simp add: get_at_def)

lemma get_put_disjoint:
  assumes "off + length bs \<le> length xs" and "o2 + n \<le> length xs"
    and "o2 + n \<le> off \<or> off + length bs \<le> o2"
  shows "get_at o2 n (put_at off bs xs) = get_at o2 n xs"
proof (rule nth_equalityI)
  show "length (get_at o2 n (put_at off bs xs)) = length (get_at o2 n xs)"
    using assms by (simp add: length_get_at length_put_at)
next
  fix i
  assume "i < length (get_at o2 n (put_at off bs xs))"
  then have i: "i < n" using assms by (simp add: length_get_at length_put_at)
  then show "get_at o2 n (put_at off bs xs) ! i = get_at o2 n xs ! i"
    using assms by (auto simp: nth_get_at length_put_at nth_put_at)
qed

lemma put_at_Nil [buffer_simps, simp]: "put_at off [] xs = xs"
  by (simp add: put_at_def)

lemma get_at_0 [buffer_simps]: "get_at 0 n xs = take n xs"
  by (simp add: get_at_def)

lemma put_at_append:
  "off + length as + length bs \<le> length xs \<Longrightarrow>
   put_at (off + length as) bs (put_at off as xs) = put_at off (as @ bs) xs"
  by (cases as) (auto simp: put_at_def min_def ac_simps)

lemma get_at_append:
  "get_at off (m + n) xs = get_at off m xs @ get_at (off + m) n xs"
  by (simp add: get_at_def take_add add.commute)

section \<open>Two threads\<close>

text \<open>Program counters where threads 0 and 1 are at \<open>a\<close> and \<open>b\<close> and every other one is idle.\<close>

definition duo :: "'a \<Rightarrow> 'a \<Rightarrow> 'a \<Rightarrow> nat \<Rightarrow> 'a" where
  "duo idle a b = (\<lambda>i. if i = 0 then a else if i = 1 then b else idle)"

lemma duo_simps [simp]:
  "duo idle a b 0 = a" "duo idle a b (Suc 0) = b"
  "(duo idle a b)(0 := x) = duo idle x b" "(duo idle a b)(Suc 0 := x) = duo idle a x"
  by (auto simp: duo_def)

lemma duo_idle: "(\<lambda>_. idle) = duo idle idle idle"
  by (auto simp: duo_def)

section \<open>Transition systems\<close>

text \<open>
  A state machine of the development is a start predicate and a step relation. What every
  start state satisfies and every step keeps holds in every reachable state; the machines
  below get their invariants by interpreting this contract.
\<close>

definition reaches :: "('s \<Rightarrow> bool) \<Rightarrow> ('s \<Rightarrow> 's \<Rightarrow> bool) \<Rightarrow> 's \<Rightarrow> bool" where
  "reaches start step t \<longleftrightarrow> (\<exists>s. start s \<and> step\<^sup>*\<^sup>* s t)"

lemma reaches_start: "start s \<Longrightarrow> reaches start step s"
  by (auto simp: reaches_def)

lemma reaches_step: "reaches start step s \<Longrightarrow> step s t \<Longrightarrow> reaches start step t"
  by (auto simp: reaches_def intro: rtranclp.rtrancl_into_rtrancl)

lemma reaches_step_eq: "reaches start step s \<Longrightarrow> step s t' \<Longrightarrow> t = t' \<Longrightarrow> reaches start step t"
  by (auto intro: reaches_step)

lemma reaches_steps: "reaches start step s \<Longrightarrow> step\<^sup>*\<^sup>* s t \<Longrightarrow> reaches start step t"
  by (auto simp: reaches_def intro: rtranclp_trans)

locale invariant_system =
  fixes start :: "'s \<Rightarrow> bool"
    and step :: "'s \<Rightarrow> 's \<Rightarrow> bool"
    and inv :: "'s \<Rightarrow> bool"
  assumes inv_start: "start s \<Longrightarrow> inv s"
    and inv_step: "inv s \<Longrightarrow> step s t \<Longrightarrow> inv t"
begin

lemma inv_steps: "step\<^sup>*\<^sup>* s t \<Longrightarrow> inv s \<Longrightarrow> inv t"
  by (induction rule: rtranclp_induct) (auto intro: inv_step)

lemma inv_reaches: "reaches start step t \<Longrightarrow> inv t"
  by (auto simp: reaches_def intro: inv_steps inv_start)

end

end
