(* ===== verification/Kernel_Interface.thy ===== *)
theory Kernel_Interface
  imports Prelude
begin

text \<open>
  The Linux kernel is not part of the repository: it is a parameter. A \<open>kernel\<close> record
  gives the result of every kernel call a driver makes as a function of the calls made
  before it (the log) and of the arguments, so a theorem over all \<open>K\<close> covers every
  behaviour a kernel may show to one run of driver code. \<open>uaccess\<close> does the same for the
  user-space copies and \<open>lockops\<close> for the blocking primitives. Documented behaviour that
  a property relies on is a named hypothesis: \<open>kernel_ok\<close>, \<open>uaccess_ok\<close>, \<open>lock_laws\<close>.
  The log of calls is what a driver does to the kernel; \<open>ledger\<close> reads from it which
  resources are held, with \<open>None\<close> for a release of something not held.
\<close>

section \<open>Outcomes of driver code\<close>

datatype fault = NullDeref | OutOfBounds | BadState

datatype 'a outcome = Ret 'a | Block | Fault fault

fun obind :: "'a outcome \<Rightarrow> ('a \<Rightarrow> 'b outcome) \<Rightarrow> 'b outcome" where
  "obind (Ret x) f = f x"
| "obind Block f = Block"
| "obind (Fault e) f = Fault e"

lemma obind_Ret_iff: "obind m f = Ret y \<longleftrightarrow> (\<exists>x. m = Ret x \<and> f x = Ret y)"
  by (cases m) auto

lemma obind_assoc: "obind (obind m f) g = obind m (\<lambda>x. obind (f x) g)"
  by (cases m) auto

section \<open>User-space access\<close>

text \<open>
  \<open>copy_to_user U p bs\<close>: how many of the bytes could not be copied, and the bytes that
  arrived at user address \<open>p\<close>. \<open>copy_from_user U p n\<close>: how many could not be copied, and
  the \<open>n\<close> bytes found at the kernel destination afterwards.
\<close>

record uaccess =
  copy_to_user :: "ptr \<Rightarrow> byte list \<Rightarrow> size_t \<times> byte list"
  copy_from_user :: "ptr \<Rightarrow> size_t \<Rightarrow> size_t \<times> byte list"
  access_ok :: "c_int \<Rightarrow> ptr \<Rightarrow> c_uint \<Rightarrow> bool"
  user_mem :: "ptr \<Rightarrow> byte"

definition user_bytes :: "uaccess \<Rightarrow> ptr \<Rightarrow> nat \<Rightarrow> byte list" where
  "user_bytes U p n = map (\<lambda>i. user_mem U (p + of_nat i)) [0..<n]"

lemma length_user_bytes [simp]: "length (user_bytes U p n) = n"
  by (simp add: user_bytes_def)

lemma take_user_bytes: "m \<le> n \<Longrightarrow> take m (user_bytes U p n) = user_bytes U p m"
  by (simp add: user_bytes_def take_map)

text \<open>
  Documented: both return the number of bytes that could not be copied, zero on success;
  a short \<open>copy_from_user\<close> pads the destination to the requested size with zero bytes.
\<close>

definition uaccess_ok :: "uaccess \<Rightarrow> bool" where
  "uaccess_ok U \<longleftrightarrow>
     (\<forall>p bs. unat (fst (copy_to_user U p bs)) \<le> length bs \<and>
        snd (copy_to_user U p bs) = take (length bs - unat (fst (copy_to_user U p bs))) bs) \<and>
     (\<forall>p n. unat (fst (copy_from_user U p n)) \<le> unat n \<and>
        snd (copy_from_user U p n) =
          user_bytes U p (unat n - unat (fst (copy_from_user U p n))) @
          replicate (unat (fst (copy_from_user U p n))) 0)"

text \<open>A user space in which every page is mapped: nothing is left uncopied.\<close>

definition mapped_uaccess :: "(ptr \<Rightarrow> byte) \<Rightarrow> uaccess" where
  "mapped_uaccess m = \<lparr>copy_to_user = (\<lambda>p bs. (0, bs)),
     copy_from_user = (\<lambda>p n. (0, map (\<lambda>i. m (p + of_nat i)) [0..<unat n])),
     access_ok = (\<lambda>t p n. True), user_mem = m\<rparr>"

lemma mapped_uaccess_ok: "uaccess_ok (mapped_uaccess m)"
  by (simp add: uaccess_ok_def mapped_uaccess_def user_bytes_def)

lemma copy_to_user_le: "uaccess_ok U \<Longrightarrow> unat (fst (copy_to_user U p bs)) \<le> length bs"
  by (simp add: uaccess_ok_def)

lemma copy_to_user_data:
  "uaccess_ok U \<Longrightarrow>
   snd (copy_to_user U p bs) = take (length bs - unat (fst (copy_to_user U p bs))) bs"
  by (simp add: uaccess_ok_def)

lemma copy_from_user_le: "uaccess_ok U \<Longrightarrow> unat (fst (copy_from_user U p n)) \<le> unat n"
  by (simp add: uaccess_ok_def)

lemma copy_from_user_data:
  "uaccess_ok U \<Longrightarrow> snd (copy_from_user U p n) =
     user_bytes U p (unat n - unat (fst (copy_from_user U p n))) @
     replicate (unat (fst (copy_from_user U p n))) 0"
  unfolding uaccess_ok_def by blast

lemma length_copy_from_user [buffer_simps]:
  "uaccess_ok U \<Longrightarrow> length (snd (copy_from_user U p n)) = unat n"
  by (simp add: copy_from_user_data copy_from_user_le)

section \<open>Kernel objects\<close>

text \<open>
  Reading and writing \<open>n\<close> bytes at offset \<open>off\<close> of the object at \<open>p\<close> with contents \<open>xs\<close>.
  An access through a null pointer or past the end of the object is a fault; an empty
  access touches nothing.
\<close>

definition obj_check :: "ptr \<Rightarrow> 'a list \<Rightarrow> nat \<Rightarrow> nat \<Rightarrow> fault option" where
  "obj_check p xs off n =
     (if n = 0 then None else if p = 0 then Some NullDeref
      else if off + n \<le> length xs then None else Some OutOfBounds)"

definition copy_out ::
    "uaccess \<Rightarrow> ptr \<Rightarrow> ptr \<Rightarrow> byte list \<Rightarrow> nat \<Rightarrow> size_t \<Rightarrow> (size_t \<times> byte list) outcome" where
  "copy_out U up p xs off len =
     (case obj_check p xs off (unat len) of
        Some f \<Rightarrow> Fault f
      | None \<Rightarrow> Ret (copy_to_user U up (get_at off (unat len) xs)))"

definition copy_in ::
    "uaccess \<Rightarrow> ptr \<Rightarrow> ptr \<Rightarrow> byte list \<Rightarrow> nat \<Rightarrow> size_t \<Rightarrow> (size_t \<times> byte list) outcome" where
  "copy_in U up p xs off len =
     (case obj_check p xs off (unat len) of
        Some f \<Rightarrow> Fault f
      | None \<Rightarrow> (let r = copy_from_user U up len in Ret (fst r, put_at off (snd r) xs)))"

definition fill_obj :: "ptr \<Rightarrow> byte list \<Rightarrow> byte \<Rightarrow> size_t \<Rightarrow> byte list outcome" where
  "fill_obj p xs c len =
     (case obj_check p xs 0 (unat len) of
        Some f \<Rightarrow> Fault f
      | None \<Rightarrow> Ret (put_at 0 (replicate (unat len) c) xs))"

lemma obj_check_None [simp]:
  "obj_check p xs off n = None \<longleftrightarrow> n = 0 \<or> p \<noteq> 0 \<and> off + n \<le> length xs"
  by (auto simp: obj_check_def)

lemma obj_check_fault:
  "p \<noteq> 0 \<Longrightarrow> length xs < off + n \<Longrightarrow> n \<noteq> 0 \<Longrightarrow> obj_check p xs off n = Some OutOfBounds"
  by (simp add: obj_check_def)

end
