(* ===== verification/Module_Lifecycle.thy ===== *)
theory Module_Lifecycle
  imports Kernel_Interface
begin

text \<open>
  The resource-related kernel calls of the drivers, the kernel as a parameter that answers
  them, the ledger of held resources read off a call log, and the contract of a loadable
  module: a successful \<open>module_init\<close> acquires exactly what \<open>module_exit\<close> releases, and a
  failing one leaves nothing behind. \<open>printk\<close> calls have no effect on the model and are
  left out of the log.
\<close>

section \<open>Calls and the kernel that answers them\<close>

text \<open>Each call is logged with its arguments and the result it returned.\<close>

datatype chr_call =
    Register_chrdev_region dev_t c_int c_int
  | Alloc_chrdev_region c_int c_int c_int dev_t
  | Unregister_chrdev_region dev_t c_int
  | Cdev_alloc ptr
  | Cdev_init ptr
  | Cdev_add ptr dev_t c_int c_int
  | Cdev_del ptr

datatype mem_call =
    Kmalloc size_t c_uint ptr
  | Kfree ptr
  | Vmalloc size_t ptr
  | Vfree ptr
  | Ioremap c_ulong c_ulong ptr
  | Iounmap ptr
  | Dma_alloc_coherent size_t ptr
  | Dma_free_coherent ptr
  | Dma_map_single c_ulong bool
  | Dma_unmap_single c_ulong

datatype sync_call =
    Sema_init c_int
  | Seqlock_init
  | Init_completion
  | Init_waitqueue_head
  | Spin_lock_init

datatype dev_call =
    Proc_create string c_uint ptr
  | Proc_remove ptr
  | Request_irq c_int c_int
  | Synchronize_irq c_int
  | Free_irq c_int
  | Class_create ptr
  | Class_destroy ptr
  | Device_create ptr dev_t
  | Device_destroy ptr dev_t

datatype blk_call =
    Blk_init_queue ptr
  | Blk_cleanup_queue ptr
  | Register_blkdev c_int c_int
  | Unregister_blkdev c_int
  | Alloc_disk c_int ptr
  | Set_capacity ptr c_ulong
  | Add_disk ptr
  | Del_gendisk ptr
  | Put_disk ptr

datatype bus_call =
    Bus_register c_int
  | Bus_unregister
  | Bus_create_file c_int
  | Bus_remove_file
  | Device_register string c_int
  | Device_unregister string
  | Driver_register string c_int
  | Driver_unregister string
  | Driver_create_file string c_int
  | Driver_remove_file string

datatype pci_call =
    Pci_enable_device nat c_int
  | Pci_request_region nat nat c_ulong c_int
  | Pci_release_region nat nat c_ulong
  | Pci_disable_device nat

datatype tty_call =
    Alloc_tty_driver c_int ptr
  | Put_tty_driver ptr
  | Tty_register_driver ptr c_int
  | Tty_unregister_driver ptr
  | Tty_register_device ptr nat
  | Tty_unregister_device ptr nat

datatype kcall =
    Chr chr_call
  | Mem mem_call
  | Sync sync_call
  | Dev dev_call
  | Blk blk_call
  | Bus bus_call
  | Pci pci_call
  | Tty tty_call

type_synonym klog = "kcall list"

text \<open>
  The kernel's answers. Every field sees the log so far, so an answer may depend on the
  whole history. \<open>MKDEV\<close>, \<open>MAJOR\<close>, \<open>MINOR\<close> and \<open>GFP_KERNEL\<close> come from kernel headers.
\<close>

record kernel =
  GFP_KERNEL :: c_uint
  MKDEV :: "c_int \<Rightarrow> c_int \<Rightarrow> dev_t"
  MAJOR :: "dev_t \<Rightarrow> c_int"
  MINOR :: "dev_t \<Rightarrow> c_int"
  register_chrdev_region :: "klog \<Rightarrow> dev_t \<Rightarrow> c_int \<Rightarrow> c_int"
  alloc_chrdev_region :: "klog \<Rightarrow> c_int \<Rightarrow> c_int \<Rightarrow> c_int \<times> dev_t"
  cdev_alloc :: "klog \<Rightarrow> ptr"
  cdev_add :: "klog \<Rightarrow> ptr \<Rightarrow> dev_t \<Rightarrow> c_int \<Rightarrow> c_int"
  kmalloc :: "klog \<Rightarrow> size_t \<Rightarrow> c_uint \<Rightarrow> ptr \<times> byte list"
  vmalloc :: "klog \<Rightarrow> size_t \<Rightarrow> ptr \<times> byte list"
  ioremap :: "klog \<Rightarrow> c_ulong \<Rightarrow> c_ulong \<Rightarrow> ptr"
  proc_create :: "klog \<Rightarrow> string \<Rightarrow> c_uint \<Rightarrow> ptr"
  request_irq :: "klog \<Rightarrow> c_int \<Rightarrow> c_int"

text \<open>Documented: a non-null \<open>kmalloc\<close> or \<open>vmalloc\<close> is an object of the size asked for.\<close>

definition kernel_ok :: "kernel \<Rightarrow> bool" where
  "kernel_ok K \<longleftrightarrow>
     (\<forall>l n g. fst (kmalloc K l n g) \<noteq> 0 \<longrightarrow> length (snd (kmalloc K l n g)) = unat n) \<and>
     (\<forall>l n. fst (vmalloc K l n) \<noteq> 0 \<longrightarrow> length (snd (vmalloc K l n)) = unat n)"

text \<open>
  A kernel in which every call succeeds, for concrete runs: the region is \<open>250:0\<close>, objects
  are zeroed, and \<open>GFP_KERNEL\<close> has its value in Linux 3.10 (\<open>__GFP_WAIT | __GFP_IO | __GFP_FS\<close>).
\<close>

definition good_kernel :: kernel where
  "good_kernel = \<lparr>GFP_KERNEL = 208,
     MKDEV = (\<lambda>ma mi. ma * 1048576 + mi), MAJOR = (\<lambda>d. d div 1048576), MINOR = (\<lambda>d. d mod 1048576),
     register_chrdev_region = (\<lambda>l d c. 0), alloc_chrdev_region = (\<lambda>l b c. (0, 262144000)),
     cdev_alloc = (\<lambda>l. 4096), cdev_add = (\<lambda>l p d c. 0),
     kmalloc = (\<lambda>l n g. (8192, replicate (unat n) 0)),
     vmalloc = (\<lambda>l n. (16384, replicate (unat n) 0)),
     ioremap = (\<lambda>l a n. 32768), proc_create = (\<lambda>l s m. 65536), request_irq = (\<lambda>l i. 0)\<rparr>"

lemma good_kernel_ok: "kernel_ok good_kernel"
  by (simp add: kernel_ok_def good_kernel_def)

lemma kmalloc_length:
  "kernel_ok K \<Longrightarrow> fst (kmalloc K l n g) \<noteq> 0 \<Longrightarrow> length (snd (kmalloc K l n g)) = unat n"
  by (simp add: kernel_ok_def)

lemma vmalloc_length:
  "kernel_ok K \<Longrightarrow> fst (vmalloc K l n) \<noteq> 0 \<Longrightarrow> length (snd (vmalloc K l n)) = unat n"
  by (simp add: kernel_ok_def)

section \<open>The ledger\<close>

datatype resource =
    Chrdev_region dev_t c_int
  | Cdev_obj ptr
  | Kmem ptr
  | Vmem ptr
  | Io_mapping ptr
  | Dma_buffer ptr
  | Dma_mapping c_ulong
  | Proc_entry ptr
  | Irq_line c_int
  | Dev_class ptr
  | Dev_node ptr dev_t
  | Request_queue ptr
  | Blkdev_major c_int
  | Disk_obj ptr
  | Disk_added ptr
  | Bus_type
  | Bus_attr
  | Device_reg string
  | Driver_reg string
  | Driver_attr string
  | Pci_enabled nat
  | Pci_region nat nat
  | Tty_driver_obj ptr
  | Tty_driver_reg ptr
  | Tty_device ptr nat

datatype effect = Acquires resource | Releases resource | Neutral

definition when_ok :: "c_int \<Rightarrow> resource \<Rightarrow> effect" where
  "when_ok ret r = (if sint ret < 0 then Neutral else Acquires r)"

definition when_zero :: "c_int \<Rightarrow> resource \<Rightarrow> effect" where
  "when_zero ret r = (if ret = 0 then Acquires r else Neutral)"

definition when_ptr :: "ptr \<Rightarrow> effect \<Rightarrow> effect" where
  "when_ptr p e = (if p = 0 then Neutral else e)"

text \<open>
  What each call acquires or releases, by the documentation of the call. The length in a
  PCI region call is that of the BAR; an absent BAR, of length 0, is neither acquired nor
  released.
\<close>

primrec chr_effect :: "chr_call \<Rightarrow> effect" where
  "chr_effect (Register_chrdev_region d c ret) = when_ok ret (Chrdev_region d c)"
| "chr_effect (Alloc_chrdev_region b c ret d) = when_ok ret (Chrdev_region d c)"
| "chr_effect (Unregister_chrdev_region d c) = Releases (Chrdev_region d c)"
| "chr_effect (Cdev_alloc p) = when_ptr p (Acquires (Cdev_obj p))"
| "chr_effect (Cdev_init p) = Neutral"
| "chr_effect (Cdev_add p d c ret) = Neutral"
| "chr_effect (Cdev_del p) = Releases (Cdev_obj p)"

primrec mem_effect :: "mem_call \<Rightarrow> effect" where
  "mem_effect (Kmalloc n g p) = when_ptr p (Acquires (Kmem p))"
| "mem_effect (Kfree p) = when_ptr p (Releases (Kmem p))"
| "mem_effect (Vmalloc n p) = when_ptr p (Acquires (Vmem p))"
| "mem_effect (Vfree p) = when_ptr p (Releases (Vmem p))"
| "mem_effect (Ioremap a n p) = when_ptr p (Acquires (Io_mapping p))"
| "mem_effect (Iounmap p) = Releases (Io_mapping p)"
| "mem_effect (Dma_alloc_coherent n p) = when_ptr p (Acquires (Dma_buffer p))"
| "mem_effect (Dma_free_coherent p) = Releases (Dma_buffer p)"
| "mem_effect (Dma_map_single h failed) = (if failed then Neutral else Acquires (Dma_mapping h))"
| "mem_effect (Dma_unmap_single h) = Releases (Dma_mapping h)"

primrec sync_effect :: "sync_call \<Rightarrow> effect" where
  "sync_effect (Sema_init n) = Neutral"
| "sync_effect Seqlock_init = Neutral"
| "sync_effect Init_completion = Neutral"
| "sync_effect Init_waitqueue_head = Neutral"
| "sync_effect Spin_lock_init = Neutral"

primrec dev_effect :: "dev_call \<Rightarrow> effect" where
  "dev_effect (Proc_create s m p) = when_ptr p (Acquires (Proc_entry p))"
| "dev_effect (Proc_remove p) = when_ptr p (Releases (Proc_entry p))"
| "dev_effect (Request_irq i ret) = when_zero ret (Irq_line i)"
| "dev_effect (Synchronize_irq i) = Neutral"
| "dev_effect (Free_irq i) = Releases (Irq_line i)"
| "dev_effect (Class_create p) = when_ptr p (Acquires (Dev_class p))"
| "dev_effect (Class_destroy p) = when_ptr p (Releases (Dev_class p))"
| "dev_effect (Device_create c d) = Acquires (Dev_node c d)"
| "dev_effect (Device_destroy c d) = Releases (Dev_node c d)"

primrec blk_effect :: "blk_call \<Rightarrow> effect" where
  "blk_effect (Blk_init_queue p) = when_ptr p (Acquires (Request_queue p))"
| "blk_effect (Blk_cleanup_queue p) = Releases (Request_queue p)"
| "blk_effect (Register_blkdev m ret) =
     (if sint ret \<le> 0 then Neutral else Acquires (Blkdev_major ret))"
| "blk_effect (Unregister_blkdev m) = Releases (Blkdev_major m)"
| "blk_effect (Alloc_disk n p) = when_ptr p (Acquires (Disk_obj p))"
| "blk_effect (Set_capacity p n) = Neutral"
| "blk_effect (Add_disk p) = Acquires (Disk_added p)"
| "blk_effect (Del_gendisk p) = Releases (Disk_added p)"
| "blk_effect (Put_disk p) = when_ptr p (Releases (Disk_obj p))"

primrec bus_effect :: "bus_call \<Rightarrow> effect" where
  "bus_effect (Bus_register ret) = when_zero ret Bus_type"
| "bus_effect Bus_unregister = Releases Bus_type"
| "bus_effect (Bus_create_file ret) = when_zero ret Bus_attr"
| "bus_effect Bus_remove_file = Releases Bus_attr"
| "bus_effect (Device_register n ret) = when_zero ret (Device_reg n)"
| "bus_effect (Device_unregister n) = Releases (Device_reg n)"
| "bus_effect (Driver_register n ret) = when_zero ret (Driver_reg n)"
| "bus_effect (Driver_unregister n) = Releases (Driver_reg n)"
| "bus_effect (Driver_create_file n ret) = when_zero ret (Driver_attr n)"
| "bus_effect (Driver_remove_file n) = Releases (Driver_attr n)"

primrec pci_effect :: "pci_call \<Rightarrow> effect" where
  "pci_effect (Pci_enable_device d ret) = when_zero ret (Pci_enabled d)"
| "pci_effect (Pci_request_region d i n ret) = (if n = 0 then Neutral else when_zero ret (Pci_region d i))"
| "pci_effect (Pci_release_region d i n) = (if n = 0 then Neutral else Releases (Pci_region d i))"
| "pci_effect (Pci_disable_device d) = Releases (Pci_enabled d)"

primrec tty_effect :: "tty_call \<Rightarrow> effect" where
  "tty_effect (Alloc_tty_driver n p) = when_ptr p (Acquires (Tty_driver_obj p))"
| "tty_effect (Put_tty_driver p) = Releases (Tty_driver_obj p)"
| "tty_effect (Tty_register_driver p ret) = when_zero ret (Tty_driver_reg p)"
| "tty_effect (Tty_unregister_driver p) = Releases (Tty_driver_reg p)"
| "tty_effect (Tty_register_device p i) = Acquires (Tty_device p i)"
| "tty_effect (Tty_unregister_device p i) = Releases (Tty_device p i)"

primrec effect_of :: "kcall \<Rightarrow> effect" where
  "effect_of (Chr c) = chr_effect c"
| "effect_of (Mem c) = mem_effect c"
| "effect_of (Sync c) = sync_effect c"
| "effect_of (Dev c) = dev_effect c"
| "effect_of (Blk c) = blk_effect c"
| "effect_of (Bus c) = bus_effect c"
| "effect_of (Pci c) = pci_effect c"
| "effect_of (Tty c) = tty_effect c"

fun apply_effect :: "effect \<Rightarrow> resource multiset option \<Rightarrow> resource multiset option" where
  "apply_effect e None = None"
| "apply_effect Neutral (Some R) = Some R"
| "apply_effect (Acquires r) (Some R) = Some (add_mset r R)"
| "apply_effect (Releases r) (Some R) = (if r \<in># R then Some (R - {#r#}) else None)"

lemma apply_effect_Neutral [simp]: "apply_effect Neutral R = R"
  by (cases R) auto

definition ledger_from :: "resource multiset option \<Rightarrow> klog \<Rightarrow> resource multiset option" where
  "ledger_from R l = foldl (\<lambda>R c. apply_effect (effect_of c) R) R l"

definition ledger :: "klog \<Rightarrow> resource multiset option" where
  "ledger l = ledger_from (Some {#}) l"

lemma ledger_Nil [simp]: "ledger [] = Some {#}"
  by (simp add: ledger_def ledger_from_def)

lemma ledger_snoc [simp]: "ledger (l @ [c]) = apply_effect (effect_of c) (ledger l)"
  by (simp add: ledger_def ledger_from_def)

lemma ledger_snocs [simp]: "ledger (l @ c # cs) = ledger_from (apply_effect (effect_of c) (ledger l)) cs"
  by (simp add: ledger_def ledger_from_def)

lemma ledger_from_simps [simp]:
  "ledger_from R [] = R"
  "ledger_from R (c # cs) = ledger_from (apply_effect (effect_of c) R) cs"
  by (simp_all add: ledger_from_def)

lemma ledger_append: "ledger (l @ m) = ledger_from (ledger l) m"
  by (simp add: ledger_def ledger_from_def)

lemmas effect_simps = when_ok_def when_zero_def when_ptr_def

section \<open>Loadable modules\<close>

type_synonym ('e, 'g) module_init = "'e \<Rightarrow> 'g \<Rightarrow> klog \<Rightarrow> c_int \<times> 'g \<times> klog"
type_synonym 'g module_exit = "'g \<Rightarrow> klog \<Rightarrow> 'g \<times> klog"

text \<open>
  Loading and unloading again and again: each load starts from a fresh image \<open>g0\<close> of the
  module's data; a load whose init fails is followed by no unload.
\<close>

fun load_unload ::
    "('e, 'g) module_init \<Rightarrow> 'g module_exit \<Rightarrow> 'g \<Rightarrow> 'e list \<Rightarrow> klog \<Rightarrow> klog" where
  "load_unload init exit g0 [] l = l"
| "load_unload init exit g0 (K # Ks) l =
     (case init K g0 l of (ret, g, l') \<Rightarrow>
        load_unload init exit g0 Ks (if ret = 0 then snd (exit g l') else l'))"

locale loadable_module =
  fixes init :: "('e, 'g) module_init"
    and exit :: "'g module_exit"
    and owns :: "'g \<Rightarrow> resource multiset"
  assumes init_success: "init K g l = (0, g', l') \<Longrightarrow> ledger l = Some R \<Longrightarrow> ledger l' = Some (R + owns g')"
    and init_failure: "init K g l = (ret, g', l') \<Longrightarrow> ret \<noteq> 0 \<Longrightarrow> ledger l = Some R \<Longrightarrow> ledger l' = Some R"
    and exit_releases: "ledger l = Some (R + owns g) \<Longrightarrow> ledger (snd (exit g l)) = Some R"
begin

lemma one_cycle:
  assumes "init K g0 l = (ret, g, l')" and "ledger l = Some R"
  shows "ledger (if ret = 0 then snd (exit g l') else l') = Some R"
  using assms by (auto intro: exit_releases init_success init_failure)

lemma load_unload_balanced: "ledger l = Some R \<Longrightarrow> ledger (load_unload init exit g0 Ks l) = Some R"
proof (induction Ks arbitrary: l)
  case Nil
  then show ?case by simp
next
  case (Cons K Ks)
  obtain ret g l' where i: "init K g0 l = (ret, g, l')" by (metis prod_cases3)
  show ?case
    using Cons.IH [OF one_cycle [OF i Cons.prems]] by (simp add: i)
qed

end

section \<open>Blocking primitives\<close>

text \<open>
  A semaphore initialised to one and a spinlock are the same contract to a driver: a lock
  that one caller at a time can pass. \<open>None\<close> is a caller that waits. A completion is a
  counter of signals not yet consumed. A seqlock hands a reader a sequence number and
  tells it afterwards whether a writer was there in between.
\<close>

record 'l lockops =
  lk_init :: 'l
  lk_acquire :: "'l \<Rightarrow> 'l option"
  lk_release :: "'l \<Rightarrow> 'l"

definition lk_free :: "'l lockops \<Rightarrow> 'l \<Rightarrow> bool" where
  "lk_free L x \<longleftrightarrow> lk_acquire L x \<noteq> None"

text \<open>The lock states a run can produce are delimited by \<open>V\<close>.\<close>

definition lock_laws :: "('l \<Rightarrow> bool) \<Rightarrow> 'l lockops \<Rightarrow> bool" where
  "lock_laws V L \<longleftrightarrow> V (lk_init L) \<and> lk_free L (lk_init L) \<and>
     (\<forall>x y. lk_acquire L x = Some y \<longrightarrow> lk_free L (lk_release L y)) \<and>
     (\<forall>x y. V x \<longrightarrow> lk_acquire L x = Some y \<longrightarrow> V y \<and> \<not> lk_free L y) \<and>
     (\<forall>x. V x \<longrightarrow> \<not> lk_free L x \<longrightarrow> V (lk_release L x) \<and> lk_free L (lk_release L x))"

record 'c complops =
  cp_init :: 'c
  cp_wait :: "'c \<Rightarrow> 'c option"
  cp_complete :: "'c \<Rightarrow> 'c"
  cp_done :: "'c \<Rightarrow> nat"

text \<open>
  Documented: \<open>complete\<close> wakes one waiter, or lets one later \<open>wait_for_completion\<close> pass;
  a wait consumes one signal.
\<close>

definition completion_laws :: "'c complops \<Rightarrow> bool" where
  "completion_laws C \<longleftrightarrow> cp_done C (cp_init C) = 0 \<and>
     (\<forall>x. cp_done C (cp_complete C x) = Suc (cp_done C x)) \<and>
     (\<forall>x. cp_wait C x = None \<longleftrightarrow> cp_done C x = 0) \<and>
     (\<forall>x y. cp_wait C x = Some y \<longrightarrow> cp_done C x = Suc (cp_done C y))"

record 'q seqops =
  sq_init :: 'q
  sq_begin :: "'q \<Rightarrow> c_uint"
  sq_retry :: "'q \<Rightarrow> c_uint \<Rightarrow> bool"

text \<open>Documented: a reader retries only when a writer came in between.\<close>

definition seqlock_laws :: "'q seqops \<Rightarrow> bool" where
  "seqlock_laws Q \<longleftrightarrow> (\<forall>q. \<not> sq_retry Q q (sq_begin Q q))"

text \<open>The counting semaphore of the kernel documentation, started at one.\<close>

definition counting_lock :: "nat lockops" where
  "counting_lock = \<lparr>lk_init = 1,
     lk_acquire = (\<lambda>n. if 0 < n then Some (n - 1) else None), lk_release = Suc\<rparr>"

text \<open>The spinlock as a flag.\<close>

definition flag_lock :: "bool lockops" where
  "flag_lock = \<lparr>lk_init = False,
     lk_acquire = (\<lambda>b. if b then None else Some True), lk_release = (\<lambda>_. False)\<rparr>"

definition counting_completion :: "nat complops" where
  "counting_completion = \<lparr>cp_init = 0, cp_wait = (\<lambda>n. case n of 0 \<Rightarrow> None | Suc m \<Rightarrow> Some m),
     cp_complete = Suc, cp_done = (\<lambda>n. n)\<rparr>"

definition counting_seqlock :: "c_uint seqops" where
  "counting_seqlock = \<lparr>sq_init = 0, sq_begin = (\<lambda>q. q), sq_retry = (\<lambda>q n. q \<noteq> n)\<rparr>"

lemma flag_lock_laws: "lock_laws (\<lambda>_. True) flag_lock"
  by (auto simp: lock_laws_def lk_free_def flag_lock_def)

lemma counting_lock_laws: "lock_laws (\<lambda>n. n \<le> 1) counting_lock"
  by (auto simp: lock_laws_def lk_free_def counting_lock_def)

lemma counting_completion_laws: "completion_laws counting_completion"
  by (auto simp: completion_laws_def counting_completion_def split: nat.splits)

lemma counting_seqlock_laws: "seqlock_laws counting_seqlock"
  by (simp add: seqlock_laws_def counting_seqlock_def)

text \<open>The lock interface as the drivers use it, and its two documented providers.\<close>

locale kernel_lock =
  fixes V :: "'l \<Rightarrow> bool"
    and L :: "'l lockops"
  assumes laws: "lock_laws V L"
begin

lemma init_free: "V (lk_init L)" "lk_free L (lk_init L)"
  using laws by (auto simp: lock_laws_def)

lemma release_free: "lk_acquire L x = Some y \<Longrightarrow> lk_free L (lk_release L y)"
  using laws by (auto simp: lock_laws_def)

lemma acquire_taken: "V x \<Longrightarrow> lk_acquire L x = Some y \<Longrightarrow> V y \<and> \<not> lk_free L y"
  using laws by (auto simp: lock_laws_def)

lemma taken_release: "V x \<Longrightarrow> \<not> lk_free L x \<Longrightarrow> V (lk_release L x) \<and> lk_free L (lk_release L x)"
  using laws by (auto simp: lock_laws_def)

lemma free_acquire: "lk_free L x \<Longrightarrow> \<exists>y. lk_acquire L x = Some y"
  by (auto simp: lk_free_def)

end

interpretation semaphore: kernel_lock "\<lambda>n. n \<le> 1" counting_lock
  by unfold_locales (rule counting_lock_laws)

interpretation spinlock: kernel_lock "\<lambda>_. True" flag_lock
  by unfold_locales (rule flag_lock_laws)

end
