(* ===== verification/Char_Driver.thy ===== *)
theory Char_Driver
  imports Module_Lifecycle
begin

text \<open>
  The sample character driver of day 2 (\<open>ex3.c\<close> with a static device number, \<open>ex4.c\<close> with a
  dynamic one) and the parts that the later examples repeat line for line: the transfer
  bodies of read and write, the init sequence with its error labels and the exit sequence.
  The contract \<open>char_device\<close> states what read and write of every such driver do; each
  example interprets it on its own operations.
\<close>

section \<open>State\<close>

text \<open>
  The globals of \<open>ex4.c\<close>. \<open>buffer\<close> is the pointer (zero is NULL) and \<open>bufmem\<close> the
  contents of the object it points to. Later examples extend the record.
\<close>

record chr =
  major_num :: c_int
  minor_num :: c_int
  char_dev :: dev_t
  char_cdev :: ptr
  buffer :: ptr
  bufmem :: "byte list"

definition chr_image :: chr where
  "chr_image = \<lparr>major_num = 0, minor_num = 0, char_dev = 0, char_cdev = 0, buffer = 0, bufmem = []\<rparr>"

text \<open>\<open>int count=1; int buffer_len=4000;\<close>, the same in every example.\<close>

definition dev_count :: c_int where "dev_count = 1"
definition buffer_len :: c_int where "buffer_len = 4000"

lemma scast_buffer_len [simp]: "scast buffer_len = (4000 :: 64 word)"
  by (simp add: buffer_len_def)

section \<open>Read and write\<close>

text \<open>\<open>if(count > buffer_len) len=buffer_len; else len=count;\<close> compares as \<open>unsigned long\<close>.\<close>

definition xfer_len :: "size_t \<Rightarrow> size_t" where
  "xfer_len cnt = (if scast buffer_len < cnt then scast buffer_len else cnt)"

definition xfer_read :: "uaccess \<Rightarrow> ptr \<Rightarrow> size_t \<Rightarrow> ptr \<Rightarrow> byte list \<Rightarrow> (ssize_t \<times> byte list) outcome" where
  "xfer_read U user_ptr cnt buf mem =
     (let len = xfer_len cnt
      in obind (copy_out U user_ptr buf mem 0 len) (\<lambda>(ret_len, out). Ret (len - ret_len, out)))"

definition xfer_write :: "uaccess \<Rightarrow> ptr \<Rightarrow> size_t \<Rightarrow> ptr \<Rightarrow> byte list \<Rightarrow> (ssize_t \<times> byte list) outcome" where
  "xfer_write U user_ptr cnt buf mem =
     (let len = xfer_len cnt
      in obind (copy_in U user_ptr buf mem 0 len) (\<lambda>(ret_len, mem'). Ret (len - ret_len, mem')))"

definition chr_obj :: "'a chr_scheme \<Rightarrow> byte list" where
  "chr_obj s = (if buffer s = 0 then [] else bufmem s)"

lemma xfer_len_unat [c_int_simps]: "unat (xfer_len n) = min 4000 (unat n)"
  by (auto simp: xfer_len_def word_less_nat_alt)

section \<open>The device contract\<close>

text \<open>
  What \<open>read\<close> and \<open>write\<close> of a sample driver promise a user: both move \<open>min(count, 4000)\<close>
  bytes at offset zero of the one buffer object and return the number of bytes that moved;
  an object shorter than that is overrun. \<open>rd_ready\<close> and \<open>wr_ready\<close> are the states in which
  the call does not wait.
\<close>

locale char_device =
  fixes rd :: "uaccess \<Rightarrow> ptr \<Rightarrow> size_t \<Rightarrow> 's \<Rightarrow> (ssize_t \<times> byte list \<times> 's) outcome"
    and wr :: "uaccess \<Rightarrow> ptr \<Rightarrow> size_t \<Rightarrow> 's \<Rightarrow> (ssize_t \<times> 's) outcome"
    and obj :: "'s \<Rightarrow> byte list"
    and rd_ready :: "'s \<Rightarrow> bool"
    and wr_ready :: "'s \<Rightarrow> bool"
  assumes rd_moves: "uaccess_ok U \<Longrightarrow> rd_ready s \<Longrightarrow> unat (xfer_len n) \<le> length (obj s) \<Longrightarrow>
      \<exists>s'. rd U p n s = Ret (xfer_len n - fst (copy_to_user U p (take (unat (xfer_len n)) (obj s))),
                          snd (copy_to_user U p (take (unat (xfer_len n)) (obj s))), s') \<and> obj s' = obj s"
    and wr_moves: "uaccess_ok U \<Longrightarrow> wr_ready s \<Longrightarrow> unat (xfer_len n) \<le> length (obj s) \<Longrightarrow>
      \<exists>s'. wr U p n s = Ret (xfer_len n - fst (copy_from_user U p (xfer_len n)), s') \<and>
           obj s' = put_at 0 (snd (copy_from_user U p (xfer_len n))) (obj s) \<and>
           rd_ready s' \<and> wr_ready s'"
    and rd_waits: "\<not> rd_ready s \<Longrightarrow> rd U p n s = Block"
    and wr_waits: "\<not> wr_ready s \<Longrightarrow> wr U p n s = Block"
    and rd_overrun: "rd_ready s \<Longrightarrow> length (obj s) < unat (xfer_len n) \<Longrightarrow> \<exists>f. rd U p n s = Fault f"
    and wr_overrun: "wr_ready s \<Longrightarrow> length (obj s) < unat (xfer_len n) \<Longrightarrow> \<exists>f. wr U p n s = Fault f"
begin

lemma wr_fault_iff:
  assumes "uaccess_ok U" and "wr_ready s"
  shows "(\<exists>f. wr U p n s = Fault f) \<longleftrightarrow> length (obj s) < min 4000 (unat n)"
  using wr_moves [OF assms, of n p] wr_overrun [OF assms(2), of n U p]
  by (cases "unat (xfer_len n) \<le> length (obj s)") (auto simp: xfer_len_unat)

lemma rd_fault_iff:
  assumes "uaccess_ok U" and "rd_ready s"
  shows "(\<exists>f. rd U p n s = Fault f) \<longleftrightarrow> length (obj s) < min 4000 (unat n)"
  using rd_moves [OF assms, of n p] rd_overrun [OF assms(2), of n U p]
  by (cases "unat (xfer_len n) \<le> length (obj s)") (auto simp: xfer_len_unat)

lemma wr_returns_le:
  assumes "uaccess_ok U" and "wr U p n s = Ret (r, s')"
  shows "unat r \<le> min 4000 (unat n)"
proof -
  have ready: "wr_ready s" using assms(2) wr_waits [of s U p n] by auto
  have fits: "unat (xfer_len n) \<le> length (obj s)"
    using wr_overrun [OF ready, of n U p] assms(2) by (cases "unat (xfer_len n) \<le> length (obj s)") auto
  have r: "r = xfer_len n - fst (copy_from_user U p (xfer_len n))"
    using wr_moves [OF assms(1) ready fits, of p] assms(2) by auto
  show ?thesis
    using copy_from_user_le [OF assms(1), of p "xfer_len n"]
    by (auto simp: r unat_diff_le xfer_len_unat)
qed

text \<open>A write that copies everything makes the next read return those bytes.\<close>

lemma wr_then_rd:
  assumes U: "uaccess_ok U" "uaccess_ok U'"
    and w: "wr U p n s = Ret (r, s')" and full: "r = xfer_len n"
    and m: "unat m \<le> unat n" and full': "fst (copy_to_user U' q (user_bytes U p (unat (xfer_len m)))) = 0"
  shows "\<exists>s''. rd U' q m s' = Ret (xfer_len m, user_bytes U p (min 4000 (unat m)), s'')"
proof -
  let ?cf = "copy_from_user U p (xfer_len n)"
  have ready: "wr_ready s" using w wr_waits [of s U p n] by auto
  have fits: "unat (xfer_len n) \<le> length (obj s)"
    using wr_overrun [OF ready, of n U p] w by (cases "unat (xfer_len n) \<le> length (obj s)") auto
  have s': "r = xfer_len n - fst ?cf" "obj s' = put_at 0 (snd ?cf) (obj s)" "rd_ready s'"
    using wr_moves [OF U(1) ready fits, of p] w by auto
  from s'(1) full have nc: "fst ?cf = 0" by simp
  have o: "obj s' = put_at 0 (user_bytes U p (unat (xfer_len n))) (obj s)"
    using s'(2) copy_from_user_data [OF U(1), of p "xfer_len n"] by (simp add: nc)
  have le: "unat (xfer_len m) \<le> unat (xfer_len n)" using m by (simp add: xfer_len_unat)
  have len: "unat (xfer_len m) \<le> length (obj s')" using le fits by (simp add: o length_put_at)
  have bytes: "take (unat (xfer_len m)) (obj s') = user_bytes U p (unat (xfer_len m))"
    using le by (simp add: o put_at_def take_user_bytes)
  have "\<exists>s''. rd U' q m s' = Ret (xfer_len m, user_bytes U p (unat (xfer_len m)), s'')"
    using rd_moves [OF U(2) s'(3) len, of q] full'
      copy_to_user_data [OF U(2), of q "user_bytes U p (unat (xfer_len m))"]
    by (auto simp: bytes)
  then show ?thesis by (simp only: xfer_len_unat)
qed

end

section \<open>Init and exit\<close>

text \<open>The error labels fall through: \<open>fail3\<close>/\<open>fail2\<close>, \<open>fail1\<close>, \<open>fail0\<close>.\<close>

definition fail0 :: "'a chr_scheme \<Rightarrow> klog \<Rightarrow> c_int \<times> 'a chr_scheme \<times> klog" where
  "fail0 s l = (- 1, s, l)"

definition fail1 :: "'a chr_scheme \<Rightarrow> klog \<Rightarrow> c_int \<times> 'a chr_scheme \<times> klog" where
  "fail1 s l = fail0 s (l @ [Chr (Unregister_chrdev_region (char_dev s) dev_count)])"

definition fail2 :: "'a chr_scheme \<Rightarrow> klog \<Rightarrow> c_int \<times> 'a chr_scheme \<times> klog" where
  "fail2 s l = fail1 s (l @ [Chr (Cdev_del (char_cdev s))])"

text \<open>
  From \<open>cdev_alloc\<close> to the end of init, the same in every example; \<open>setup\<close> stands for the
  statements an example adds after the buffer is allocated. The \<open>kmalloc\<close> call passes its
  arguments as the source does: \<open>GFP_KERNEL\<close> where the size belongs, \<open>buffer_len\<close> as flags.
\<close>

definition chr_init_rest ::
    "kernel \<Rightarrow> ('a chr_scheme \<Rightarrow> klog \<Rightarrow> c_int \<times> 'a chr_scheme \<times> klog) \<Rightarrow> 'a chr_scheme \<Rightarrow> klog \<Rightarrow>
      c_int \<times> 'a chr_scheme \<times> klog" where
  "chr_init_rest K setup s l =
     (let cd = cdev_alloc K l;
          s = s\<lparr>char_cdev := cd\<rparr>;
          l = l @ [Chr (Cdev_alloc cd)]
      in if cd = 0 then fail1 s l
         else let l = l @ [Chr (Cdev_init cd)];
                  ret = cdev_add K l cd (char_dev s) dev_count;
                  l = l @ [Chr (Cdev_add cd (char_dev s) dev_count ret)]
              in if sint ret < 0 then fail2 s l
                 else let (p, m) = kmalloc K l (ucast (GFP_KERNEL K)) buffer_len;
                          s = s\<lparr>buffer := p, bufmem := m\<rparr>;
                          l = l @ [Mem (Kmalloc (ucast (GFP_KERNEL K)) buffer_len p)]
                      in if p = 0 then fail2 s l else setup s l)"

definition chr_exit :: "'a chr_scheme \<Rightarrow> klog \<Rightarrow> 'a chr_scheme \<times> klog" where
  "chr_exit s l =
     (s\<lparr>buffer := 0, bufmem := []\<rparr>,
      l @ [Chr (Cdev_del (char_cdev s)), Chr (Unregister_chrdev_region (char_dev s) dev_count),
           Mem (Kfree (buffer s))])"

text \<open>What a loaded sample driver holds.\<close>

definition chr_owns :: "'a chr_scheme \<Rightarrow> resource multiset" where
  "chr_owns s = {#Chrdev_region (char_dev s) dev_count, Cdev_obj (char_cdev s)#} +
     (if buffer s = 0 then {#} else {#Kmem (buffer s)#})"

text \<open>
  A setup that always succeeds, keeps the globals of the shared part and acquires nothing:
  the \<open>sema_init\<close>, \<open>init_completion\<close> and \<open>init_waitqueue_head\<close> statements are such.
\<close>

definition plain_setup :: "('a chr_scheme \<Rightarrow> klog \<Rightarrow> c_int \<times> 'a chr_scheme \<times> klog) \<Rightarrow> bool" where
  "plain_setup setup \<longleftrightarrow> (\<forall>s l. case setup s l of (ret, s', l') \<Rightarrow>
     ret = 0 \<and> ledger l' = ledger l \<and> char_dev s' = char_dev s \<and> char_cdev s' = char_cdev s \<and>
     buffer s' = buffer s \<and> bufmem s' = bufmem s)"

text \<open>The buffer of a loaded driver is an object that \<open>kmalloc\<close> returned for \<open>GFP_KERNEL\<close> bytes.\<close>

definition buffer_from_kmalloc :: "kernel \<Rightarrow> 'a chr_scheme \<Rightarrow> bool" where
  "buffer_from_kmalloc K s \<longleftrightarrow>
     buffer s \<noteq> 0 \<and> (\<exists>l. kmalloc K l (ucast (GFP_KERNEL K)) buffer_len = (buffer s, bufmem s))"

lemma buffer_from_kmalloc_length:
  assumes "kernel_ok K" and "buffer_from_kmalloc K s"
  shows "length (bufmem s) = unat (GFP_KERNEL K)"
proof -
  obtain l where "buffer s \<noteq> 0"
    and l: "kmalloc K l (ucast (GFP_KERNEL K)) buffer_len = (buffer s, bufmem s)"
    using assms(2) by (auto simp: buffer_from_kmalloc_def)
  then show ?thesis
    using kmalloc_length [OF assms(1), of l "ucast (GFP_KERNEL K)" buffer_len]
    by (simp add: unat_ucast_32_64)
qed

lemma plain_setupD:
  assumes "plain_setup setup" and "setup s l = (ret, s', l')"
  shows "ret = 0 \<and> ledger l' = ledger l \<and> char_dev s' = char_dev s \<and> char_cdev s' = char_cdev s \<and>
     buffer s' = buffer s \<and> bufmem s' = bufmem s"
  using assms unfolding plain_setup_def by (metis (mono_tags, lifting) case_prod_conv)

lemma chr_init_rest_success:
  assumes "plain_setup setup" and "chr_init_rest K setup s l = (0, s', l')"
    and "ledger l = Some (R + {#Chrdev_region (char_dev s) dev_count#})"
  shows "ledger l' = Some (R + chr_owns s')" and "buffer_from_kmalloc K s'"
  using assms(2,3)
  by (auto simp: chr_init_rest_def fail0_def fail1_def fail2_def Let_def effect_simps
      buffer_from_kmalloc_def chr_owns_def
      split: if_splits prod.splits dest!: plain_setupD [OF assms(1)])

lemma chr_init_rest_failure:
  assumes "plain_setup setup" and "chr_init_rest K setup s l = (ret, s', l')" and "ret \<noteq> 0"
    and "ledger l = Some (R + {#Chrdev_region (char_dev s) dev_count#})"
  shows "ledger l' = Some R"
  using assms(2-)
  by (auto simp: chr_init_rest_def fail0_def fail1_def fail2_def Let_def effect_simps
      split: if_splits prod.splits dest: plain_setupD [OF assms(1)])

lemma chr_exit_ledger: "ledger l = Some (R + chr_owns s) \<Longrightarrow> ledger (snd (chr_exit s l)) = Some R"
  by (auto simp: chr_exit_def chr_owns_def effect_simps)

section \<open>ex3.c: static major and minor number\<close>

definition ex3_major :: c_int where "ex3_major = 255"
definition ex3_minor :: c_int where "ex3_minor = 0"

definition ex3_open :: "'a chr_scheme \<Rightarrow> c_int \<times> 'a chr_scheme" where
  "ex3_open s = (0, s)"

definition ex3_release :: "'a chr_scheme \<Rightarrow> c_int \<times> 'a chr_scheme" where
  "ex3_release s = (0, s)"

definition ex3_read ::
    "uaccess \<Rightarrow> ptr \<Rightarrow> size_t \<Rightarrow> 'a chr_scheme \<Rightarrow> (ssize_t \<times> byte list \<times> 'a chr_scheme) outcome" where
  "ex3_read U user_ptr cnt s =
     obind (xfer_read U user_ptr cnt (buffer s) (bufmem s)) (\<lambda>(ret, out). Ret (ret, out, s))"

definition ex3_write ::
    "uaccess \<Rightarrow> ptr \<Rightarrow> size_t \<Rightarrow> 'a chr_scheme \<Rightarrow> (ssize_t \<times> 'a chr_scheme) outcome" where
  "ex3_write U user_ptr cnt s =
     obind (xfer_write U user_ptr cnt (buffer s) (bufmem s)) (\<lambda>(ret, m). Ret (ret, s\<lparr>bufmem := m\<rparr>))"

text \<open>The region is requested before the shared part: \<open>char_dev=MKDEV(major,minor)\<close>.\<close>

definition static_init ::
    "('a chr_scheme \<Rightarrow> klog \<Rightarrow> c_int \<times> 'a chr_scheme \<times> klog) \<Rightarrow>
      kernel \<Rightarrow> 'a chr_scheme \<Rightarrow> klog \<Rightarrow> c_int \<times> 'a chr_scheme \<times> klog" where
  "static_init setup K s l =
     (let s = s\<lparr>char_dev := MKDEV K ex3_major ex3_minor\<rparr>;
          ret = register_chrdev_region K l (char_dev s) dev_count;
          l = l @ [Chr (Register_chrdev_region (char_dev s) dev_count ret)]
      in if sint ret < 0 then fail0 s l else chr_init_rest K setup s l)"

definition no_setup :: "'a chr_scheme \<Rightarrow> klog \<Rightarrow> c_int \<times> 'a chr_scheme \<times> klog" where
  "no_setup s l = (0, s, l)"

definition ex3_module_init :: "kernel \<Rightarrow> chr \<Rightarrow> klog \<Rightarrow> c_int \<times> chr \<times> klog" where
  "ex3_module_init = static_init no_setup"

definition ex3_module_exit :: "chr \<Rightarrow> klog \<Rightarrow> chr \<times> klog" where
  "ex3_module_exit = chr_exit"

section \<open>ex4.c: dynamic major and minor number\<close>

definition ex4_open :: "'a chr_scheme \<Rightarrow> c_int \<times> 'a chr_scheme" where
  "ex4_open s = (0, s)"

definition ex4_release :: "'a chr_scheme \<Rightarrow> c_int \<times> 'a chr_scheme" where
  "ex4_release s = (0, s)"

definition ex4_read ::
    "uaccess \<Rightarrow> ptr \<Rightarrow> size_t \<Rightarrow> 'a chr_scheme \<Rightarrow> (ssize_t \<times> byte list \<times> 'a chr_scheme) outcome" where
  "ex4_read U user_ptr cnt s =
     obind (xfer_read U user_ptr cnt (buffer s) (bufmem s)) (\<lambda>(ret, out). Ret (ret, out, s))"

definition ex4_write ::
    "uaccess \<Rightarrow> ptr \<Rightarrow> size_t \<Rightarrow> 'a chr_scheme \<Rightarrow> (ssize_t \<times> 'a chr_scheme) outcome" where
  "ex4_write U user_ptr cnt s =
     obind (xfer_write U user_ptr cnt (buffer s) (bufmem s)) (\<lambda>(ret, m). Ret (ret, s\<lparr>bufmem := m\<rparr>))"

definition dynamic_init ::
    "('a chr_scheme \<Rightarrow> klog \<Rightarrow> c_int \<times> 'a chr_scheme \<times> klog) \<Rightarrow>
      kernel \<Rightarrow> 'a chr_scheme \<Rightarrow> klog \<Rightarrow> c_int \<times> 'a chr_scheme \<times> klog" where
  "dynamic_init setup K s l =
     (let (ret, dev) = alloc_chrdev_region K l 0 dev_count;
          s = s\<lparr>char_dev := dev\<rparr>;
          l = l @ [Chr (Alloc_chrdev_region 0 dev_count ret dev)]
      in if sint ret < 0 then fail0 s l
         else chr_init_rest K
           (\<lambda>s l. setup (s\<lparr>major_num := MAJOR K (char_dev s), minor_num := MINOR K (char_dev s)\<rparr>) l) s l)"

definition ex4_module_init :: "kernel \<Rightarrow> chr \<Rightarrow> klog \<Rightarrow> c_int \<times> chr \<times> klog" where
  "ex4_module_init = dynamic_init no_setup"

definition ex4_module_exit :: "chr \<Rightarrow> klog \<Rightarrow> chr \<times> klog" where
  "ex4_module_exit = chr_exit"

section \<open>Loading and unloading\<close>

lemma plain_no_setup: "plain_setup no_setup"
  by (simp add: plain_setup_def no_setup_def)

lemma plain_numbers:
  "plain_setup setup \<Longrightarrow> plain_setup (\<lambda>s l. setup (s\<lparr>major_num := f s, minor_num := g s\<rparr>) l)"
  by (fastforce simp: plain_setup_def split: prod.splits)

lemma static_init_success:
  assumes "plain_setup setup" and "static_init setup K s l = (0, s', l')" and "ledger l = Some R"
  shows "ledger l' = Some (R + chr_owns s')" and "buffer_from_kmalloc K s'"
proof -
  let ?s = "s\<lparr>char_dev := MKDEV K ex3_major ex3_minor\<rparr>"
  let ?ret = "register_chrdev_region K l (char_dev ?s) dev_count"
  let ?l = "l @ [Chr (Register_chrdev_region (char_dev ?s) dev_count ?ret)]"
  have ok: "\<not> sint ?ret < 0" and rest: "chr_init_rest K setup ?s ?l = (0, s', l')"
    using assms(2) by (auto simp: static_init_def fail0_def Let_def split: if_splits)
  have led: "ledger ?l = Some (R + {#Chrdev_region (char_dev ?s) dev_count#})"
    using ok assms(3) by (simp add: effect_simps)
  show "ledger l' = Some (R + chr_owns s')" and "buffer_from_kmalloc K s'"
    by (rule chr_init_rest_success [OF assms(1) rest led])+
qed

lemma static_init_failure:
  assumes "plain_setup setup" and "static_init setup K s l = (ret, s', l')" and "ret \<noteq> 0"
    and "ledger l = Some R"
  shows "ledger l' = Some R"
  using assms(2-)
  by (auto simp: static_init_def fail0_def Let_def effect_simps split: if_splits
      dest: chr_init_rest_failure [OF assms(1), where R = R])

lemma dynamic_init_success:
  assumes "plain_setup setup" and "dynamic_init setup K s l = (0, s', l')" and "ledger l = Some R"
  shows "ledger l' = Some (R + chr_owns s')" and "buffer_from_kmalloc K s'"
  using assms(2,3)
  by (auto simp: dynamic_init_def fail0_def Let_def effect_simps split: if_splits prod.splits
      dest: chr_init_rest_success [OF plain_numbers [OF assms(1)], where R = R])

lemma dynamic_init_failure:
  assumes "plain_setup setup" and "dynamic_init setup K s l = (ret, s', l')" and "ret \<noteq> 0"
    and "ledger l = Some R"
  shows "ledger l' = Some R"
  using assms(2-)
  by (auto simp: dynamic_init_def fail0_def Let_def effect_simps split: if_splits prod.splits
      dest: chr_init_rest_failure [OF plain_numbers [OF assms(1)], where R = R])

interpretation ex3_mod: loadable_module ex3_module_init ex3_module_exit chr_owns
  by unfold_locales
    (auto simp: ex3_module_init_def ex3_module_exit_def
      intro: static_init_success(1) [OF plain_no_setup] static_init_failure [OF plain_no_setup]
        chr_exit_ledger)

interpretation ex4_mod: loadable_module ex4_module_init ex4_module_exit chr_owns
  by unfold_locales
    (auto simp: ex4_module_init_def ex4_module_exit_def
      intro: dynamic_init_success(1) [OF plain_no_setup] dynamic_init_failure [OF plain_no_setup]
        chr_exit_ledger)

section \<open>The two drivers are character devices\<close>

text \<open>
  The transfer bodies satisfy the contract of a device that never waits; the lock-taking
  examples inherit it through their own operations.
\<close>

lemma xfer_read_moves:
  assumes "unat (xfer_len n) \<le> length (if b = 0 then [] else m)"
  shows "xfer_read U p n b m =
    Ret (xfer_len n - fst (copy_to_user U p (take (unat (xfer_len n)) (if b = 0 then [] else m))),
         snd (copy_to_user U p (take (unat (xfer_len n)) (if b = 0 then [] else m))))"
  using assms
  by (cases "b = 0") (auto simp: xfer_read_def copy_out_def obj_check_def get_at_def Let_def split: prod.splits)

lemma xfer_write_moves:
  assumes "unat (xfer_len n) \<le> length (if b = 0 then [] else m)"
  shows "xfer_write U p n b m =
    Ret (xfer_len n - fst (copy_from_user U p (xfer_len n)),
         put_at 0 (snd (copy_from_user U p (xfer_len n))) m)"
  using assms
  by (cases "b = 0") (auto simp: xfer_write_def copy_in_def obj_check_def Let_def)

lemma xfer_overrun:
  assumes "length (if b = 0 then [] else m) < unat (xfer_len n)"
  shows "\<exists>f. xfer_read U p n b m = Fault f" and "\<exists>f. xfer_write U p n b m = Fault f"
  using assms
  by (auto simp: xfer_read_def xfer_write_def copy_out_def copy_in_def obj_check_def Let_def
      split: if_splits)

lemma chr_obj_write:
  assumes "uaccess_ok U" and "unat (xfer_len n) \<le> length (chr_obj s)"
  shows "chr_obj (s\<lparr>bufmem := put_at 0 (snd (copy_from_user U p (xfer_len n))) (bufmem s)\<rparr>) =
    put_at 0 (snd (copy_from_user U p (xfer_len n))) (chr_obj s)"
  using assms length_copy_from_user [OF assms(1), of p "xfer_len n"]
  by (auto simp: chr_obj_def)

lemmas xfer_contract = xfer_read_moves xfer_write_moves chr_obj_write chr_obj_def [symmetric]

interpretation ex3_dev: char_device ex3_read ex3_write "chr_obj :: 'a chr_scheme \<Rightarrow> byte list"
    "\<lambda>_. True" "\<lambda>_. True"
proof (unfold_locales, goal_cases)
  case (1 U s n p)
  then show ?case by (simp add: ex3_read_def xfer_contract)
next
  case (2 U s n p)
  then show ?case by (simp add: ex3_write_def xfer_contract)
next
  case (5 s n U p)
  then show ?case using xfer_overrun(1) [of "buffer s" "bufmem s" n U p]
    by (auto simp: ex3_read_def chr_obj_def)
next
  case (6 s n U p)
  then show ?case using xfer_overrun(2) [of "buffer s" "bufmem s" n U p]
    by (auto simp: ex3_write_def chr_obj_def)
qed simp_all

lemma ex4_ops: "ex4_read = ex3_read" "ex4_write = ex3_write"
  by (simp_all add: fun_eq_iff ex3_read_def ex4_read_def ex3_write_def ex4_write_def)

interpretation ex4_dev: char_device ex4_read ex4_write "chr_obj :: 'a chr_scheme \<Rightarrow> byte list"
    "\<lambda>_. True" "\<lambda>_. True"
  unfolding ex4_ops by (rule ex3_dev.char_device_axioms)

lemma chr_obj_after_init:
  assumes "kernel_ok K" and "buffer_from_kmalloc K s"
  shows "length (chr_obj s) = unat (GFP_KERNEL K)"
  using assms buffer_from_kmalloc_length [OF assms] by (simp add: chr_obj_def buffer_from_kmalloc_def)

lemma ex4_init_buffer:
  assumes "kernel_ok K" and "ex4_module_init K chr_image [] = (0, s, l)"
  shows "length (chr_obj s) = unat (GFP_KERNEL K)"
proof -
  have "dynamic_init no_setup K chr_image [] = (0, s, l)"
    using assms(2) by (simp add: ex4_module_init_def)
  from dynamic_init_success(2) [OF plain_no_setup this ledger_Nil]
  show ?thesis by (rule chr_obj_after_init [OF assms(1)])
qed

lemma dynamic_init_log:
  assumes "dynamic_init setup K s l = (0, s', l')" and "\<And>s l. \<exists>m. snd (snd (setup s l)) = l @ m"
  shows "\<exists>dev cd ret1 ret2 p m. l' = l @ [Chr (Alloc_chrdev_region 0 dev_count ret1 dev),
      Chr (Cdev_alloc cd), Chr (Cdev_init cd), Chr (Cdev_add cd dev dev_count ret2),
      Mem (Kmalloc (ucast (GFP_KERNEL K)) buffer_len p)] @ m"
proof -
  have e: "\<exists>m. l' = l0 @ m" if "setup s0 l0 = (r0, s', l')" for s0 l0 r0
    using assms(2) [of s0 l0] that by simp
  show ?thesis
    using assms(1)
    by (auto simp: dynamic_init_def chr_init_rest_def fail0_def fail1_def fail2_def Let_def
        split: if_splits prod.splits dest!: e)
qed

section \<open>Properties\<close>

text \<open>A concrete loaded driver, for the witnesses.\<close>

definition ex4_loaded :: chr where
  "ex4_loaded = fst (snd (ex4_module_init good_kernel chr_image []))"

definition ex4_loaded_log :: klog where
  "ex4_loaded_log = snd (snd (ex4_module_init good_kernel chr_image []))"

lemmas init_defs = static_init_def dynamic_init_def chr_init_rest_def good_kernel_def chr_image_def
  no_setup_def fail0_def fail1_def fail2_def Let_def

lemma ex4_loads: "ex4_module_init good_kernel chr_image [] = (0, ex4_loaded, ex4_loaded_log)"
proof -
  have "fst (ex4_module_init good_kernel chr_image []) = 0"
    by (simp add: ex4_module_init_def init_defs)
  then show ?thesis by (simp add: ex4_loaded_def ex4_loaded_log_def prod_eq_iff)
qed

lemma good_GFP: "GFP_KERNEL good_kernel = 208"
  by (simp add: good_kernel_def)

abbreviation sevens :: uaccess where "sevens \<equiv> mapped_uaccess (\<lambda>_. 7)"

lemma sevens_copies [simp]:
  "fst (copy_from_user sevens p n) = 0" "fst (copy_to_user sevens p bs) = 0"
  "user_bytes sevens p k = replicate k 7"
  by (simp_all add: mapped_uaccess_def user_bytes_def map_replicate_const)

text \<open>After a successful load of \<open>ex4\<close>, a write of \<open>n\<close> bytes that fits both the buffer
  object and the 4000-byte limit and copies completely returns \<open>n\<close>, and the next read of
  \<open>m \<le> n\<close> bytes returns \<open>m\<close> and hands the user the first \<open>m\<close> bytes that were written.\<close>

lemma ex4_write_read:
  assumes "kernel_ok K" and "ex4_module_init K chr_image [] = (0, s, l)"
    and "uaccess_ok U" and "uaccess_ok U'"
    and "unat n \<le> 4000" and "unat n \<le> unat (GFP_KERNEL K)" and "unat m \<le> unat n"
    and "fst (copy_from_user U p n) = 0"
    and "fst (copy_to_user U' q (user_bytes U p (unat m))) = 0"
  shows "\<exists>s' s''. ex4_write U p n s = Ret (n, s') \<and>
           ex4_read U' q m s' = Ret (m, user_bytes U p (unat m), s'')"
proof -
  have n: "xfer_len n = n" and m: "xfer_len m = m"
    using assms(5,7) by (auto simp: xfer_len_def word_less_nat_alt)
  obtain s' where w: "ex4_write U p n s = Ret (n, s')"
    using ex4_dev.wr_moves [OF assms(3), where s = s and p = p and n = n] ex4_init_buffer [OF assms(1,2)] assms(6,8) n by auto
  have "\<exists>s''. ex4_read U' q m s' = Ret (xfer_len m, user_bytes U p (min 4000 (unat m)), s'')"
    by (rule ex4_dev.wr_then_rd [OF assms(3,4) w]) (use assms n m in auto)
  then show ?thesis using w m assms(5,7) by auto
qed

lemma ex4_write_read_witness:
  "\<exists>s' s''. ex4_write sevens 100 3 ex4_loaded = Ret (3, s') \<and> ex4_read sevens 200 2 s' = Ret (2, replicate 2 7, s'')"
  using ex4_write_read [OF good_kernel_ok ex4_loads mapped_uaccess_ok mapped_uaccess_ok,
      of 3 2 "\<lambda>_. 7" 100 "\<lambda>_. 7" 200]
  by (simp add: good_GFP)

text \<open>The swapped arguments of \<open>kmalloc(GFP_KERNEL, buffer_len)\<close> make the buffer
  \<open>GFP_KERNEL\<close> bytes long: after a successful load of \<open>ex4\<close> a write runs past the object
  exactly when \<open>min(count, 4000)\<close> exceeds that number, and so does a read.\<close>

lemma ex4_overruns_iff:
  assumes "kernel_ok K" and "ex4_module_init K chr_image [] = (0, s, l)" and "uaccess_ok U"
  shows "((\<exists>f. ex4_write U p n s = Fault f) \<longleftrightarrow> unat (GFP_KERNEL K) < min 4000 (unat n)) \<and>
         ((\<exists>f. ex4_read U p n s = Fault f) \<longleftrightarrow> unat (GFP_KERNEL K) < min 4000 (unat n))"
  using ex4_dev.wr_fault_iff [OF assms(3), where s = s and p = p and n = n] ex4_dev.rd_fault_iff [OF assms(3), where s = s and p = p and n = n]
  by (simp add: ex4_init_buffer [OF assms(1,2)])

lemma ex4_overruns_iff_witness:
  "(\<exists>f. ex4_write sevens 100 300 ex4_loaded = Fault f) \<and> (\<exists>f. ex4_read sevens 100 300 ex4_loaded = Fault f)"
  using ex4_overruns_iff [OF good_kernel_ok ex4_loads mapped_uaccess_ok, of "\<lambda>_. 7" 100 300]
  by (simp add: good_GFP)

text \<open>Whatever \<open>copy_from_user\<close> does, a write of \<open>ex4\<close> that returns reports at most
  \<open>min(count, 4000)\<close> bytes and leaves the bytes past that offset as they were.\<close>

lemma ex4_write_bounds:
  assumes "uaccess_ok U" and "ex4_write U p n s = Ret (r, s')"
  shows "unat r \<le> min 4000 (unat n) \<and> drop (min 4000 (unat n)) (chr_obj s') = drop (min 4000 (unat n)) (chr_obj s) \<and>
         length (chr_obj s') = length (chr_obj s)"
proof -
  have fits: "unat (xfer_len n) \<le> length (chr_obj s)"
    using ex4_dev.wr_fault_iff [OF assms(1), where s = s and p = p and n = n] assms(2) by (auto simp: xfer_len_unat)
  have "chr_obj s' = put_at 0 (snd (copy_from_user U p (xfer_len n))) (chr_obj s)"
    using ex4_dev.wr_moves [OF assms(1) _ fits, where p = p] assms(2) by auto
  moreover have "length (snd (copy_from_user U p (xfer_len n))) = min 4000 (unat n)"
    by (simp add: length_copy_from_user [OF assms(1)] xfer_len_unat)
  ultimately show ?thesis
    using ex4_dev.wr_returns_le [OF assms] fits by (simp add: put_at_def xfer_len_unat)
qed

lemma ex4_write_bounds_witness:
  "\<exists>s'. ex4_write sevens 100 3 ex4_loaded = Ret (3, s') \<and> length (chr_obj s') = length (chr_obj ex4_loaded)"
proof -
  have "unat (xfer_len 3) \<le> length (chr_obj ex4_loaded)"
    by (simp add: xfer_len_unat ex4_init_buffer [OF good_kernel_ok ex4_loads] good_GFP)
  from ex4_dev.wr_moves [OF mapped_uaccess_ok [of "\<lambda>_. 7"] TrueI this, where p = 100]
  obtain s' where w: "ex4_write sevens 100 3 ex4_loaded = Ret (3, s')"
    by (auto simp: xfer_len_def)
  with ex4_write_bounds [OF mapped_uaccess_ok w] show ?thesis by blast
qed

text \<open>\<open>cdev_add\<close> makes the device live before its buffer exists: in the log of every
  successful load of \<open>ex4\<close> it precedes the \<open>kmalloc\<close>, and a non-empty read or write that
  arrives in between dereferences the null buffer.\<close>

lemma ex4_live_before_buffer:
  assumes "ex4_module_init K chr_image [] = (0, s, l)" and "n \<noteq> 0"
  shows "(\<exists>before cd dev ret after p. l = before @ [Chr (Cdev_add cd dev dev_count ret)] @ after \<and>
            Mem (Kmalloc (ucast (GFP_KERNEL K)) buffer_len p) \<in> set after) \<and>
         ex4_read U up n (s\<lparr>buffer := buffer chr_image, bufmem := bufmem chr_image\<rparr>) = Fault NullDeref \<and>
         ex4_write U up n (s\<lparr>buffer := buffer chr_image, bufmem := bufmem chr_image\<rparr>) = Fault NullDeref"
proof (intro conjI)
  have "dynamic_init no_setup K chr_image [] = (0, s, l)"
    using assms(1) by (simp add: ex4_module_init_def)
  from dynamic_init_log [OF this] obtain dev cd ret1 ret2 p m where
    "l = [Chr (Alloc_chrdev_region 0 dev_count ret1 dev), Chr (Cdev_alloc cd), Chr (Cdev_init cd)] @
      [Chr (Cdev_add cd dev dev_count ret2)] @ Mem (Kmalloc (ucast (GFP_KERNEL K)) buffer_len p) # m"
    by (auto simp: no_setup_def)
  then show "\<exists>before cd dev ret after p. l = before @ [Chr (Cdev_add cd dev dev_count ret)] @ after \<and>
            Mem (Kmalloc (ucast (GFP_KERNEL K)) buffer_len p) \<in> set after"
    by (metis list.set_intros(1))
  have "unat (xfer_len n) \<noteq> 0"
    using assms(2) by (simp add: xfer_len_unat unat_gt_0)
  then show "ex4_read U up n (s\<lparr>buffer := buffer chr_image, bufmem := bufmem chr_image\<rparr>) = Fault NullDeref"
    and "ex4_write U up n (s\<lparr>buffer := buffer chr_image, bufmem := bufmem chr_image\<rparr>) = Fault NullDeref"
    by (auto simp: ex4_read_def ex4_write_def xfer_read_def xfer_write_def copy_out_def copy_in_def
        obj_check_def chr_image_def Let_def)
qed

lemma ex4_live_before_buffer_witness:
  "ex4_read sevens 100 5 (ex4_loaded\<lparr>buffer := buffer chr_image, bufmem := bufmem chr_image\<rparr>) = Fault NullDeref"
  using ex4_live_before_buffer [OF ex4_loads, of 5] by simp

end
