(* ===== verification/Char_Locks.thy ===== *)
theory Char_Locks
  imports Char_Driver
begin

text \<open>
  The sample driver under a lock, one call at a time: \<open>day_03/ex7.c\<close> (semaphore),
  \<open>day_03/ex8.c\<close> (spinlock), \<open>day_03/ex9.c\<close> (completion) and \<open>day_04/ex10.c\<close> (seqlock for
  readers, semaphore for writers). Each is a character device of the contract of
  \<open>Char_Driver\<close> whose calls wait where the lock says so. Interleaved calls are in
  \<open>Lock_Concurrency\<close>.
\<close>

section \<open>State\<close>

record 'l chr_sem = chr +
  sem :: 'l

text \<open>\<open>down(&sem); ...copy...; up(&sem);\<close> around the transfer of the plain driver.\<close>

definition locked_read ::
    "'l lockops \<Rightarrow> uaccess \<Rightarrow> ptr \<Rightarrow> size_t \<Rightarrow> ('l, 'a) chr_sem_scheme \<Rightarrow>
      (ssize_t \<times> byte list \<times> ('l, 'a) chr_sem_scheme) outcome" where
  "locked_read L U user_ptr cnt s =
     (case lk_acquire L (sem s) of
        None \<Rightarrow> Block
      | Some x \<Rightarrow>
          (let s = s\<lparr>sem := x\<rparr>
           in obind (xfer_read U user_ptr cnt (buffer s) (bufmem s))
                (\<lambda>(ret, out). let s = s\<lparr>sem := lk_release L (sem s)\<rparr> in Ret (ret, out, s))))"

definition locked_write ::
    "'l lockops \<Rightarrow> uaccess \<Rightarrow> ptr \<Rightarrow> size_t \<Rightarrow> ('l, 'a) chr_sem_scheme \<Rightarrow>
      (ssize_t \<times> ('l, 'a) chr_sem_scheme) outcome" where
  "locked_write L U user_ptr cnt s =
     (case lk_acquire L (sem s) of
        None \<Rightarrow> Block
      | Some x \<Rightarrow>
          (let s = s\<lparr>sem := x\<rparr>
           in obind (xfer_write U user_ptr cnt (buffer s) (bufmem s))
                (\<lambda>(ret, m). let s = s\<lparr>bufmem := m\<rparr>; s = s\<lparr>sem := lk_release L (sem s)\<rparr> in Ret (ret, s))))"

section \<open>ex7.c: semaphore\<close>

definition ex7_open :: "('l, 'a) chr_sem_scheme \<Rightarrow> c_int \<times> ('l, 'a) chr_sem_scheme" where
  "ex7_open s = (0, s)"

definition ex7_release :: "('l, 'a) chr_sem_scheme \<Rightarrow> c_int \<times> ('l, 'a) chr_sem_scheme" where
  "ex7_release s = (0, s)"

definition ex7_read ::
    "'l lockops \<Rightarrow> uaccess \<Rightarrow> ptr \<Rightarrow> size_t \<Rightarrow> ('l, 'a) chr_sem_scheme \<Rightarrow>
      (ssize_t \<times> byte list \<times> ('l, 'a) chr_sem_scheme) outcome" where
  "ex7_read = locked_read"

definition ex7_write ::
    "'l lockops \<Rightarrow> uaccess \<Rightarrow> ptr \<Rightarrow> size_t \<Rightarrow> ('l, 'a) chr_sem_scheme \<Rightarrow>
      (ssize_t \<times> ('l, 'a) chr_sem_scheme) outcome" where
  "ex7_write = locked_write"

text \<open>The statement \<open>sema_init(&sem,1)\<close> that init adds.\<close>

definition sem_setup :: "'l lockops \<Rightarrow> ('l, 'a) chr_sem_scheme \<Rightarrow> klog \<Rightarrow> c_int \<times> ('l, 'a) chr_sem_scheme \<times> klog" where
  "sem_setup L s l = (0, s\<lparr>sem := lk_init L\<rparr>, l @ [Sync (Sema_init 1)])"

definition ex7_module_init :: "'l lockops \<Rightarrow> kernel \<Rightarrow> 'l chr_sem \<Rightarrow> klog \<Rightarrow> c_int \<times> 'l chr_sem \<times> klog" where
  "ex7_module_init L = dynamic_init (sem_setup L)"

definition ex7_module_exit :: "'l chr_sem \<Rightarrow> klog \<Rightarrow> 'l chr_sem \<times> klog" where
  "ex7_module_exit = chr_exit"

section \<open>ex8.c: spinlock\<close>

text \<open>
  \<open>spin_key\<close> is the lock field; \<open>DEFINE_SPINLOCK\<close> initialises it statically, so init adds
  no statement.
\<close>

definition ex8_open :: "('l, 'a) chr_sem_scheme \<Rightarrow> c_int \<times> ('l, 'a) chr_sem_scheme" where
  "ex8_open s = (0, s)"

definition ex8_release :: "('l, 'a) chr_sem_scheme \<Rightarrow> c_int \<times> ('l, 'a) chr_sem_scheme" where
  "ex8_release s = (0, s)"

definition ex8_read ::
    "'l lockops \<Rightarrow> uaccess \<Rightarrow> ptr \<Rightarrow> size_t \<Rightarrow> ('l, 'a) chr_sem_scheme \<Rightarrow>
      (ssize_t \<times> byte list \<times> ('l, 'a) chr_sem_scheme) outcome" where
  "ex8_read = locked_read"

definition ex8_write ::
    "'l lockops \<Rightarrow> uaccess \<Rightarrow> ptr \<Rightarrow> size_t \<Rightarrow> ('l, 'a) chr_sem_scheme \<Rightarrow>
      (ssize_t \<times> ('l, 'a) chr_sem_scheme) outcome" where
  "ex8_write = locked_write"

definition ex8_module_init :: "kernel \<Rightarrow> 'l chr_sem \<Rightarrow> klog \<Rightarrow> c_int \<times> 'l chr_sem \<times> klog" where
  "ex8_module_init = dynamic_init no_setup"

definition ex8_module_exit :: "'l chr_sem \<Rightarrow> klog \<Rightarrow> 'l chr_sem \<times> klog" where
  "ex8_module_exit = chr_exit"

text \<open>The image of the lock-taking modules; for \<open>ex8\<close> it holds the initialised lock.\<close>

definition sem_image :: "'l \<Rightarrow> 'l chr_sem" where
  "sem_image x = chr.extend chr_image \<lparr>sem = x\<rparr>"

section \<open>ex9.c: completion\<close>

record 'c chr_compl = chr +
  setup_done :: 'c

definition ex9_open :: "('c, 'a) chr_compl_scheme \<Rightarrow> c_int \<times> ('c, 'a) chr_compl_scheme" where
  "ex9_open s = (0, s)"

definition ex9_release :: "('c, 'a) chr_compl_scheme \<Rightarrow> c_int \<times> ('c, 'a) chr_compl_scheme" where
  "ex9_release s = (0, s)"

definition ex9_read ::
    "'c complops \<Rightarrow> uaccess \<Rightarrow> ptr \<Rightarrow> size_t \<Rightarrow> ('c, 'a) chr_compl_scheme \<Rightarrow>
      (ssize_t \<times> byte list \<times> ('c, 'a) chr_compl_scheme) outcome" where
  "ex9_read C U user_ptr cnt s =
     (case cp_wait C (setup_done s) of
        None \<Rightarrow> Block
      | Some x \<Rightarrow>
          (let s = s\<lparr>setup_done := x\<rparr>
           in obind (xfer_read U user_ptr cnt (buffer s) (bufmem s)) (\<lambda>(ret, out). Ret (ret, out, s))))"

definition ex9_write ::
    "'c complops \<Rightarrow> uaccess \<Rightarrow> ptr \<Rightarrow> size_t \<Rightarrow> ('c, 'a) chr_compl_scheme \<Rightarrow>
      (ssize_t \<times> ('c, 'a) chr_compl_scheme) outcome" where
  "ex9_write C U user_ptr cnt s =
     obind (xfer_write U user_ptr cnt (buffer s) (bufmem s))
       (\<lambda>(ret, m). Ret (ret, s\<lparr>bufmem := m, setup_done := cp_complete C (setup_done s)\<rparr>))"

definition compl_setup ::
    "'c complops \<Rightarrow> ('c, 'a) chr_compl_scheme \<Rightarrow> klog \<Rightarrow> c_int \<times> ('c, 'a) chr_compl_scheme \<times> klog" where
  "compl_setup C s l = (0, s\<lparr>setup_done := cp_init C\<rparr>, l @ [Sync Init_completion])"

definition ex9_module_init :: "'c complops \<Rightarrow> kernel \<Rightarrow> 'c chr_compl \<Rightarrow> klog \<Rightarrow> c_int \<times> 'c chr_compl \<times> klog" where
  "ex9_module_init C = dynamic_init (compl_setup C)"

definition ex9_module_exit :: "'c chr_compl \<Rightarrow> klog \<Rightarrow> 'c chr_compl \<times> klog" where
  "ex9_module_exit = chr_exit"

section \<open>ex10.c: seqlock\<close>

record ('l, 'q) chr_seq = "'l chr_sem" +
  the_lock :: 'q

definition ex10_open :: "('l, 'q, 'a) chr_seq_scheme \<Rightarrow> c_int \<times> ('l, 'q, 'a) chr_seq_scheme" where
  "ex10_open s = (0, s)"

definition ex10_release :: "('l, 'q, 'a) chr_seq_scheme \<Rightarrow> c_int \<times> ('l, 'q, 'a) chr_seq_scheme" where
  "ex10_release s = (0, s)"

text \<open>The \<open>do ... while(read_seqretry(&the_lock, seq))\<close> loop, with fuel.\<close>

fun ex10_read_loop ::
    "nat \<Rightarrow> 'q seqops \<Rightarrow> uaccess \<Rightarrow> ptr \<Rightarrow> size_t \<Rightarrow> ('l, 'q, 'a) chr_seq_scheme \<Rightarrow>
      (ssize_t \<times> byte list \<times> ('l, 'q, 'a) chr_seq_scheme) outcome" where
  "ex10_read_loop 0 Q U user_ptr cnt s = Block"
| "ex10_read_loop (Suc fuel) Q U user_ptr cnt s =
     (let seq = sq_begin Q (the_lock s)
      in obind (xfer_read U user_ptr cnt (buffer s) (bufmem s))
           (\<lambda>(ret, out). if sq_retry Q (the_lock s) seq then ex10_read_loop fuel Q U user_ptr cnt s
                         else Ret (ret, out, s)))"

text \<open>One turn of the loop is enough when no writer runs (\<open>ex10_read_loop_once\<close> below).\<close>

definition ex10_read ::
    "'q seqops \<Rightarrow> uaccess \<Rightarrow> ptr \<Rightarrow> size_t \<Rightarrow> ('l, 'q, 'a) chr_seq_scheme \<Rightarrow>
      (ssize_t \<times> byte list \<times> ('l, 'q, 'a) chr_seq_scheme) outcome" where
  "ex10_read = ex10_read_loop 1"

definition ex10_write ::
    "'l lockops \<Rightarrow> uaccess \<Rightarrow> ptr \<Rightarrow> size_t \<Rightarrow> ('l, 'q, 'a) chr_seq_scheme \<Rightarrow>
      (ssize_t \<times> ('l, 'q, 'a) chr_seq_scheme) outcome" where
  "ex10_write = locked_write"

definition seq_setup ::
    "'l lockops \<Rightarrow> 'q seqops \<Rightarrow> ('l, 'q) chr_seq \<Rightarrow> klog \<Rightarrow> c_int \<times> ('l, 'q) chr_seq \<times> klog" where
  "seq_setup L Q s l =
     (0, s\<lparr>sem := lk_init L, the_lock := sq_init Q\<rparr>, l @ [Sync (Sema_init 1), Sync Seqlock_init])"

definition ex10_module_init ::
    "'l lockops \<Rightarrow> 'q seqops \<Rightarrow> kernel \<Rightarrow> ('l, 'q) chr_seq \<Rightarrow> klog \<Rightarrow> c_int \<times> ('l, 'q) chr_seq \<times> klog" where
  "ex10_module_init L Q = dynamic_init (seq_setup L Q)"

definition ex10_module_exit :: "('l, 'q) chr_seq \<Rightarrow> klog \<Rightarrow> ('l, 'q) chr_seq \<times> klog" where
  "ex10_module_exit = chr_exit"

section \<open>Loading and unloading\<close>

lemma plain_sem_setup: "plain_setup (sem_setup L)"
  by (simp add: plain_setup_def sem_setup_def)

lemma plain_compl_setup: "plain_setup (compl_setup C)"
  by (simp add: plain_setup_def compl_setup_def)

lemma plain_seq_setup: "plain_setup (seq_setup L Q)"
  by (simp add: plain_setup_def seq_setup_def)

lemma dynamic_module:
  assumes "plain_setup setup"
  shows "loadable_module (dynamic_init setup) chr_exit chr_owns"
  by unfold_locales
    (auto intro: dynamic_init_success(1) [OF assms] dynamic_init_failure [OF assms] chr_exit_ledger)

interpretation ex7_mod: loadable_module "ex7_module_init L" ex7_module_exit chr_owns for L :: "'l lockops"
  unfolding ex7_module_init_def ex7_module_exit_def by (rule dynamic_module [OF plain_sem_setup])

interpretation ex8_mod: loadable_module ex8_module_init ex8_module_exit "chr_owns :: 'l chr_sem \<Rightarrow> _"
  unfolding ex8_module_init_def ex8_module_exit_def by (rule dynamic_module [OF plain_no_setup])

interpretation ex9_mod: loadable_module "ex9_module_init C" ex9_module_exit chr_owns for C :: "'c complops"
  unfolding ex9_module_init_def ex9_module_exit_def by (rule dynamic_module [OF plain_compl_setup])

interpretation ex10_mod: loadable_module "ex10_module_init L Q" ex10_module_exit chr_owns
    for L :: "'l lockops" and Q :: "'q seqops"
  unfolding ex10_module_init_def ex10_module_exit_def by (rule dynamic_module [OF plain_seq_setup])

section \<open>The lock-taking drivers are character devices\<close>

lemma chr_obj_sem [simp]:
  "chr_obj (s\<lparr>sem := x\<rparr>) = chr_obj s" "chr_obj (s'\<lparr>setup_done := y\<rparr>) = chr_obj s'"
  by (simp_all add: chr_obj_def)

lemma xfer_obj:
  "unat (xfer_len n) \<le> length (chr_obj s) \<Longrightarrow> xfer_read U p n (buffer s) (bufmem s) =
    Ret (xfer_len n - fst (copy_to_user U p (take (unat (xfer_len n)) (chr_obj s))),
         snd (copy_to_user U p (take (unat (xfer_len n)) (chr_obj s))))"
  "unat (xfer_len n) \<le> length (chr_obj s) \<Longrightarrow> xfer_write U p n (buffer s) (bufmem s) =
    Ret (xfer_len n - fst (copy_from_user U p (xfer_len n)),
         put_at 0 (snd (copy_from_user U p (xfer_len n))) (bufmem s))"
  "length (chr_obj s) < unat (xfer_len n) \<Longrightarrow> \<exists>f. xfer_read U p n (buffer s) (bufmem s) = Fault f"
  "length (chr_obj s) < unat (xfer_len n) \<Longrightarrow> \<exists>f. xfer_write U p n (buffer s) (bufmem s) = Fault f"
  unfolding chr_obj_def by (fact xfer_read_moves xfer_write_moves xfer_overrun)+

lemmas locked_defs = locked_read_def locked_write_def Let_def

context kernel_lock
begin

lemma locked_device:
  "char_device (locked_read L) (locked_write L) (chr_obj :: ('l, 'a) chr_sem_scheme \<Rightarrow> byte list)
     (\<lambda>s. lk_free L (sem s)) (\<lambda>s. lk_free L (sem s))"
proof (unfold_locales, goal_cases)
  case (1 U s n p)
  then show ?case by (auto simp: locked_defs xfer_obj dest!: free_acquire)
next
  case (2 U s n p)
  then show ?case
    by (auto simp: locked_defs xfer_obj chr_obj_write release_free dest!: free_acquire)
next
  case (5 s n U p)
  then show ?case using xfer_obj(3) [of s n U p] by (auto simp: locked_defs dest!: free_acquire)
next
  case (6 s n U p)
  then show ?case using xfer_obj(4) [of s n U p] by (auto simp: locked_defs dest!: free_acquire)
qed (auto simp: locked_defs lk_free_def)

end

sublocale kernel_lock \<subseteq> ex7_dev: char_device "ex7_read L" "ex7_write L" "chr_obj :: 'l chr_sem \<Rightarrow> byte list"
    "\<lambda>s. lk_free L (sem s)" "\<lambda>s. lk_free L (sem s)"
  unfolding ex7_read_def ex7_write_def by (rule locked_device)

sublocale kernel_lock \<subseteq> ex8_dev: char_device "ex8_read L" "ex8_write L" "chr_obj :: 'l chr_sem \<Rightarrow> byte list"
    "\<lambda>s. lk_free L (sem s)" "\<lambda>s. lk_free L (sem s)"
  unfolding ex8_read_def ex8_write_def by (rule locked_device)

lemma completion_waits:
  "completion_laws C \<Longrightarrow> cp_done C x \<noteq> 0 \<Longrightarrow> \<exists>y. cp_wait C x = Some y \<and> cp_done C x = Suc (cp_done C y)"
  by (cases "cp_wait C x") (auto simp: completion_laws_def)

lemma ex9_device:
  assumes C: "completion_laws C"
  shows "char_device (ex9_read C) (ex9_write C) (chr_obj :: 'c chr_compl \<Rightarrow> byte list)
    (\<lambda>s. cp_done C (setup_done s) \<noteq> 0) (\<lambda>_. True)"
proof (unfold_locales, goal_cases)
  case (1 U s n p)
  then obtain x where "cp_wait C (setup_done s) = Some x"
    using completion_waits [OF C] by blast
  with 1 show ?case by (simp add: ex9_read_def xfer_obj)
next
  case (2 U s n p)
  then show ?case
    using C chr_obj_write [OF 2(1,3), of p]
    by (auto simp: ex9_write_def xfer_obj completion_laws_def chr_obj_def)
next
  case (3 s U p n)
  then show ?case using C by (auto simp: ex9_read_def completion_laws_def split: option.splits)
next
  case (5 s n U p)
  then obtain x where "cp_wait C (setup_done s) = Some x"
    using completion_waits [OF C] by blast
  then show ?case using xfer_obj(3) [OF 5(2), of U p] by (auto simp: ex9_read_def)
next
  case (6 s n U p)
  then show ?case using xfer_obj(4) [OF 6(2), of U p] by (auto simp: ex9_write_def)
qed simp_all

interpretation ex9_dev: char_device "ex9_read counting_completion" "ex9_write counting_completion"
    "chr_obj :: nat chr_compl \<Rightarrow> byte list"
    "\<lambda>s. cp_done counting_completion (setup_done s) \<noteq> 0" "\<lambda>_. True"
  by (rule ex9_device [OF counting_completion_laws])

lemma ex10_read_loop_once:
  "seqlock_laws Q \<Longrightarrow> ex10_read_loop (Suc fuel) Q U p n s =
     obind (xfer_read U p n (buffer s) (bufmem s)) (\<lambda>(ret, out). Ret (ret, out, s))"
  by (simp add: seqlock_laws_def Let_def)

section \<open>A sequence of calls on ex9\<close>

text \<open>
  A list of calls in the order in which they are made, a waiting read staying without
  effect. The run counts the reads and the writes that returned; a fault ends it.
\<close>

datatype call = Rd uaccess ptr size_t | Wr uaccess ptr size_t

fun ex9_run :: "'c complops \<Rightarrow> call list \<Rightarrow> 'c chr_compl \<Rightarrow> nat \<times> nat \<times> 'c chr_compl" where
  "ex9_run C [] s = (0, 0, s)"
| "ex9_run C (Rd U p n # cs) s =
     (case ex9_read C U p n s of
        Ret (ret, out, s') \<Rightarrow> (case ex9_run C cs s' of (r, w, t) \<Rightarrow> (Suc r, w, t))
      | Block \<Rightarrow> ex9_run C cs s
      | Fault f \<Rightarrow> (0, 0, s))"
| "ex9_run C (Wr U p n # cs) s =
     (case ex9_write C U p n s of
        Ret (ret, s') \<Rightarrow> (case ex9_run C cs s' of (r, w, t) \<Rightarrow> (r, Suc w, t))
      | Block \<Rightarrow> ex9_run C cs s
      | Fault f \<Rightarrow> (0, 0, s))"

lemma ex9_read_consumes:
  assumes "completion_laws C" and "ex9_read C U p n s = Ret (ret, out, s')"
  shows "cp_done C (setup_done s) = Suc (cp_done C (setup_done s'))"
  using assms by (auto simp: ex9_read_def completion_laws_def obind_Ret_iff split: option.splits)

lemma ex9_write_signals:
  assumes "completion_laws C" and "ex9_write C U p n s = Ret (ret, s')"
  shows "cp_done C (setup_done s') = Suc (cp_done C (setup_done s))"
  using assms by (auto simp: ex9_write_def completion_laws_def obind_Ret_iff)

lemma ex9_run_counts:
  assumes "completion_laws C" and "ex9_run C cs s = (r, w, t)"
  shows "r + cp_done C (setup_done t) = cp_done C (setup_done s) + w"
  using assms
  by (induction C cs s arbitrary: r w t rule: ex9_run.induct)
    (auto split: outcome.splits prod.splits
      dest!: ex9_read_consumes [rotated] ex9_write_signals [rotated])

lemma ex9_init_completion:
  assumes "ex9_module_init C K g l = (0, s, l')"
  shows "setup_done s = cp_init C"
  using assms
  by (auto simp: ex9_module_init_def dynamic_init_def chr_init_rest_def compl_setup_def fail0_def
      fail1_def fail2_def Let_def split: if_splits prod.splits)

section \<open>Properties\<close>

text \<open>In any sequence of calls on a freshly loaded \<open>ex9\<close>, at most as many reads return as
  writes have returned, and a further read waits exactly when the two numbers are equal.\<close>

lemma ex9_reads_follow_writes:
  assumes "completion_laws C" and "ex9_module_init C K g l = (0, s, l')" and "ex9_run C cs s = (r, w, t)"
  shows "r \<le> w \<and> (ex9_read C U p n t = Block \<longleftrightarrow> r = w)"
proof -
  have eq: "r + cp_done C (setup_done t) = w"
    using ex9_run_counts [OF assms(1,3)] ex9_init_completion [OF assms(2)] assms(1)
    by (simp add: completion_laws_def)
  have "ex9_read C U p n t = Block \<longleftrightarrow> cp_done C (setup_done t) = 0"
    using assms(1)
    by (auto simp: ex9_read_def completion_laws_def xfer_read_def copy_out_def Let_def
        split: option.splits prod.splits)
  with eq show ?thesis by auto
qed

definition ex9_loaded :: "nat chr_compl" where
  "ex9_loaded = fst (snd (ex9_module_init counting_completion good_kernel (chr.extend chr_image \<lparr>setup_done = 0\<rparr>) []))"

lemma ex9_reads_follow_writes_witness:
  "\<exists>r w t. ex9_run counting_completion [Rd sevens 1 4, Wr sevens 2 4, Rd sevens 1 4] ex9_loaded = (r, w, t) \<and>
     r \<le> w \<and> (ex9_read counting_completion sevens 1 4 t = Block \<longleftrightarrow> r = w)"
proof -
  let ?i = "ex9_module_init counting_completion good_kernel (chr.extend chr_image \<lparr>setup_done = 0\<rparr>) []"
  have "fst ?i = 0"
    by (simp add: ex9_module_init_def init_defs compl_setup_def chr.defs)
  then have i: "?i = (0, ex9_loaded, snd (snd ?i))"
    by (simp add: ex9_loaded_def prod_eq_iff)
  obtain r w t where run:
    "ex9_run counting_completion [Rd sevens 1 4, Wr sevens 2 4, Rd sevens 1 4] ex9_loaded = (r, w, t)"
    by (metis prod_cases3)
  show ?thesis
    using ex9_reads_follow_writes [OF counting_completion_laws i run] run by blast
qed

end
