(* ===== verification/Lock_Concurrency.thy ===== *)
theory Lock_Concurrency
  imports Char_Locks
begin

text \<open>
  Any number of threads in \<open>read\<close> and \<open>write\<close> at once, byte by byte. \<open>lk_step\<close> is one step
  of one thread in the drivers that hold one lock around both transfers (\<open>ex7.c\<close> with a
  semaphore, \<open>ex8.c\<close> with a spinlock); \<open>seq_step\<close> is one step in \<open>ex10.c\<close>, whose readers
  rely on a seqlock that its writers never take. \<open>commits\<close> is a ghost: the buffer contents
  after each write that finished, the initial ones first.
\<close>

section \<open>Threads under one lock\<close>

text \<open>
  What a call moves: a read up to \<open>min(count, 4000)\<close> bytes, a write the bytes that
  \<open>copy_from_user\<close> puts at the destination.
\<close>

datatype task = Read_task nat | Write_task "byte list"

fun task_len :: "task \<Rightarrow> nat" where
  "task_len (Read_task n) = n"
| "task_len (Write_task d) = length d"

text \<open>Where a thread is: before \<open>down\<close>, inside with \<open>k\<close> bytes moved, or past \<open>up\<close>.\<close>

datatype pc = Idle | At_lock task | Copying task nat "byte list" | Finished task "byte list"

record 'l sys =
  slock :: 'l
  smem :: "byte list"
  spc :: "nat \<Rightarrow> pc"
  commits :: "byte list list"

definition lk_start :: "'l lockops \<Rightarrow> byte list \<Rightarrow> 'l sys \<Rightarrow> bool" where
  "lk_start L m s \<longleftrightarrow> s = \<lparr>slock = lk_init L, smem = m, spc = (\<lambda>_. Idle), commits = [m]\<rparr>"

inductive lk_step :: "'l lockops \<Rightarrow> 'l sys \<Rightarrow> 'l sys \<Rightarrow> bool" for L :: "'l lockops" where
  call: "spc s i = Idle \<Longrightarrow> task_len t \<le> length (smem s) \<Longrightarrow>
    lk_step L s (s\<lparr>spc := (spc s)(i := At_lock t)\<rparr>)"
| down: "spc s i = At_lock t \<Longrightarrow> lk_acquire L (slock s) = Some x \<Longrightarrow>
    lk_step L s (s\<lparr>slock := x, spc := (spc s)(i := Copying t 0 [])\<rparr>)"
| copy_out: "spc s i = Copying (Read_task n) k acc \<Longrightarrow> k < n \<Longrightarrow>
    lk_step L s (s\<lparr>spc := (spc s)(i := Copying (Read_task n) (Suc k) (acc @ [smem s ! k]))\<rparr>)"
| copy_in: "spc s i = Copying (Write_task d) k acc \<Longrightarrow> k < length d \<Longrightarrow>
    lk_step L s (s\<lparr>smem := (smem s)[k := d ! k], spc := (spc s)(i := Copying (Write_task d) (Suc k) acc)\<rparr>)"
| up_read: "spc s i = Copying (Read_task n) k acc \<Longrightarrow>
    lk_step L s (s\<lparr>slock := lk_release L (slock s), spc := (spc s)(i := Finished (Read_task n) acc)\<rparr>)"
| up_write: "spc s i = Copying (Write_task d) (length d) acc \<Longrightarrow>
    lk_step L s (s\<lparr>slock := lk_release L (slock s), spc := (spc s)(i := Finished (Write_task d) acc),
                    commits := commits s @ [smem s]\<rparr>)"
| ret: "spc s i = Finished t acc \<Longrightarrow> lk_step L s (s\<lparr>spc := (spc s)(i := Idle)\<rparr>)"

text \<open>A read may stop before its last byte (a short \<open>copy_to_user\<close>), a write is padded.\<close>

fun inside :: "pc \<Rightarrow> bool" where
  "inside (Copying t k acc) = True"
| "inside _ = False"

lemma inside_iff: "inside p \<longleftrightarrow> (\<exists>t k acc. p = Copying t k acc)"
  by (cases p) auto

section \<open>The lock invariant\<close>

definition lock_inv :: "('l \<Rightarrow> bool) \<Rightarrow> 'l lockops \<Rightarrow> 'l sys \<Rightarrow> bool" where
  "lock_inv V L s \<longleftrightarrow> V (slock s) \<and>
     (\<forall>i j. inside (spc s i) \<longrightarrow> inside (spc s j) \<longrightarrow> i = j) \<and>
     ((\<exists>i. inside (spc s i)) \<longleftrightarrow> \<not> lk_free L (slock s))"

lemma lock_inv_alone: "lock_inv V L s \<Longrightarrow> inside (spc s i) \<Longrightarrow> j \<noteq> i \<Longrightarrow> \<not> inside (spc s j)"
  by (auto simp: lock_inv_def)

context kernel_lock
begin

lemma lock_inv_acquire:
  assumes inv: "lock_inv V L s" and p: "\<not> inside (spc s i)" "inside p"
    and acq: "lk_acquire L (slock s) = Some x"
  shows "lock_inv V L (s\<lparr>slock := x, spc := (spc s)(i := p)\<rparr>)"
proof -
  have "\<not> inside (spc s j)" for j
    using inv acq by (auto simp: lock_inv_def lk_free_def)
  then show ?thesis
    using inv p acq acquire_taken [of "slock s" x] by (auto simp: lock_inv_def)
qed

lemma lock_inv_release:
  assumes inv: "lock_inv V L s" and p: "inside (spc s i)" "\<not> inside p"
  shows "lock_inv V L (s\<lparr>slock := lk_release L (slock s), spc := (spc s)(i := p)\<rparr>)"
proof -
  have "\<not> inside (spc s j)" if "j \<noteq> i" for j
    using inv p that by (auto simp: lock_inv_def)
  moreover have "V (lk_release L (slock s)) \<and> lk_free L (lk_release L (slock s))"
    using inv p taken_release by (auto simp: lock_inv_def)
  ultimately show ?thesis using p by (auto simp: lock_inv_def)
qed

lemma lock_inv_keep:
  assumes "lock_inv V L s" and "inside p \<longleftrightarrow> inside (spc s i)"
  shows "lock_inv V L (s\<lparr>spc := (spc s)(i := p)\<rparr>)"
  using assms by (auto simp: lock_inv_def split: if_splits)

lemma lock_inv_frame [simp]:
  "lock_inv V L (s\<lparr>smem := m\<rparr>) = lock_inv V L s" "lock_inv V L (s\<lparr>commits := c\<rparr>) = lock_inv V L s"
  by (simp_all add: lock_inv_def)

lemma lock_inv_step: "lk_step L s t \<Longrightarrow> lock_inv V L s \<Longrightarrow> lock_inv V L t"
proof (induction rule: lk_step.induct)
  case (copy_in s i d k acc)
  then show ?case
    using lock_inv_keep [of "s\<lparr>smem := (smem s)[k := d ! k]\<rparr>" "Copying (Write_task d) (Suc k) acc" i]
    by simp
next
  case (up_write s i d acc)
  then show ?case
    using lock_inv_release [of s i "Finished (Write_task d) acc"] by simp
qed (auto intro: lock_inv_keep lock_inv_acquire lock_inv_release)

lemma lock_inv_start: "lk_start L m s \<Longrightarrow> lock_inv V L s"
  by (simp add: lk_start_def lock_inv_def init_free)

end

sublocale kernel_lock \<subseteq> excl: invariant_system "lk_start L m" "lk_step L" "lock_inv V L" for m
  by unfold_locales (auto intro: lock_inv_start lock_inv_step)

section \<open>The data invariant\<close>

text \<open>
  While a writer is inside, the buffer is the last committed one with a prefix of the new
  data over it; otherwise it is the last committed one. A reader inside has copied a
  prefix of it. Each commit overlays one write on the commit before.
\<close>

definition one_write :: "byte list \<Rightarrow> byte list \<Rightarrow> bool" where
  "one_write m m' \<longleftrightarrow> (\<exists>d. length d \<le> length m \<and> m' = put_at 0 d m)"

definition from_commit :: "byte list list \<Rightarrow> nat \<Rightarrow> byte list \<Rightarrow> bool" where
  "from_commit cs n acc \<longleftrightarrow> (\<exists>m \<in> set cs. \<exists>k \<le> n. acc = take k m)"

fun data_pc :: "byte list \<Rightarrow> byte list list \<Rightarrow> pc \<Rightarrow> bool" where
  "data_pc m cs (At_lock t) \<longleftrightarrow> task_len t \<le> length m"
| "data_pc m cs (Copying (Read_task n) k acc) \<longleftrightarrow>
     k \<le> n \<and> n \<le> length m \<and> m = last cs \<and> acc = take k m"
| "data_pc m cs (Copying (Write_task d) k acc) \<longleftrightarrow>
     k \<le> length d \<and> length d \<le> length (last cs) \<and> m = put_at 0 (take k d) (last cs)"
| "data_pc m cs (Finished (Read_task n) acc) \<longleftrightarrow> from_commit cs n acc"
| "data_pc m cs _ \<longleftrightarrow> True"

definition data_inv :: "'l sys \<Rightarrow> bool" where
  "data_inv s \<longleftrightarrow> commits s \<noteq> [] \<and> length (smem s) = length (last (commits s)) \<and>
     (\<forall>i. data_pc (smem s) (commits s) (spc s i)) \<and>
     ((\<forall>i. \<not> inside (spc s i)) \<longrightarrow> smem s = last (commits s)) \<and>
     successively one_write (commits s)"

lemma put_at_step:
  "k < length d \<Longrightarrow> length d \<le> length m \<Longrightarrow>
   (put_at 0 (take k d) m)[k := d ! k] = put_at 0 (take (Suc k) d) m"
  by (intro nth_equalityI) (auto simp: nth_put_at length_put_at nth_list_update less_Suc_eq)

lemma data_pc_other:
  "\<not> inside p \<Longrightarrow> data_pc m cs p \<Longrightarrow> length m' = length m \<Longrightarrow> set cs \<subseteq> set cs' \<Longrightarrow> data_pc m' cs' p"
  by (cases "(m, cs, p)" rule: data_pc.cases) (auto simp: from_commit_def)

lemma data_inv_keep:
  assumes "data_inv s" and "data_pc (smem s) (commits s) p" and "inside p \<longleftrightarrow> inside (spc s i)"
  shows "data_inv (s\<lparr>spc := (spc s)(i := p)\<rparr>)"
  using assms by (auto simp: data_inv_def split: if_splits)

lemma data_invD: "data_inv s \<Longrightarrow> spc s i = p \<Longrightarrow> data_pc (smem s) (commits s) p"
  by (auto simp: data_inv_def)

lemma data_inv_slock [simp]: "data_inv (s\<lparr>slock := x\<rparr>) = data_inv s"
  by (simp add: data_inv_def)

lemma data_inv_enter:
  assumes "data_inv s" and "\<And>j. \<not> inside (spc s j)" and "spc s i = At_lock t"
  shows "data_inv (s\<lparr>spc := (spc s)(i := Copying t 0 [])\<rparr>)"
proof -
  have m: "smem s = last (commits s)"
    using assms(1,2) by (auto simp: data_inv_def)
  moreover have "data_pc (smem s) (commits s) (At_lock t)"
    using assms(1,3) by (rule data_invD)
  ultimately have "data_pc (smem s) (commits s) (Copying t 0 [])"
    by (cases t) auto
  with assms(1) m show ?thesis by (auto simp: data_inv_def)
qed

lemma data_inv_leave_read:
  assumes "data_inv s" and "spc s i = Copying (Read_task n) k acc"
  shows "data_inv (s\<lparr>spc := (spc s)(i := Finished (Read_task n) acc)\<rparr>)"
proof -
  have "data_pc (smem s) (commits s) (Copying (Read_task n) k acc)" and "commits s \<noteq> []"
    using data_invD [OF assms] assms(1) by (auto simp: data_inv_def)
  then have "smem s = last (commits s)" and "from_commit (commits s) n acc"
    by (auto simp: from_commit_def)
  with assms(1) show ?thesis by (auto simp: data_inv_def)
qed

lemma data_inv_copy_in:
  assumes "data_inv s" and "spc s i = Copying (Write_task d) k acc" and "k < length d"
    and other: "\<And>j. j \<noteq> i \<Longrightarrow> \<not> inside (spc s j)"
  shows "data_inv (s\<lparr>smem := (smem s)[k := d ! k], spc := (spc s)(i := Copying (Write_task d) (Suc k) acc)\<rparr>)"
proof -
  let ?m = "(smem s)[k := d ! k]"
  have p: "data_pc (smem s) (commits s) (Copying (Write_task d) k acc)"
    and len: "length (smem s) = length (last (commits s))"
    using data_invD [OF assms(1,2)] assms(1) by (simp_all add: data_inv_def)
  then have "data_pc ?m (commits s) (Copying (Write_task d) (Suc k) acc)"
    using assms(3) by (auto simp: put_at_step)
  moreover have "data_pc ?m (commits s) (spc s j)" if "j \<noteq> i" for j
    using assms(1) other [OF that] by (auto simp: data_inv_def intro: data_pc_other [of _ "smem s" "commits s"])
  ultimately show ?thesis using assms(1) len by (auto simp: data_inv_def length_put_at)
qed

lemma data_inv_leave_write:
  assumes "data_inv s" and "spc s i = Copying (Write_task d) (length d) acc"
    and other: "\<And>j. j \<noteq> i \<Longrightarrow> \<not> inside (spc s j)"
  shows "data_inv (s\<lparr>spc := (spc s)(i := Finished (Write_task d) acc), commits := commits s @ [smem s]\<rparr>)"
proof -
  have "data_pc (smem s) (commits s) (Copying (Write_task d) (length d) acc)"
    and ne: "commits s \<noteq> []" and len: "length (smem s) = length (last (commits s))"
    using data_invD [OF assms(1,2)] assms(1) by (simp_all add: data_inv_def)
  then have "one_write (last (commits s)) (smem s)"
    by (auto simp: one_write_def)
  then have "successively one_write (commits s @ [smem s])"
    using assms(1) ne by (auto simp: data_inv_def successively_append_iff)
  moreover have "data_pc (smem s) (commits s @ [smem s]) (spc s j)" if "j \<noteq> i" for j
    using assms(1) other [OF that] by (auto simp: data_inv_def intro: data_pc_other [of _ "smem s" "commits s"])
  ultimately show ?thesis using assms(1) by (auto simp: data_inv_def)
qed

lemma data_inv_start: "lk_start L m s \<Longrightarrow> data_inv s"
  by (simp add: lk_start_def data_inv_def)

context kernel_lock
begin

lemma data_inv_step: "lk_step L s t \<Longrightarrow> lock_inv V L s \<Longrightarrow> data_inv s \<Longrightarrow> data_inv t"
proof (induction rule: lk_step.induct)
  case (call s i t)
  then show ?case by (auto intro: data_inv_keep)
next
  case (down s i t x)
  then have "\<not> inside (spc s j)" for j
    by (auto simp: lock_inv_def lk_free_def)
  with down show ?case
    using data_inv_enter [of "s\<lparr>slock := x\<rparr>" i t] by simp
next
  case (copy_out s i n k acc)
  have "data_pc (smem s) (commits s) (Copying (Read_task n) k acc)"
    by (rule data_invD [OF copy_out(4,1)])
  then have "data_pc (smem s) (commits s) (Copying (Read_task n) (Suc k) (acc @ [smem s ! k]))"
    using copy_out(2) by (auto simp: take_Suc_conv_app_nth)
  with copy_out show ?case by (auto intro: data_inv_keep)
next
  case (copy_in s i d k acc)
  then show ?case by (auto simp: lock_inv_def intro!: data_inv_copy_in)
next
  case (up_read s i n k acc)
  then show ?case using data_inv_leave_read [of "s\<lparr>slock := lk_release L (slock s)\<rparr>" i n k acc] by simp
next
  case (up_write s i d acc)
  then show ?case
    using data_inv_leave_write [of "s\<lparr>slock := lk_release L (slock s)\<rparr>" i d acc]
      lock_inv_alone [of V L s i] by simp
next
  case (ret s i t acc)
  then show ?case by (auto intro: data_inv_keep)
qed

end

sublocale kernel_lock \<subseteq> data: invariant_system "lk_start L m" "lk_step L" "\<lambda>s. lock_inv V L s \<and> data_inv s" for m
  by unfold_locales
    (auto intro: lock_inv_start lock_inv_step data_inv_step data_inv_start)

context kernel_lock
begin

lemma reachable_lock_inv: "reaches (lk_start L m) (lk_step L) s \<Longrightarrow> lock_inv V L s"
  by (rule excl.inv_reaches)

lemma reachable_data_inv: "reaches (lk_start L m) (lk_step L) s \<Longrightarrow> data_inv s"
  using data.inv_reaches by blast

end

section \<open>ex10.c: readers under a seqlock the writers ignore\<close>

text \<open>
  The writer takes the semaphore only; the reader reads the sequence number, copies, and
  retries when \<open>read_seqretry\<close> says so. No statement of the file writes the seqlock.
\<close>

datatype pc10 =
    Idle10
  | W_down "byte list"
  | W_copy "byte list" nat
  | R_begin nat
  | R_copy nat nat "byte list" c_uint
  | R_check nat "byte list" c_uint
  | R_done nat "byte list"

record ('l, 'q) sys10 =
  wsem :: 'l
  rlock :: 'q
  mem10 :: "byte list"
  pc10 :: "nat \<Rightarrow> pc10"
  commits10 :: "byte list list"

definition start10 :: "'l lockops \<Rightarrow> 'q seqops \<Rightarrow> byte list \<Rightarrow> ('l, 'q) sys10 \<Rightarrow> bool" where
  "start10 L Q m s \<longleftrightarrow>
     s = \<lparr>wsem = lk_init L, rlock = sq_init Q, mem10 = m, pc10 = (\<lambda>_. Idle10), commits10 = [m]\<rparr>"

inductive seq_step :: "'l lockops \<Rightarrow> 'q seqops \<Rightarrow> ('l, 'q) sys10 \<Rightarrow> ('l, 'q) sys10 \<Rightarrow> bool"
    for L :: "'l lockops" and Q :: "'q seqops" where
  w_call: "pc10 s i = Idle10 \<Longrightarrow> length d \<le> length (mem10 s) \<Longrightarrow>
    seq_step L Q s (s\<lparr>pc10 := (pc10 s)(i := W_down d)\<rparr>)"
| w_down: "pc10 s i = W_down d \<Longrightarrow> lk_acquire L (wsem s) = Some x \<Longrightarrow>
    seq_step L Q s (s\<lparr>wsem := x, pc10 := (pc10 s)(i := W_copy d 0)\<rparr>)"
| w_copy: "pc10 s i = W_copy d k \<Longrightarrow> k < length d \<Longrightarrow>
    seq_step L Q s (s\<lparr>mem10 := (mem10 s)[k := d ! k], pc10 := (pc10 s)(i := W_copy d (Suc k))\<rparr>)"
| w_up: "pc10 s i = W_copy d (length d) \<Longrightarrow>
    seq_step L Q s (s\<lparr>wsem := lk_release L (wsem s), pc10 := (pc10 s)(i := Idle10),
                      commits10 := commits10 s @ [mem10 s]\<rparr>)"
| r_call: "pc10 s i = Idle10 \<Longrightarrow> n \<le> length (mem10 s) \<Longrightarrow>
    seq_step L Q s (s\<lparr>pc10 := (pc10 s)(i := R_begin n)\<rparr>)"
| r_begin: "pc10 s i = R_begin n \<Longrightarrow>
    seq_step L Q s (s\<lparr>pc10 := (pc10 s)(i := R_copy n 0 [] (sq_begin Q (rlock s)))\<rparr>)"
| r_copy: "pc10 s i = R_copy n k acc seq \<Longrightarrow> k < n \<Longrightarrow>
    seq_step L Q s (s\<lparr>pc10 := (pc10 s)(i := R_copy n (Suc k) (acc @ [mem10 s ! k]) seq)\<rparr>)"
| r_end: "pc10 s i = R_copy n k acc seq \<Longrightarrow>
    seq_step L Q s (s\<lparr>pc10 := (pc10 s)(i := R_check n acc seq)\<rparr>)"
| r_retry: "pc10 s i = R_check n acc seq \<Longrightarrow> sq_retry Q (rlock s) seq \<Longrightarrow>
    seq_step L Q s (s\<lparr>pc10 := (pc10 s)(i := R_begin n)\<rparr>)"
| r_accept: "pc10 s i = R_check n acc seq \<Longrightarrow> \<not> sq_retry Q (rlock s) seq \<Longrightarrow>
    seq_step L Q s (s\<lparr>pc10 := (pc10 s)(i := R_done n acc)\<rparr>)"
| r_ret: "pc10 s i = R_done n acc \<Longrightarrow> seq_step L Q s (s\<lparr>pc10 := (pc10 s)(i := Idle10)\<rparr>)"

text \<open>The sequence number a reader holds is the current one: it never changes.\<close>

fun seq_pc :: "c_uint \<Rightarrow> pc10 \<Rightarrow> bool" where
  "seq_pc q (R_copy n k acc seq) \<longleftrightarrow> seq = q"
| "seq_pc q (R_check n acc seq) \<longleftrightarrow> seq = q"
| "seq_pc q _ \<longleftrightarrow> True"

definition seq_inv :: "'q seqops \<Rightarrow> ('l, 'q) sys10 \<Rightarrow> bool" where
  "seq_inv Q s \<longleftrightarrow> rlock s = sq_init Q \<and> (\<forall>i. seq_pc (sq_begin Q (sq_init Q)) (pc10 s i))"

lemma seq_invD: "seq_inv Q s \<Longrightarrow> pc10 s i = p \<Longrightarrow> seq_pc (sq_begin Q (sq_init Q)) p"
  by (auto simp: seq_inv_def)

lemma seq_inv_upd:
  "seq_inv Q s \<Longrightarrow> seq_pc (sq_begin Q (sq_init Q)) p \<Longrightarrow> seq_inv Q (s\<lparr>pc10 := (pc10 s)(i := p)\<rparr>)"
  by (simp add: seq_inv_def)

lemma seq_inv_frame [simp]:
  "seq_inv Q (s\<lparr>wsem := x\<rparr>) = seq_inv Q s" "seq_inv Q (s\<lparr>mem10 := m\<rparr>) = seq_inv Q s"
  "seq_inv Q (s\<lparr>commits10 := c\<rparr>) = seq_inv Q s"
  by (simp_all add: seq_inv_def)

lemma seq_inv_step: "seq_step L Q s t \<Longrightarrow> seq_inv Q s \<Longrightarrow> seq_inv Q t"
proof (induction rule: seq_step.induct)
  case (r_begin s i n)
  then show ?case by (simp add: seq_inv_def)
next
  case (r_copy s i n k acc seq)
  then show ?case using seq_invD [OF r_copy(3,1)] by (auto intro: seq_inv_upd)
next
  case (r_end s i n k acc seq)
  then show ?case using seq_invD [OF r_end(2,1)] by (auto intro: seq_inv_upd)
qed (auto simp: seq_inv_def)

lemma seq_inv_start: "start10 L Q m s \<Longrightarrow> seq_inv Q s"
  by (simp add: start10_def seq_inv_def)

interpretation seq10: invariant_system "start10 L Q m" "seq_step L Q" "seq_inv Q" for L Q m
  by unfold_locales (auto intro: seq_inv_start seq_inv_step)

text \<open>One writer (thread 0) and one reader (thread 1) of \<open>ex10\<close>.\<close>

definition pair10 :: "'q seqops \<Rightarrow> 'l \<Rightarrow> byte list \<Rightarrow> pc10 \<Rightarrow> pc10 \<Rightarrow> byte list list \<Rightarrow> ('l, 'q) sys10" where
  "pair10 Q x m a b cs = \<lparr>wsem = x, rlock = sq_init Q, mem10 = m, pc10 = duo Idle10 a b, commits10 = cs\<rparr>"

lemma pair10_sel [simp]:
  "wsem (pair10 Q x m a b cs) = x" "rlock (pair10 Q x m a b cs) = sq_init Q"
  "mem10 (pair10 Q x m a b cs) = m" "commits10 (pair10 Q x m a b cs) = cs"
  "pc10 (pair10 Q x m a b cs) = duo Idle10 a b"
  by (simp_all add: pair10_def)

lemma pair10_upd [simp]:
  "(pair10 Q x m a b cs)\<lparr>wsem := x'\<rparr> = pair10 Q x' m a b cs"
  "(pair10 Q x m a b cs)\<lparr>mem10 := m'\<rparr> = pair10 Q x m' a b cs"
  "(pair10 Q x m a b cs)\<lparr>commits10 := cs'\<rparr> = pair10 Q x m a b cs'"
  "(pair10 Q x m a b cs)\<lparr>pc10 := duo Idle10 a' b'\<rparr> = pair10 Q x m a' b' cs"
  by (simp_all add: pair10_def)

lemmas pair10_steps =
  seq_step.w_call [of "pair10 Q x m a b cs" 0 for Q x m a b cs, simplified]
  seq_step.w_down [of "pair10 Q x m a b cs" 0 for Q x m a b cs, simplified]
  seq_step.w_copy [of "pair10 Q x m a b cs" 0 for Q x m a b cs, simplified]
  seq_step.w_up [of "pair10 Q x m a b cs" 0 for Q x m a b cs, simplified]
  seq_step.r_call [of "pair10 Q x m a b cs" 1 for Q x m a b cs, simplified]
  seq_step.r_begin [of "pair10 Q x m a b cs" 1 for Q x m a b cs, simplified]
  seq_step.r_copy [of "pair10 Q x m a b cs" 1 for Q x m a b cs, simplified]
  seq_step.r_end [of "pair10 Q x m a b cs" 1 for Q x m a b cs, simplified]
  seq_step.r_accept [of "pair10 Q x m a b cs" 1 for Q x m a b cs, simplified]

lemma torn_run:
  assumes "lock_laws V L" and "seqlock_laws Q"
  shows "\<exists>s. reaches (start10 L Q [0, 0]) (seq_step L Q) s \<and> pc10 s 1 = R_done 2 [0, 1] \<and>
            (\<forall>b \<in> set (commits10 s). take 2 b \<noteq> [0, 1])"
proof -
  let ?x = "lk_init L" and ?q = "sq_begin Q (sq_init Q)"
  obtain y where y: "lk_acquire L ?x = Some y"
    using assms(1) by (auto simp: lock_laws_def lk_free_def)
  have retry: "\<not> sq_retry Q (sq_init Q) ?q" using assms(2) by (simp add: seqlock_laws_def)
  have 0: "reaches (start10 L Q [0, 0]) (seq_step L Q) (pair10 Q ?x [0, 0] Idle10 Idle10 [[0, 0]])"
    by (rule reaches_start) (simp add: start10_def pair10_def duo_idle)
  let ?R = "reaches (start10 L Q [0, 0]) (seq_step L Q)"
  have 1: "?R (pair10 Q ?x [0, 0] Idle10 (R_begin 2) [[0, 0]])"
    by (rule reaches_step [OF 0 pair10_steps(5)]) simp_all
  have 2: "?R (pair10 Q ?x [0, 0] Idle10 (R_copy 2 0 [] ?q) [[0, 0]])"
    by (rule reaches_step [OF 1 pair10_steps(6)]) simp_all
  have 3: "?R (pair10 Q ?x [0, 0] Idle10 (R_copy 2 1 [0] ?q) [[0, 0]])"
    by (rule reaches_step_eq [OF 2 pair10_steps(7) [where k = 0 and acc = "[]" and n = 2 and seq = ?q]]) simp_all
  have 4: "?R (pair10 Q ?x [0, 0] (W_down [1, 1]) (R_copy 2 1 [0] ?q) [[0, 0]])"
    by (rule reaches_step [OF 3 pair10_steps(1)]) simp_all
  have 5: "?R (pair10 Q y [0, 0] (W_copy [1, 1] 0) (R_copy 2 1 [0] ?q) [[0, 0]])"
    by (rule reaches_step [OF 4 pair10_steps(2)]) (simp_all add: y)
  have 6: "?R (pair10 Q y [1, 0] (W_copy [1, 1] 1) (R_copy 2 1 [0] ?q) [[0, 0]])"
    by (rule reaches_step_eq [OF 5 pair10_steps(3) [where d = "[1, 1]" and k = 0]]) simp_all
  have 7: "?R (pair10 Q y [1, 1] (W_copy [1, 1] (Suc (Suc 0))) (R_copy 2 1 [0] ?q) [[0, 0]])"
    by (rule reaches_step_eq [OF 6 pair10_steps(3) [where d = "[1, 1]" and k = 1]]) simp_all
  have 8: "?R (pair10 Q (lk_release L y) [1, 1] Idle10 (R_copy 2 1 [0] ?q) [[0, 0], [1, 1]])"
    by (rule reaches_step_eq [OF 7 pair10_steps(4) [where d = "[1, 1]"]]) simp_all
  have 9: "?R (pair10 Q (lk_release L y) [1, 1] Idle10 (R_copy 2 (Suc (Suc 0)) [0, 1] ?q) [[0, 0], [1, 1]])"
    by (rule reaches_step_eq [OF 8 pair10_steps(7) [where k = 1 and acc = "[0]" and n = 2 and seq = ?q]]) simp_all
  have 10: "?R (pair10 Q (lk_release L y) [1, 1] Idle10 (R_check 2 [0, 1] ?q) [[0, 0], [1, 1]])"
    by (rule reaches_step [OF 9 pair10_steps(8)]) simp_all
  have 11: "?R (pair10 Q (lk_release L y) [1, 1] Idle10 (R_done 2 [0, 1]) [[0, 0], [1, 1]])"
    by (rule reaches_step [OF 10 pair10_steps(9) [where seq = ?q]]) (simp_all add: retry)
  show ?thesis by (rule exI [of _ "pair10 Q (lk_release L y) [1, 1] Idle10 (R_done 2 [0, 1]) [[0, 0], [1, 1]]"])
    (use 11 in simp)
qed

section \<open>Properties\<close>

text \<open>A concrete run for the witnesses: thread 0 reads one byte of \<open>[5, 6]\<close>.\<close>

definition run_state :: "nat \<Rightarrow> pc \<Rightarrow> nat sys" where
  "run_state x p = \<lparr>slock = x, smem = [5, 6], spc = duo Idle p Idle, commits = [[5, 6]]\<rparr>"

lemma run_inside:
  "reaches (lk_start counting_lock [5, 6]) (lk_step counting_lock) (run_state 0 (Copying (Read_task 1) 0 []))"
proof -
  have 0: "reaches (lk_start counting_lock [5, 6]) (lk_step counting_lock) (run_state 1 Idle)"
    by (rule reaches_start) (simp add: lk_start_def run_state_def duo_idle counting_lock_def)
  have 1: "lk_step counting_lock (run_state 1 Idle) (run_state 1 (At_lock (Read_task 1)))"
    using lk_step.call [of "run_state 1 Idle" 0 "Read_task 1"] by (simp add: run_state_def)
  have 2: "lk_step counting_lock (run_state 1 (At_lock (Read_task 1)))
      (run_state 0 (Copying (Read_task 1) 0 []))"
    using lk_step.down [of "run_state 1 (At_lock (Read_task 1))" 0 "Read_task 1" counting_lock 0]
    by (simp add: run_state_def counting_lock_def)
  show ?thesis by (rule reaches_step [OF reaches_step [OF 0 1] 2])
qed

lemma run_finished:
  "reaches (lk_start counting_lock [5, 6]) (lk_step counting_lock) (run_state 1 (Finished (Read_task 1) [5]))"
proof -
  have 1: "lk_step counting_lock (run_state 0 (Copying (Read_task 1) 0 []))
      (run_state 0 (Copying (Read_task 1) 1 [5]))"
    using lk_step.copy_out [of "run_state 0 (Copying (Read_task 1) 0 [])" 0 1 0 "[]"]
    by (simp add: run_state_def)
  have 2: "lk_step counting_lock (run_state 0 (Copying (Read_task 1) 1 [5]))
      (run_state 1 (Finished (Read_task 1) [5]))"
    using lk_step.up_read [of "run_state 0 (Copying (Read_task 1) 1 [5])" 0 1 1 "[5]" counting_lock]
    by (simp add: run_state_def counting_lock_def)
  show ?thesis by (rule reaches_step [OF reaches_step [OF run_inside 1] 2])
qed

text \<open>C21: in every reachable state of \<open>ex7\<close> and \<open>ex8\<close>, with any number of threads, at most one
  thread is moving bytes to or from user space, and while one is, the lock is taken. For
  the spinlock of \<open>ex8\<close> the second part says that \<open>copy_to_user\<close> and \<open>copy_from_user\<close>,
  which may sleep, always run in atomic context.\<close>

theorem locked_mutual_exclusion:
  assumes "lock_laws V L" and "reaches (lk_start L m) (lk_step L) s"
    and "spc s i = Copying t k acc"
  shows "\<not> lk_free L (slock s) \<and> (\<forall>j u k' acc'. spc s j = Copying u k' acc' \<longrightarrow> j = i)"
proof -
  have "lock_inv V L s"
    by (rule kernel_lock.reachable_lock_inv [OF kernel_lock.intro [OF assms(1)] assms(2)])
  with assms(3) show ?thesis by (fastforce simp: lock_inv_def inside_iff)
qed

theorem locked_mutual_exclusion_witness:
  "\<not> lk_free counting_lock (slock (run_state 0 (Copying (Read_task 1) 0 [])))"
  using locked_mutual_exclusion [OF counting_lock_laws run_inside, of 0 "Read_task 1" 0 "[]"]
  by (simp add: run_state_def)



text \<open>C38: \<open>ex10\<close> does not protect its readers. Under any semaphore and seqlock that behave as
  documented, a reader never retries, and with one writer and one reader a state is
  reachable in which the reader has accepted a mix of the old and the new buffer that no
  committed buffer starts with.\<close>

theorem ex10_torn_read:
  assumes "lock_laws V L" and "seqlock_laws Q"
  shows "(\<forall>m s i n acc seq. reaches (start10 L Q m) (seq_step L Q) s \<longrightarrow> pc10 s i = R_check n acc seq \<longrightarrow>
            \<not> sq_retry Q (rlock s) seq) \<and>
         (\<exists>s. reaches (start10 L Q [0, 0]) (seq_step L Q) s \<and> pc10 s 1 = R_done 2 [0, 1] \<and>
            (\<forall>b \<in> set (commits10 s). take 2 b \<noteq> [0, 1]))"
proof (intro conjI allI impI)
  fix m s i n acc seq
  assume r: "reaches (start10 L Q m) (seq_step L Q) s" and p: "pc10 s i = R_check n acc seq"
  have inv: "seq_inv Q s" by (rule seq10.inv_reaches [OF r])
  from seq_invD [OF inv p] have "seq = sq_begin Q (sq_init Q)" by simp
  with inv show "\<not> sq_retry Q (rlock s) seq"
    using assms(2) by (simp add: seq_inv_def seqlock_laws_def)
next
  show "\<exists>s. reaches (start10 L Q [0, 0]) (seq_step L Q) s \<and> pc10 s 1 = R_done 2 [0, 1] \<and>
            (\<forall>b \<in> set (commits10 s). take 2 b \<noteq> [0, 1])"
    using torn_run [OF assms] by blast
qed

theorem ex10_torn_read_witness:
  "\<exists>s. reaches (start10 counting_lock counting_seqlock [0, 0]) (seq_step counting_lock counting_seqlock) s \<and>
     pc10 s 1 = R_done 2 [0, 1] \<and> (\<forall>b \<in> set (commits10 s). take 2 b \<noteq> [0, 1])"
  using ex10_torn_read [OF counting_lock_laws counting_seqlock_laws] by blast

end
