(* ===== verification/Tiny_Tty.thy ===== *)
theory Tiny_Tty
  imports Module_Lifecycle
begin

text \<open>
  The tiny tty driver of \<open>day_12/ex29.c\<close>: its four ports, their open and close protocol, the
  timer that fakes incoming data, the modem-line and ioctl operations, and init and exit.
  A port object is reached only through its slot of \<open>tiny_table\<close>, from the \<open>kmalloc\<close> of the
  first open to the \<open>kfree\<close> of exit, so a pointer to it is the number of its slot; an
  empty slot behind such a pointer is a use after free. \<open>printk\<close> output is kept where it
  is all that a function does (\<open>tiny_write\<close>, \<open>tiny_set_termios\<close>).
\<close>

section \<open>State\<close>

definition TINY_TTY_MINORS :: nat where "TINY_TTY_MINORS = 4"
definition TINY_DATA_CHARACTER :: byte where "TINY_DATA_CHARACTER = 116"

text \<open>
  A kernel timer; \<open>pending\<close> is \<open>timer_pending\<close>, whether it sits in the kernel's timer wheel.
  \<open>timer_data\<close> is a port pointer.
\<close>

datatype timer_fn = No_function | Tiny_timer

record timer_list =
  timer_ptr :: ptr
  expires :: c_ulong
  timer_data :: nat
  timer_function :: timer_fn
  pending :: bool

text \<open>\<open>struct async_icount\<close> and \<open>struct serial_struct\<close> of \<open>linux/serial.h\<close>.\<close>

record async_icount =
  cts :: "32 word"
  dsr :: "32 word"
  rng :: "32 word"
  dcd :: "32 word"
  rx :: "32 word"
  tx :: "32 word"
  frame :: "32 word"
  overrun :: "32 word"
  parity :: "32 word"
  brk :: "32 word"
  buf_overrun :: "32 word"

record serial_struct =
  ss_type :: c_int
  line :: c_int
  port :: c_uint
  irq :: c_int
  flags :: c_int
  xmit_fifo_size :: c_int
  custom_divisor :: c_int
  baud_base :: c_int
  close_delay :: "16 word"
  io_type :: "8 word"
  hub6 :: c_int
  closing_wait :: "16 word"

record ktermios =
  c_iflag :: c_uint
  c_cflag :: c_uint
  c_cc :: "byte list"

text \<open>
  \<open>tty\<close> is the tty structure that was opened last; \<open>tiny_ptr\<close> the address of the object.
  \<open>wait\<close> tells whether the memory of the wait queue head holds an empty list head, as
  \<open>init_waitqueue_head\<close> leaves it, or anything else; no function of the driver sets it.
\<close>

datatype wait_queue_head = List_head | No_list_head

record 'l tiny_serial =
  tiny_ptr :: ptr
  tty :: nat
  open_count :: c_int
  sem :: 'l
  timer :: "timer_list option"
  msr :: c_int
  mcr :: c_int
  serial :: serial_struct
  wait :: wait_queue_head
  icount :: async_icount

record tty_struct =
  index :: c_int
  driver_data :: "nat option"
  termios :: ktermios
  flip_buffer :: "byte list"

record 'l tiny_state =
  tiny_table :: "'l tiny_serial option list"
  ttys :: "nat \<Rightarrow> tty_struct"
  tiny_tty_driver :: ptr

text \<open>
  What the driver takes from the kernel beyond \<open>kernel\<close>: the tty core, the clock, the sizes
  of the two objects, and the contents that freshly allocated memory happens to have, read
  as a port and as a timer (\<open>kmalloc\<close> does not clear it).
\<close>

record 'l tty_kernel = kernel +
  HZ :: c_int
  jiffies :: "klog \<Rightarrow> c_ulong"
  sizeof_tiny :: size_t
  sizeof_timer :: size_t
  tiny_garbage :: "klog \<Rightarrow> 'l tiny_serial"
  timer_garbage :: "klog \<Rightarrow> timer_list"
  insert_flip :: "klog \<Rightarrow> nat"
  alloc_tty_driver :: "klog \<Rightarrow> c_int \<Rightarrow> ptr"
  tty_register_driver :: "klog \<Rightarrow> ptr \<Rightarrow> c_int"

section \<open>Timers\<close>

text \<open>\<open>add_timer\<close> is a kernel bug on a pending timer; \<open>del_timer\<close> needs a timer object.\<close>

definition add_timer :: "timer_list \<Rightarrow> timer_list outcome" where
  "add_timer t = (if pending t then Fault BadState else Ret (t\<lparr>pending := True\<rparr>))"

definition del_timer :: "timer_list option \<Rightarrow> timer_list option outcome" where
  "del_timer t = (case t of None \<Rightarrow> Fault NullDeref | Some x \<Rightarrow> Ret (Some (x\<lparr>pending := False\<rparr>)))"

definition DELAY_TIME :: "'l tty_kernel \<Rightarrow> c_ulong" where
  "DELAY_TIME K = scast (HZ K * 2)"

definition put_tiny :: "nat \<Rightarrow> 'l tiny_serial \<Rightarrow> 'l tiny_state \<Rightarrow> 'l tiny_state" where
  "put_tiny i t s = s\<lparr>tiny_table := (tiny_table s)[i := Some t]\<rparr>"

definition upd_tty :: "nat \<Rightarrow> (tty_struct \<Rightarrow> tty_struct) \<Rightarrow> 'l tiny_state \<Rightarrow> 'l tiny_state" where
  "upd_tty j f s = s\<lparr>ttys := (ttys s)(j := f (ttys s j))\<rparr>"

text \<open>Following a port pointer; the table slot \<open>tiny_table[index]\<close> for a C index.\<close>

definition deref_tiny :: "nat \<Rightarrow> 'l tiny_state \<Rightarrow> 'l tiny_serial outcome" where
  "deref_tiny i s =
     (if i < length (tiny_table s)
      then (case tiny_table s ! i of None \<Rightarrow> Fault BadState | Some t \<Rightarrow> Ret t)
      else Fault OutOfBounds)"

text \<open>
  The callback: one character to the tty (the layer takes it or not), then the timer is
  submitted again. Before it runs, the kernel has taken the timer out of the wheel
  (\<open>timer_expires\<close>).
\<close>

definition timer_expires :: "nat \<Rightarrow> 'l tiny_state \<Rightarrow> 'l tiny_state outcome" where
  "timer_expires i s =
     obind (deref_tiny i s) (\<lambda>tiny.
       case timer tiny of
         None \<Rightarrow> Fault NullDeref
       | Some t \<Rightarrow> (if pending t then Ret (put_tiny i (tiny\<lparr>timer := Some (t\<lparr>pending := False\<rparr>)\<rparr>) s) else Block))"

definition tiny_timer :: "'l tty_kernel \<Rightarrow> nat \<Rightarrow> 'l tiny_state \<Rightarrow> klog \<Rightarrow> 'l tiny_state outcome" where
  "tiny_timer K i s l =
     obind (deref_tiny i s) (\<lambda>tiny.
       let data = [TINY_DATA_CHARACTER];
           s = upd_tty (tty tiny) (\<lambda>y. y\<lparr>flip_buffer := flip_buffer y @ take (insert_flip K l) data\<rparr>) s
       in case timer tiny of
            None \<Rightarrow> Fault NullDeref
          | Some t \<Rightarrow>
              obind (add_timer (t\<lparr>expires := jiffies K l + DELAY_TIME K\<rparr>))
                (\<lambda>t. Ret (put_tiny i (tiny\<lparr>timer := Some t\<rparr>) s)))"

section \<open>Open and close\<close>

definition table_slot :: "c_int \<Rightarrow> nat outcome" where
  "table_slot k =
     (if 0 \<le> sint k \<and> sint k < int TINY_TTY_MINORS then Ret (nat (sint k))
      else Fault OutOfBounds)"

text \<open>The part of \<open>tiny_open\<close> from \<open>down\<close> on, for the port \<open>tiny\<close> in slot \<open>i\<close>.\<close>

definition tiny_open_timer ::
    "'l tty_kernel \<Rightarrow> nat \<Rightarrow> 'l tiny_serial \<Rightarrow> klog \<Rightarrow> (c_int \<times> 'l tiny_serial \<times> klog) outcome" where
  "tiny_open_timer K i tiny l =
     (let (ret, tiny, l) =
        (case timer tiny of
           Some t \<Rightarrow> (0, tiny, l)
         | None \<Rightarrow>
             (let p = fst (kmalloc K l (sizeof_timer K) (GFP_KERNEL K));
                  l' = l @ [Mem (Kmalloc (sizeof_timer K) (GFP_KERNEL K) p)]
              in if p = 0 then (- ENOMEM, tiny, l')
                 else (0, tiny\<lparr>timer := Some ((timer_garbage K l)\<lparr>timer_ptr := p\<rparr>)\<rparr>, l')))
      in if ret \<noteq> 0 then Ret (ret, tiny, l)
         else (case timer tiny of
                 None \<Rightarrow> Fault NullDeref
               | Some t \<Rightarrow>
                   obind (add_timer (t\<lparr>timer_data := i, expires := jiffies K l + DELAY_TIME K,
                                       timer_function := Tiny_timer\<rparr>))
                     (\<lambda>t. Ret (0, tiny\<lparr>timer := Some t\<rparr>, l))))"

definition tiny_open_rest ::
    "'l lockops \<Rightarrow> 'l tty_kernel \<Rightarrow> nat \<Rightarrow> nat \<Rightarrow> 'l tiny_serial \<Rightarrow> 'l tiny_state \<Rightarrow> klog \<Rightarrow>
      (c_int \<times> 'l tiny_state \<times> klog) outcome" where
  "tiny_open_rest L K j i tiny s l =
     (case lk_acquire L (sem tiny) of
        None \<Rightarrow> Block
      | Some x \<Rightarrow>
          (let s = upd_tty j (\<lambda>y. y\<lparr>driver_data := Some i\<rparr>) s;
               tiny = tiny\<lparr>sem := x, tty := j, open_count := open_count tiny + 1\<rparr>
           in obind (if open_count tiny = 1 then tiny_open_timer K i tiny l else Ret (0, tiny, l))
                (\<lambda>(ret, tiny, l). Ret (ret, put_tiny i (tiny\<lparr>sem := lk_release L (sem tiny)\<rparr>) s, l))))"

definition tiny_open ::
    "'l lockops \<Rightarrow> 'l tty_kernel \<Rightarrow> nat \<Rightarrow> 'l tiny_state \<Rightarrow> klog \<Rightarrow>
      (c_int \<times> 'l tiny_state \<times> klog) outcome" where
  "tiny_open L K j s l =
     (let s = upd_tty j (\<lambda>y. y\<lparr>driver_data := None\<rparr>) s
      in obind (table_slot (index (ttys s j))) (\<lambda>i.
           case tiny_table s ! i of
             Some tiny \<Rightarrow> tiny_open_rest L K j i tiny s l
           | None \<Rightarrow>
               (let p = fst (kmalloc K l (sizeof_tiny K) (GFP_KERNEL K));
                    l' = l @ [Mem (Kmalloc (sizeof_tiny K) (GFP_KERNEL K) p)]
                in if p = 0 then Ret (- ENOMEM, s, l')
                   else let tiny = (tiny_garbage K l)\<lparr>tiny_ptr := p, sem := lk_init L, open_count := 0, timer := None\<rparr>;
                            s = put_tiny i tiny s
                        in tiny_open_rest L K j i tiny s l')))"

definition do_close :: "'l lockops \<Rightarrow> 'l tiny_serial \<Rightarrow> 'l tiny_serial outcome" where
  "do_close L tiny =
     (case lk_acquire L (sem tiny) of
        None \<Rightarrow> Block
      | Some x \<Rightarrow>
          (let tiny = tiny\<lparr>sem := x\<rparr>
           in obind
                (if open_count tiny = 0 then Ret tiny
                 else let tiny = tiny\<lparr>open_count := open_count tiny - 1\<rparr>
                      in if sint (open_count tiny) \<le> 0
                         then obind (del_timer (timer tiny)) (\<lambda>t. Ret (tiny\<lparr>timer := t\<rparr>))
                         else Ret tiny)
                (\<lambda>tiny. Ret (tiny\<lparr>sem := lk_release L (sem tiny)\<rparr>))))"

definition tiny_close :: "'l lockops \<Rightarrow> nat \<Rightarrow> 'l tiny_state \<Rightarrow> 'l tiny_state outcome" where
  "tiny_close L j s =
     (case driver_data (ttys s j) of
        None \<Rightarrow> Ret s
      | Some i \<Rightarrow>
          obind (deref_tiny i s) (\<lambda>tiny. obind (do_close L tiny) (\<lambda>tiny. Ret (put_tiny i tiny s))))"

section \<open>Write and modem lines\<close>

text \<open>\<open>tiny_write\<close> also yields the bytes that it prints; \<open>buffer\<close> is the caller's object.\<close>

definition with_port ::
    "'l lockops \<Rightarrow> nat \<Rightarrow> 'l tiny_state \<Rightarrow> ('l tiny_serial \<Rightarrow> 'r outcome) \<Rightarrow> ('r \<times> 'l tiny_state) outcome" where
  "with_port L i s body =
     obind (deref_tiny i s) (\<lambda>tiny.
       case lk_acquire L (sem tiny) of
         None \<Rightarrow> Block
       | Some x \<Rightarrow>
           (let tiny = tiny\<lparr>sem := x\<rparr>
            in obind (body tiny) (\<lambda>r. Ret (r, put_tiny i (tiny\<lparr>sem := lk_release L (sem tiny)\<rparr>) s))))"

definition printed_bytes :: "byte list \<Rightarrow> c_int \<Rightarrow> byte list outcome" where
  "printed_bytes buf cnt =
     (if nat (sint cnt) \<le> length buf then Ret (take (nat (sint cnt)) buf) else Fault OutOfBounds)"

definition tiny_write ::
    "'l lockops \<Rightarrow> nat \<Rightarrow> byte list \<Rightarrow> c_int \<Rightarrow> 'l tiny_state \<Rightarrow> ((c_int \<times> byte list) \<times> 'l tiny_state) outcome" where
  "tiny_write L j buf cnt s =
     (let retval = - EINVAL
      in case driver_data (ttys s j) of
           None \<Rightarrow> Ret ((- ENODEV, []), s)
         | Some i \<Rightarrow>
             with_port L i s (\<lambda>tiny.
               if open_count tiny = 0 then Ret (retval, [])
               else obind (printed_bytes buf cnt) (\<lambda>out. Ret (retval, out))))"

definition tiny_write_room :: "'l lockops \<Rightarrow> nat \<Rightarrow> 'l tiny_state \<Rightarrow> (c_int \<times> 'l tiny_state) outcome" where
  "tiny_write_room L j s =
     (case driver_data (ttys s j) of
        None \<Rightarrow> Ret (- ENODEV, s)
      | Some i \<Rightarrow> with_port L i s (\<lambda>tiny. Ret (if open_count tiny = 0 then - EINVAL else 255)))"

section \<open>Terminal settings\<close>

text \<open>
  The flag bits and ioctl numbers that kernel headers define, and the layout of the two
  structures that ioctls copy to user space.
\<close>

record tty_abi =
  IGNBRK :: c_uint
  BRKINT :: c_uint
  IGNPAR :: c_uint
  PARMRK :: c_uint
  INPCK :: c_uint
  IXON :: c_uint
  IXOFF :: c_uint
  CSIZE :: c_uint
  CS5 :: c_uint
  CS6 :: c_uint
  CS7 :: c_uint
  CS8 :: c_uint
  CSTOPB :: c_uint
  PARENB :: c_uint
  PARODD :: c_uint
  CRTSCTS :: c_uint
  VSTART :: nat
  VSTOP :: nat
  TIOCM_DTR :: c_uint
  TIOCM_RTS :: c_uint
  TIOCM_CTS :: c_uint
  TIOCM_CAR :: c_uint
  TIOCM_RNG :: c_uint
  TIOCM_DSR :: c_uint
  TIOCM_LOOP :: c_uint
  TIOCGSERIAL :: c_uint
  TIOCMIWAIT :: c_uint
  TIOCGICOUNT :: c_uint
  ASYNC_SKIP_TEST :: c_int
  ASYNC_AUTO_IRQ :: c_int
  tty_get_baud_rate :: "ktermios \<Rightarrow> c_int"
  serial_bytes :: "serial_struct \<Rightarrow> byte list"
  icount_bytes :: "async_icount \<times> c_int list \<Rightarrow> byte list"

text \<open>The values of \<open>asm-generic\<close> (\<open>TIOCM_CD\<close> and \<open>TIOCM_RI\<close> are \<open>TIOCM_CAR\<close> and \<open>TIOCM_RNG\<close>).\<close>

definition linux_abi :: tty_abi where
  "linux_abi = \<lparr>IGNBRK = 0x1, BRKINT = 0x2, IGNPAR = 0x4, PARMRK = 0x8, INPCK = 0x10,
     IXON = 0x400, IXOFF = 0x1000, CSIZE = 0x30, CS5 = 0, CS6 = 0x10, CS7 = 0x20, CS8 = 0x30,
     CSTOPB = 0x40, PARENB = 0x100, PARODD = 0x200, CRTSCTS = 0x80000000, VSTART = 8, VSTOP = 9,
     TIOCM_DTR = 0x2, TIOCM_RTS = 0x4, TIOCM_CTS = 0x20, TIOCM_CAR = 0x40, TIOCM_RNG = 0x80,
     TIOCM_DSR = 0x100, TIOCM_LOOP = 0x8000, TIOCGSERIAL = 0x541E, TIOCMIWAIT = 0x545C,
     TIOCGICOUNT = 0x545D, ASYNC_SKIP_TEST = 0x40, ASYNC_AUTO_IRQ = 0x400000,
     tty_get_baud_rate = (\<lambda>t. 9600), serial_bytes = (\<lambda>x. []), icount_bytes = (\<lambda>x. [])\<rparr>"

definition RELEVANT_IFLAG :: "tty_abi \<Rightarrow> c_uint \<Rightarrow> c_uint" where
  "RELEVANT_IFLAG A iflag = iflag AND (IGNBRK A OR BRKINT A OR IGNPAR A OR PARMRK A OR INPCK A)"

definition has_bit :: "c_uint \<Rightarrow> c_uint \<Rightarrow> bool" where
  "has_bit x b \<longleftrightarrow> x AND b \<noteq> 0"

text \<open>The kernel log lines of \<open>tiny_set_termios\<close>.\<close>

datatype termios_msg =
    Nothing_to_change
  | Data_bits nat
  | Parity_odd
  | Parity_even
  | Parity_none
  | Stop_bits nat
  | Rts_cts bool
  | Inbound "(byte \<times> byte) option"
  | Outbound "(byte \<times> byte) option"
  | Baud_rate c_int

definition data_bits :: "tty_abi \<Rightarrow> c_uint \<Rightarrow> nat" where
  "data_bits A cflag =
     (let sz = cflag AND CSIZE A in if sz = CS5 A then 5 else if sz = CS6 A then 6 else if sz = CS7 A then 7 else 8)"

definition software_flow :: "tty_abi \<Rightarrow> ktermios \<Rightarrow> termios_msg list" where
  "software_flow A t =
     (let stop_char = c_cc t ! VSTOP A; start_char = c_cc t ! VSTART A
      in if has_bit (c_iflag t) (IXOFF A) \<or> has_bit (c_iflag t) (IXON A)
         then [if has_bit (c_iflag t) (IXOFF A) then Inbound (Some (start_char, stop_char)) else Inbound None,
               if has_bit (c_iflag t) (IXON A) then Outbound (Some (start_char, stop_char)) else Outbound None]
         else [])"

definition tiny_set_termios :: "tty_abi \<Rightarrow> ktermios \<Rightarrow> ktermios option \<Rightarrow> termios_msg list" where
  "tiny_set_termios A t old_termios =
     (let cflag = c_cflag t
      in if (case old_termios of None \<Rightarrow> False | Some old \<Rightarrow>
               cflag = c_cflag old \<and> RELEVANT_IFLAG A (c_iflag t) = RELEVANT_IFLAG A (c_iflag old))
         then [Nothing_to_change]
         else [Data_bits (data_bits A cflag),
               if has_bit cflag (PARENB A)
               then if has_bit cflag (PARODD A) then Parity_odd else Parity_even
               else Parity_none,
               if has_bit cflag (CSTOPB A) then Stop_bits 2 else Stop_bits 1,
               Rts_cts (has_bit cflag (CRTSCTS A))] @ software_flow A t @ [Baud_rate (tty_get_baud_rate A t)])"

section \<open>Modem lines\<close>

definition MCR_DTR :: c_uint where "MCR_DTR = 0x01"
definition MCR_RTS :: c_uint where "MCR_RTS = 0x02"
definition MCR_LOOP :: c_uint where "MCR_LOOP = 0x04"
definition MSR_CTS :: c_uint where "MSR_CTS = 0x08"
definition MSR_CD :: c_uint where "MSR_CD = 0x10"
definition MSR_RI :: c_uint where "MSR_RI = 0x20"
definition MSR_DSR :: c_uint where "MSR_DSR = 0x40"

text \<open>\<open>tty->driver_data\<close> is followed without a check for NULL.\<close>

definition tty_port :: "nat \<Rightarrow> 'l tiny_state \<Rightarrow> (nat \<times> 'l tiny_serial) outcome" where
  "tty_port j s =
     (case driver_data (ttys s j) of
        None \<Rightarrow> Fault NullDeref
      | Some i \<Rightarrow> obind (deref_tiny i s) (\<lambda>tiny. Ret (i, tiny)))"

definition modem_bits :: "tty_abi \<Rightarrow> c_uint \<Rightarrow> c_uint \<Rightarrow> c_uint" where
  "modem_bits A ms mc =
     (if has_bit mc MCR_DTR then TIOCM_DTR A else 0) OR
     (if has_bit mc MCR_RTS then TIOCM_RTS A else 0) OR
     (if has_bit mc MCR_LOOP then TIOCM_LOOP A else 0) OR
     (if has_bit ms MSR_CTS then TIOCM_CTS A else 0) OR
     (if has_bit ms MSR_CD then TIOCM_CAR A else 0) OR
     (if has_bit ms MSR_RI then TIOCM_RNG A else 0) OR
     (if has_bit ms MSR_DSR then TIOCM_DSR A else 0)"

definition tiny_tiocmget :: "tty_abi \<Rightarrow> nat \<Rightarrow> 'l tiny_state \<Rightarrow> c_int outcome" where
  "tiny_tiocmget A j s = obind (tty_port j s) (\<lambda>(i, tiny). Ret (modem_bits A (msr tiny) (mcr tiny)))"

definition new_mcr :: "tty_abi \<Rightarrow> c_uint \<Rightarrow> c_uint \<Rightarrow> c_uint \<Rightarrow> c_uint" where
  "new_mcr A set_bits clear_bits mcr0 =
     (let mcr = (if has_bit set_bits (TIOCM_RTS A) then mcr0 OR MCR_RTS else mcr0);
          mcr = (if has_bit set_bits (TIOCM_DTR A) then mcr OR MCR_RTS else mcr);
          mcr = (if has_bit clear_bits (TIOCM_RTS A) then mcr AND NOT MCR_RTS else mcr);
          mcr = (if has_bit clear_bits (TIOCM_DTR A) then mcr AND NOT MCR_RTS else mcr)
      in mcr)"

definition tiny_tiocmset ::
    "tty_abi \<Rightarrow> nat \<Rightarrow> c_uint \<Rightarrow> c_uint \<Rightarrow> 'l tiny_state \<Rightarrow> (c_int \<times> 'l tiny_state) outcome" where
  "tiny_tiocmset A j set_bits clear_bits s =
     obind (tty_port j s) (\<lambda>(i, tiny).
       Ret (0, put_tiny i (tiny\<lparr>mcr := new_mcr A set_bits clear_bits (mcr tiny)\<rparr>) s))"

section \<open>ioctl\<close>

text \<open>\<open>memset(&tmp, 0, sizeof(tmp))\<close> and the assignments; \<open>5*HZ\<close> goes into 16 bits.\<close>

definition get_serial :: "'l tty_kernel \<Rightarrow> tty_abi \<Rightarrow> serial_struct \<Rightarrow> serial_struct" where
  "get_serial K A x = \<lparr>ss_type = ss_type x, line = line x, port = port x, irq = irq x,
     flags = ASYNC_SKIP_TEST A OR ASYNC_AUTO_IRQ A, xmit_fifo_size = xmit_fifo_size x,
     custom_divisor = custom_divisor x, baud_base = baud_base x, close_delay = ucast (5 * HZ K),
     io_type = io_type x, hub6 = hub6 x, closing_wait = ucast (30 * HZ K)\<rparr>"

definition tiny_ioctl_tiocgserial ::
    "'l tty_kernel \<Rightarrow> tty_abi \<Rightarrow> uaccess \<Rightarrow> nat \<Rightarrow> c_uint \<Rightarrow> c_ulong \<Rightarrow> 'l tiny_state \<Rightarrow>
      (c_int \<times> byte list) outcome" where
  "tiny_ioctl_tiocgserial K A U j cmd arg s =
     (if cmd = TIOCGSERIAL A
      then if arg = 0 then Ret (- EFAULT, [])
           else obind (tty_port j s) (\<lambda>(i, tiny).
                  let (left, out) = copy_to_user U arg (serial_bytes A (get_serial K A (serial tiny)))
                  in if left \<noteq> 0 then Ret (- EFAULT, out) else Ret (0, out))
      else Ret (- ENOIOCTLCMD, []))"

text \<open>
  \<open>TIOCMIWAIT\<close> sleeps in a loop. The list gives, for each time the sleeper is woken,
  whether a signal is pending and the counters at that time; at its end it still sleeps.
  \<open>add_wait_queue\<close> on memory that is not a list head is a kernel bug.
\<close>

fun miwait_loop :: "tty_abi \<Rightarrow> c_ulong \<Rightarrow> async_icount \<Rightarrow> (bool \<times> async_icount) list \<Rightarrow> c_int outcome" where
  "miwait_loop A arg cprev [] = Block"
| "miwait_loop A arg cprev ((signal, cnow) # wakes) =
     (if signal then Ret (- ERESTARTSYS)
      else if rng cnow = rng cprev \<and> dsr cnow = dsr cprev \<and> dcd cnow = dcd cprev \<and> cts cnow = cts cprev
      then Ret (- EIO)
      else if has_bit (ucast arg) (TIOCM_RNG A) \<and> rng cnow \<noteq> rng cprev \<or>
              has_bit (ucast arg) (TIOCM_DSR A) \<and> dsr cnow \<noteq> dsr cprev \<or>
              has_bit (ucast arg) (TIOCM_CAR A) \<and> dcd cnow \<noteq> dcd cprev \<or>
              has_bit (ucast arg) (TIOCM_CTS A) \<and> cts cnow \<noteq> cts cprev
      then Ret 0
      else miwait_loop A arg cnow wakes)"

definition tiny_ioctl_tiocmiwait ::
    "tty_abi \<Rightarrow> (bool \<times> async_icount) list \<Rightarrow> nat \<Rightarrow> c_uint \<Rightarrow> c_ulong \<Rightarrow> 'l tiny_state \<Rightarrow> c_int outcome" where
  "tiny_ioctl_tiocmiwait A wakes j cmd arg s =
     (if cmd = TIOCMIWAIT A
      then obind (tty_port j s) (\<lambda>(i, tiny).
             if wait tiny = List_head then miwait_loop A arg (icount tiny) wakes else Fault BadState)
      else Ret (- ENOIOCTLCMD))"

text \<open>The local \<open>icount\<close> has reserved words that no statement sets: \<open>stack\<close> is their contents.\<close>

definition tiny_ioctl_tiocgicount ::
    "tty_abi \<Rightarrow> uaccess \<Rightarrow> c_int list \<Rightarrow> nat \<Rightarrow> c_uint \<Rightarrow> c_ulong \<Rightarrow> 'l tiny_state \<Rightarrow>
      (c_int \<times> byte list) outcome" where
  "tiny_ioctl_tiocgicount A U stack j cmd arg s =
     (if cmd = TIOCGICOUNT A
      then obind (tty_port j s) (\<lambda>(i, tiny).
             let cnow = icount tiny;
                 (left, out) = copy_to_user U arg (icount_bytes A (cnow, stack))
             in if left \<noteq> 0 then Ret (- EFAULT, out) else Ret (0, out))
      else Ret (- ENOIOCTLCMD, []))"

definition tiny_ioctl ::
    "'l tty_kernel \<Rightarrow> tty_abi \<Rightarrow> uaccess \<Rightarrow> (bool \<times> async_icount) list \<Rightarrow> c_int list \<Rightarrow> nat \<Rightarrow> c_uint \<Rightarrow>
      c_ulong \<Rightarrow> 'l tiny_state \<Rightarrow> (c_int \<times> byte list) outcome" where
  "tiny_ioctl K A U wakes stack j cmd arg s =
     (if cmd = TIOCGSERIAL A then tiny_ioctl_tiocgserial K A U j cmd arg s
      else if cmd = TIOCMIWAIT A then obind (tiny_ioctl_tiocmiwait A wakes j cmd arg s) (\<lambda>r. Ret (r, []))
      else if cmd = TIOCGICOUNT A then tiny_ioctl_tiocgicount A U stack j cmd arg s
      else Ret (- ENOIOCTLCMD, []))"

section \<open>Lemmas\<close>

lemma has_bit_0 [simp]: "\<not> has_bit 0 b"
  by (simp add: has_bit_def)

lemma has_bit_or: "has_bit (x OR y) b \<longleftrightarrow> has_bit x b \<or> has_bit y b"
  by (auto simp: has_bit_def bit_eq_iff bit_simps)

lemma has_bit_or_mask: "has_bit x (a OR b) \<longleftrightarrow> has_bit x a \<or> has_bit x b"
  by (auto simp: has_bit_def bit_eq_iff bit_simps)

lemma has_bit_disjoint: "x AND y = 0 \<Longrightarrow> \<not> has_bit x y"
  by (simp add: has_bit_def)

lemma new_mcr_rts:
  "has_bit (new_mcr A st cl m) MCR_RTS \<longleftrightarrow>
     (has_bit m MCR_RTS \<or> has_bit st (TIOCM_RTS A OR TIOCM_DTR A)) \<and>
     \<not> has_bit cl (TIOCM_RTS A OR TIOCM_DTR A)"
proof -
  have 1: "has_bit (x OR MCR_RTS) MCR_RTS" for x
    by (simp add: has_bit_or) (simp add: has_bit_def MCR_RTS_def)
  have 2: "\<not> has_bit (x AND NOT MCR_RTS) MCR_RTS" for x
    by (auto simp: has_bit_def bit_eq_iff bit_simps)
  show ?thesis by (auto simp: new_mcr_def Let_def has_bit_or_mask 1 2)
qed

lemma new_mcr_rest: "new_mcr A st cl m AND NOT MCR_RTS = m AND NOT MCR_RTS"
proof -
  have 1: "(x OR MCR_RTS) AND NOT MCR_RTS = x AND NOT MCR_RTS" for x
    by (auto simp: bit_eq_iff bit_simps)
  have 2: "(x AND NOT MCR_RTS) AND NOT MCR_RTS = x AND NOT MCR_RTS" for x
    by (auto simp: bit_eq_iff bit_simps)
  show ?thesis by (simp add: new_mcr_def Let_def 1 2)
qed

lemma has_bit_outside: "b AND m = 0 \<Longrightarrow> has_bit (x AND NOT m) b \<longleftrightarrow> has_bit x b" for m :: c_uint
proof -
  assume "b AND m = 0"
  then have "(x AND NOT m) AND b = x AND b"
    by (auto simp: bit_eq_iff bit_simps)
  then show ?thesis by (simp add: has_bit_def)
qed

lemma new_mcr_other:
  assumes "b AND MCR_RTS = 0"
  shows "has_bit (new_mcr A st cl m) b \<longleftrightarrow> has_bit m b"
  using has_bit_outside [OF assms, of "new_mcr A st cl m"] has_bit_outside [OF assms, of m]
  by (simp add: new_mcr_rest)

lemma deref_put [simp]:
  "i < length (tiny_table s) \<Longrightarrow> deref_tiny i (put_tiny i t s) = Ret t"
  by (simp add: deref_tiny_def put_tiny_def)

lemma put_tiny_simps [simp]:
  "ttys (put_tiny i t s) = ttys s" "length (tiny_table (put_tiny i t s)) = length (tiny_table s)"
  "tiny_table (put_tiny i t s) = (tiny_table s)[i := Some t]"
  "tiny_tty_driver (put_tiny i t s) = tiny_tty_driver s"
  by (simp_all add: put_tiny_def)

lemma deref_tiny_Ret_iff:
  "deref_tiny i s = Ret t \<longleftrightarrow> i < length (tiny_table s) \<and> tiny_table s ! i = Some t"
  by (auto simp: deref_tiny_def split: option.splits)

lemma tty_port_Ret_iff:
  "tty_port j s = Ret (i, t) \<longleftrightarrow>
     driver_data (ttys s j) = Some i \<and> i < length (tiny_table s) \<and> tiny_table s ! i = Some t"
  by (auto simp: tty_port_def obind_Ret_iff deref_tiny_Ret_iff split: option.splits)

section \<open>Properties of the settings\<close>

text \<open>The \<open>TIOCM\<close> bits of the two outputs are apart from each other and from the rest.\<close>

definition tiocm_ok :: "tty_abi \<Rightarrow> bool" where
  "tiocm_ok A \<longleftrightarrow> TIOCM_DTR A \<noteq> 0 \<and> TIOCM_RTS A \<noteq> 0 \<and> TIOCM_DTR A AND TIOCM_RTS A = 0 \<and>
     (\<forall>x \<in> {TIOCM_LOOP A, TIOCM_CTS A, TIOCM_CAR A, TIOCM_RNG A, TIOCM_DSR A}.
        x AND TIOCM_DTR A = 0 \<and> x AND TIOCM_RTS A = 0)"

lemma modem_bits_outputs:
  assumes "tiocm_ok A"
  shows "has_bit (modem_bits A ms mc) (TIOCM_DTR A) \<longleftrightarrow> has_bit mc MCR_DTR"
    and "has_bit (modem_bits A ms mc) (TIOCM_RTS A) \<longleftrightarrow> has_bit mc MCR_RTS"
proof -
  have if_bit: "has_bit (if c then x else 0) b \<longleftrightarrow> c \<and> has_bit x b" for c x b
    by simp
  have self: "has_bit (TIOCM_DTR A) (TIOCM_DTR A)" "has_bit (TIOCM_RTS A) (TIOCM_RTS A)"
    using assms by (simp_all add: tiocm_ok_def has_bit_def)
  have "TIOCM_RTS A AND TIOCM_DTR A = 0" using assms by (simp add: tiocm_ok_def ac_simps)
  then have other: "\<not> has_bit (TIOCM_RTS A) (TIOCM_DTR A)" "\<not> has_bit (TIOCM_DTR A) (TIOCM_RTS A)"
    "x \<in> {TIOCM_LOOP A, TIOCM_CTS A, TIOCM_CAR A, TIOCM_RNG A, TIOCM_DSR A} \<Longrightarrow>
       \<not> has_bit x (TIOCM_DTR A) \<and> \<not> has_bit x (TIOCM_RTS A)" for x
    using assms by (auto simp: tiocm_ok_def intro!: has_bit_disjoint)
  show "has_bit (modem_bits A ms mc) (TIOCM_DTR A) \<longleftrightarrow> has_bit mc MCR_DTR"
    and "has_bit (modem_bits A ms mc) (TIOCM_RTS A) \<longleftrightarrow> has_bit mc MCR_RTS"
    by (simp_all add: modem_bits_def has_bit_or if_bit self other del: if_split)
qed

text \<open>No call of \<open>tiny_tiocmset\<close> moves DTR: whatever is set or cleared, the next \<open>tiny_tiocmget\<close>
  reports DTR as before, and RTS is raised by a request for either line and dropped by
  one, a drop winning over a raise.\<close>

lemma tiny_dtr_never_moves:
  assumes "tiocm_ok A" and "tiny_tiocmget A j s = Ret r" and "tiny_tiocmset A j st cl s = Ret (ret, s')"
  shows "ret = 0 \<and> (\<exists>r'. tiny_tiocmget A j s' = Ret r' \<and>
     (has_bit r' (TIOCM_DTR A) \<longleftrightarrow> has_bit r (TIOCM_DTR A)) \<and>
     (has_bit r' (TIOCM_RTS A) \<longleftrightarrow>
        (has_bit r (TIOCM_RTS A) \<or> has_bit st (TIOCM_RTS A OR TIOCM_DTR A)) \<and>
        \<not> has_bit cl (TIOCM_RTS A OR TIOCM_DTR A)))"
proof -
  obtain i t where p: "tty_port j s = Ret (i, t)" and r: "r = modem_bits A (msr t) (mcr t)"
    using assms(2) by (auto simp: tiny_tiocmget_def obind_Ret_iff)
  let ?m = "new_mcr A st cl (mcr t)"
  have s': "ret = 0" "s' = put_tiny i (t\<lparr>mcr := ?m\<rparr>) s"
    using assms(3) p by (simp_all add: tiny_tiocmset_def)
  have "tty_port j s' = Ret (i, t\<lparr>mcr := ?m\<rparr>)"
    using p by (simp add: s' tty_port_Ret_iff)
  then have get: "tiny_tiocmget A j s' = Ret (modem_bits A (msr t) ?m)"
    by (simp add: tiny_tiocmget_def)
  have "has_bit ?m MCR_DTR \<longleftrightarrow> has_bit (mcr t) MCR_DTR"
    by (rule new_mcr_other) (simp add: MCR_DTR_def MCR_RTS_def)
  with get show ?thesis
    by (simp add: s' r modem_bits_outputs [OF assms(1)] new_mcr_rts)
qed

text \<open>One opened port in slot 0, for concrete runs; all its counters and lines are clear.\<close>

definition idle_icount :: async_icount where
  "idle_icount = \<lparr>cts = 0, dsr = 0, rng = 0, dcd = 0, rx = 0, tx = 0, frame = 0, overrun = 0,
     parity = 0, brk = 0, buf_overrun = 0\<rparr>"

definition some_serial :: serial_struct where
  "some_serial = \<lparr>ss_type = 0, line = 0, port = 0, irq = 0, flags = 0, xmit_fifo_size = 0,
     custom_divisor = 0, baud_base = 0, close_delay = 0, io_type = 0, hub6 = 0, closing_wait = 0\<rparr>"

definition some_port :: "nat tiny_serial" where
  "some_port = \<lparr>tiny_ptr = 4096, tty = 0, open_count = 1, sem = 1,
     timer = Some \<lparr>timer_ptr = 8192, expires = 0, timer_data = 0, timer_function = Tiny_timer, pending = True\<rparr>,
     msr = 0, mcr = 0, serial = some_serial, wait = List_head, icount = idle_icount\<rparr>"

definition some_tty :: "tty_struct" where
  "some_tty = \<lparr>index = 0, driver_data = Some 0,
     termios = \<lparr>c_iflag = 0, c_cflag = 0, c_cc = []\<rparr>, flip_buffer = []\<rparr>"

definition open_state :: "nat tiny_state" where
  "open_state = \<lparr>tiny_table = [Some some_port, None, None, None], ttys = (\<lambda>_. some_tty), tiny_tty_driver = 4096\<rparr>"

lemma open_state_port [simp]: "tty_port j open_state = Ret (0, some_port)"
  by (simp add: tty_port_Ret_iff open_state_def some_tty_def)

lemma linux_tiocm_ok: "tiocm_ok linux_abi"
  by (simp add: tiocm_ok_def linux_abi_def)

lemma tiny_dtr_never_moves_witness:
  "\<exists>r'. tiny_tiocmget linux_abi 0 (snd (0 :: c_int, put_tiny 0 (some_port\<lparr>mcr := 2\<rparr>) open_state)) = Ret r' \<and>
     \<not> has_bit r' (TIOCM_DTR linux_abi) \<and> has_bit r' (TIOCM_RTS linux_abi)"
proof -
  have m: "new_mcr linux_abi 2 0 (mcr some_port) = 2"
    by (simp add: new_mcr_def linux_abi_def has_bit_def some_port_def MCR_RTS_def)
  have get: "tiny_tiocmget linux_abi 0 open_state = Ret 0"
    by (simp add: tiny_tiocmget_def modem_bits_def some_port_def)
  have set: "tiny_tiocmset linux_abi 0 2 0 open_state = Ret (0, put_tiny 0 (some_port\<lparr>mcr := 2\<rparr>) open_state)"
    by (simp add: tiny_tiocmset_def m)
  have bits: "has_bit 2 (TIOCM_RTS linux_abi OR TIOCM_DTR linux_abi)"
    by (simp add: linux_abi_def has_bit_def)
  from tiny_dtr_never_moves [OF linux_tiocm_ok get set] bits show ?thesis by simp
qed

section \<open>Waiting for a modem line\<close>

definition same_lines :: "async_icount \<Rightarrow> async_icount \<Rightarrow> bool" where
  "same_lines c d \<longleftrightarrow> rng c = rng d \<and> dsr c = dsr d \<and> dcd c = dcd d \<and> cts c = cts d"

definition wanted_change :: "tty_abi \<Rightarrow> c_ulong \<Rightarrow> async_icount \<Rightarrow> async_icount \<Rightarrow> bool" where
  "wanted_change A arg c d \<longleftrightarrow> (\<exists>(bit, count_of) \<in> {(TIOCM_RNG A, rng), (TIOCM_DSR A, dsr), (TIOCM_CAR A, dcd), (TIOCM_CTS A, cts)}.
     has_bit (ucast arg) bit \<and> count_of d \<noteq> count_of c)"

lemma miwait_loop_step:
  "miwait_loop A arg c ((signal, d) # wakes) =
     (if signal then Ret (- ERESTARTSYS) else if same_lines c d then Ret (- EIO)
      else if wanted_change A arg c d then Ret 0 else miwait_loop A arg d wakes)"
  by (auto simp: same_lines_def wanted_change_def)

text \<open>The counters before wake-up \<open>k\<close>: those of the wake-up before, or of the start.\<close>

definition before_wake :: "async_icount \<Rightarrow> (bool \<times> async_icount) list \<Rightarrow> nat \<Rightarrow> async_icount" where
  "before_wake c wakes k = (c # map snd wakes) ! k"

lemma before_wake_Cons [simp]:
  "before_wake c (w # ws) 0 = c" "before_wake c (w # ws) (Suc k) = before_wake (snd w) ws k"
  by (simp_all add: before_wake_def)

lemma ex_less_Suc: "(\<exists>k < Suc n. P k) \<longleftrightarrow> P 0 \<or> (\<exists>k < n. P (Suc k))"
  by (metis gr0_conv_Suc less_Suc_eq_0_disj)

lemma all_less_Suc: "(\<forall>k < Suc n. P k) \<longleftrightarrow> P 0 \<and> (\<forall>k < n. P (Suc k))"
  by (metis less_Suc_eq_0_disj)

lemma miwait_loop_iff:
  "miwait_loop A arg c wakes = Ret r \<longleftrightarrow>
     (\<exists>k < length wakes.
        (\<forall>i < k. \<not> fst (wakes ! i) \<and> \<not> same_lines (before_wake c wakes i) (snd (wakes ! i)) \<and>
           \<not> wanted_change A arg (before_wake c wakes i) (snd (wakes ! i))) \<and>
        r = (if fst (wakes ! k) then - ERESTARTSYS
             else if same_lines (before_wake c wakes k) (snd (wakes ! k)) then - EIO else 0) \<and>
        (r = 0 \<longrightarrow> wanted_change A arg (before_wake c wakes k) (snd (wakes ! k))))"
proof (induction wakes arbitrary: c)
  case Nil
  then show ?case by simp
next
  case (Cons w ws)
  obtain sg d where w: "w = (sg, d)" by (cases w)
  show ?case
  proof (cases "sg \<or> same_lines c d \<or> wanted_change A arg c d")
    case True
    then show ?thesis
      by (auto simp: w miwait_loop_step ex_less_Suc all_less_Suc simp del: miwait_loop.simps)
  next
    case False
    then show ?thesis
      using Cons.IH [of d]
      by (simp add: w miwait_loop_step ex_less_Suc all_less_Suc del: miwait_loop.simps)
  qed
qed

text \<open>The three ioctl numbers are different.\<close>

definition ioctl_ok :: "tty_abi \<Rightarrow> bool" where
  "ioctl_ok A \<longleftrightarrow> TIOCGSERIAL A \<noteq> TIOCMIWAIT A \<and> TIOCGSERIAL A \<noteq> TIOCGICOUNT A \<and> TIOCMIWAIT A \<noteq> TIOCGICOUNT A"

lemma linux_ioctl_ok: "ioctl_ok linux_abi"
  by (simp add: ioctl_ok_def linux_abi_def)

text \<open>C28: \<open>TIOCMIWAIT\<close> on an open port returns at the first wake-up with a signal pending
  (\<open>-ERESTARTSYS\<close>), with no line changed since the wake-up before (\<open>-EIO\<close>) or with a change
  of a line that was asked for (0), and sleeps through every wake-up before that one. It
  returns at all only if the wait queue, which the driver never initialises, happens to
  be one.\<close>

theorem tiny_miwait_result:
  assumes "ioctl_ok A" and "tty_port j s = Ret (i, t)"
  shows "tiny_ioctl K A U wakes stack j (TIOCMIWAIT A) arg s = Ret (r, out) \<longleftrightarrow>
    wait t = List_head \<and> out = [] \<and>
    (\<exists>k < length wakes.
      (\<forall>n < k. \<not> fst (wakes ! n) \<and> \<not> same_lines (before_wake (icount t) wakes n) (snd (wakes ! n)) \<and>
         \<not> wanted_change A arg (before_wake (icount t) wakes n) (snd (wakes ! n))) \<and>
      r = (if fst (wakes ! k) then - ERESTARTSYS
           else if same_lines (before_wake (icount t) wakes k) (snd (wakes ! k)) then - EIO else 0) \<and>
      (r = 0 \<longrightarrow> wanted_change A arg (before_wake (icount t) wakes k) (snd (wakes ! k))))"
proof -
  have "tiny_ioctl K A U wakes stack j (TIOCMIWAIT A) arg s = Ret (r, out) \<longleftrightarrow>
      wait t = List_head \<and> out = [] \<and> miwait_loop A arg (icount t) wakes = Ret r"
    using assms
    by (cases "miwait_loop A arg (icount t) wakes")
      (auto simp: tiny_ioctl_def ioctl_ok_def tiny_ioctl_tiocmiwait_def)
  then show ?thesis by (simp only: miwait_loop_iff)
qed

theorem tiny_miwait_result_witness:
  "\<forall>K U stack. \<exists>r. tiny_ioctl K linux_abi U [(False, idle_icount\<lparr>cts := 1\<rparr>), (False, idle_icount\<lparr>cts := 1, dcd := 1\<rparr>)]
     stack 0 (TIOCMIWAIT linux_abi) 0x40 open_state = Ret (r, [])"
proof (intro allI)
  fix K :: "nat tty_kernel" and U stack
  let ?w = "[(False, idle_icount\<lparr>cts := 1\<rparr>), (False, idle_icount\<lparr>cts := 1, dcd := 1\<rparr>)]"
  have r: "0 = (if fst (?w ! 1) then - ERESTARTSYS
       else if same_lines (before_wake (icount some_port) ?w 1) (snd (?w ! 1)) then - EIO else 0 :: c_int)"
    and n: "\<forall>n < 1. \<not> fst (?w ! n) \<and> \<not> same_lines (before_wake (icount some_port) ?w n) (snd (?w ! n)) \<and>
         \<not> wanted_change linux_abi 0x40 (before_wake (icount some_port) ?w n) (snd (?w ! n))"
    and w: "wanted_change linux_abi 0x40 (before_wake (icount some_port) ?w 1) (snd (?w ! 1))"
    by (simp_all add: same_lines_def wanted_change_def linux_abi_def idle_icount_def before_wake_def
        has_bit_def some_port_def)
  have q: "wait some_port = List_head" by (simp add: some_port_def)
  show "\<exists>r. tiny_ioctl K linux_abi U ?w stack 0 (TIOCMIWAIT linux_abi) 0x40 open_state = Ret (r, [])"
    using tiny_miwait_result [OF linux_ioctl_ok open_state_port, of K U ?w stack 0 "0x40" 0 "[]"] q r n w
    by (intro exI [of _ 0]) fastforce
qed

section \<open>Writing\<close>

lemma with_portE:
  assumes "with_port L i s body = Ret (r, s')"
  obtains t x where "deref_tiny i s = Ret t" "body (t\<lparr>sem := x\<rparr>) = Ret r"
    "s' = put_tiny i (t\<lparr>sem := lk_release L x\<rparr>) s"
  using assms by (fastforce simp: with_port_def obind_Ret_iff Let_def split: option.splits)

text \<open>\<open>tiny_write\<close> never reports a byte written: on an open port it prints exactly the
  \<open>count\<close> bytes of the caller and returns \<open>-EINVAL\<close>, on a port that is not open it prints
  nothing and returns \<open>-EINVAL\<close> or \<open>-ENODEV\<close>; it changes the port's semaphore only.\<close>

lemma tiny_write_never_succeeds:
  assumes "tiny_write L j buf cnt s = Ret ((r, out), s')"
  shows "(case driver_data (ttys s j) of
            None \<Rightarrow> r = - ENODEV \<and> out = [] \<and> s' = s
          | Some i \<Rightarrow> \<exists>t x. deref_tiny i s = Ret t \<and> r = - EINVAL \<and> s' = put_tiny i (t\<lparr>sem := x\<rparr>) s \<and>
              out = (if open_count t = 0 then [] else take (nat (sint cnt)) buf))"
proof (cases "driver_data (ttys s j)")
  case None
  then show ?thesis using assms by (simp add: tiny_write_def)
next
  case (Some i)
  let ?body = "\<lambda>t. if open_count t = 0 then Ret (- EINVAL, [])
                   else obind (printed_bytes buf cnt) (\<lambda>out. Ret (- EINVAL, out))"
  have "with_port L i s ?body = Ret ((r, out), s')"
    using assms Some by (simp add: tiny_write_def)
  then obtain t x where "deref_tiny i s = Ret t" "?body (t\<lparr>sem := x\<rparr>) = Ret (r, out)"
    "s' = put_tiny i (t\<lparr>sem := lk_release L x\<rparr>) s"
    by (rule with_portE)
  then show ?thesis
    using Some by (auto simp: printed_bytes_def obind_Ret_iff split: if_splits)
qed

lemma tiny_write_never_succeeds_witness:
  "fst (fst (case tiny_write counting_lock 0 [104, 105] 2 open_state of Ret x \<Rightarrow> x | _ \<Rightarrow> ((0, []), open_state)))
     = - EINVAL"
proof -
  have "tiny_write counting_lock 0 [104, 105] 2 open_state =
      Ret ((- EINVAL, [104, 105]), put_tiny 0 (some_port\<lparr>sem := 1\<rparr>) open_state)"
    by (simp add: tiny_write_def with_port_def open_state_def some_tty_def some_port_def deref_tiny_def
        counting_lock_def printed_bytes_def put_tiny_def)
  from tiny_write_never_succeeds [OF this] this show ?thesis by simp
qed

section \<open>Decoding the line settings\<close>

text \<open>What a user asks for, and its flag word: the reference that \<open>tiny_set_termios\<close> decodes.\<close>

datatype parity_mode = No_parity | Even_parity | Odd_parity

record line_setting =
  bits :: nat
  par :: parity_mode
  two_stop_bits :: bool
  rts_cts :: bool

definition flag_if :: "bool \<Rightarrow> c_uint \<Rightarrow> c_uint" where
  "flag_if c b = (if c then b else 0)"

definition encode_setting :: "tty_abi \<Rightarrow> line_setting \<Rightarrow> c_uint" where
  "encode_setting A x =
     (if bits x = 5 then CS5 A else if bits x = 6 then CS6 A else if bits x = 7 then CS7 A else CS8 A) OR
     flag_if (par x \<noteq> No_parity) (PARENB A) OR flag_if (par x = Odd_parity) (PARODD A) OR
     flag_if (two_stop_bits x) (CSTOPB A) OR flag_if (rts_cts x) (CRTSCTS A)"

text \<open>The size codes lie under \<open>CSIZE\<close> and differ; the flags are apart from it and each other.\<close>

definition cflag_ok :: "tty_abi \<Rightarrow> bool" where
  "cflag_ok A \<longleftrightarrow>
     distinct [CS5 A, CS6 A, CS7 A, CS8 A] \<and>
     (\<forall>x \<in> {CS5 A, CS6 A, CS7 A, CS8 A}. x AND CSIZE A = x) \<and>
     (\<forall>x \<in> {PARENB A, PARODD A, CSTOPB A, CRTSCTS A}. x \<noteq> 0 \<and> x AND CSIZE A = 0) \<and>
     PARENB A AND PARODD A = 0 \<and> PARENB A AND CSTOPB A = 0 \<and> PARENB A AND CRTSCTS A = 0 \<and>
     PARODD A AND CSTOPB A = 0 \<and> PARODD A AND CRTSCTS A = 0 \<and> CSTOPB A AND CRTSCTS A = 0"

lemma linux_cflag_ok: "cflag_ok linux_abi"
  by (simp add: cflag_ok_def linux_abi_def)

lemma and_size: "x AND m = x \<Longrightarrow> y AND m = 0 \<Longrightarrow> x AND y = 0" for x y m :: c_uint
proof -
  assume a: "x AND m = x" "y AND m = 0"
  have "x AND y = (x AND m) AND y" by (simp only: a)
  also have "\<dots> = x AND (y AND m)" by (auto simp: bit_eq_iff bit_simps)
  finally show ?thesis by (simp add: a)
qed

lemma conj_or_distrib: "(x OR y) AND b = (x AND b) OR (y AND b)" for x y b :: c_uint
  by (auto simp: bit_eq_iff bit_simps)

lemma has_bit_flag_if: "has_bit (flag_if c x) b \<longleftrightarrow> c \<and> has_bit x b"
  by (simp add: flag_if_def)

lemma flag_if_and: "x AND b = 0 \<Longrightarrow> flag_if c x AND b = 0"
  by (simp add: flag_if_def)

lemma encode_setting_size:
  assumes "cflag_ok A"
  shows "encode_setting A x AND CSIZE A =
    (if bits x = 5 then CS5 A else if bits x = 6 then CS6 A else if bits x = 7 then CS7 A else CS8 A)"
proof -
  let ?sz = "if bits x = 5 then CS5 A else if bits x = 6 then CS6 A else if bits x = 7 then CS7 A else CS8 A"
  have "?sz AND CSIZE A = ?sz"
    using assms by (simp add: cflag_ok_def)
  moreover have "flag_if c (PARENB A) AND CSIZE A = 0" "flag_if c (PARODD A) AND CSIZE A = 0"
    "flag_if c (CSTOPB A) AND CSIZE A = 0" "flag_if c (CRTSCTS A) AND CSIZE A = 0" for c
    using assms by (simp_all add: cflag_ok_def flag_if_def)
  ultimately show ?thesis
    unfolding encode_setting_def conj_or_distrib by (simp del: if_split)
qed

lemma encode_setting_flags:
  assumes "cflag_ok A"
  shows "has_bit (encode_setting A x) (PARENB A) \<longleftrightarrow> par x \<noteq> No_parity"
    and "has_bit (encode_setting A x) (PARODD A) \<longleftrightarrow> par x = Odd_parity"
    and "has_bit (encode_setting A x) (CSTOPB A) \<longleftrightarrow> two_stop_bits x"
    and "has_bit (encode_setting A x) (CRTSCTS A) \<longleftrightarrow> rts_cts x"
proof -
  let ?sz = "if bits x = 5 then CS5 A else if bits x = 6 then CS6 A else if bits x = 7 then CS7 A else CS8 A"
  let ?F = "{PARENB A, PARODD A, CSTOPB A, CRTSCTS A}"
  have self: "has_bit (PARENB A) (PARENB A)" "has_bit (PARODD A) (PARODD A)"
    "has_bit (CSTOPB A) (CSTOPB A)" "has_bit (CRTSCTS A) (CRTSCTS A)"
    using assms by (simp_all add: cflag_ok_def has_bit_def)
  have 1: "?sz AND CSIZE A = ?sz"
    using assms by (simp add: cflag_ok_def)
  have F: "\<forall>b \<in> ?F. b \<noteq> 0 \<and> b AND CSIZE A = 0"
    using assms unfolding cflag_ok_def by (elim conjE)
  have sz: "\<not> has_bit ?sz b" if "b \<in> ?F" for b
    by (rule has_bit_disjoint [OF and_size [OF 1 conjunct2 [OF bspec [OF F that]]]])
  have apart: "\<not> has_bit ?sz (PARENB A)" "\<not> has_bit ?sz (PARODD A)" "\<not> has_bit ?sz (CSTOPB A)"
    "\<not> has_bit ?sz (CRTSCTS A)"
    by (rule sz, simp)+
  have pairs: "\<not> has_bit (PARENB A) (PARODD A)" "\<not> has_bit (PARENB A) (CSTOPB A)"
    "\<not> has_bit (PARENB A) (CRTSCTS A)" "\<not> has_bit (PARODD A) (CSTOPB A)"
    "\<not> has_bit (PARODD A) (CRTSCTS A)" "\<not> has_bit (CSTOPB A) (CRTSCTS A)"
    using assms by (simp_all add: cflag_ok_def has_bit_def)
  have sym: "\<not> has_bit x y \<Longrightarrow> \<not> has_bit y x" for x y
    by (simp add: has_bit_def and.commute)
  note pairs = pairs pairs [THEN sym]
  show "has_bit (encode_setting A x) (PARENB A) \<longleftrightarrow> par x \<noteq> No_parity"
    and "has_bit (encode_setting A x) (PARODD A) \<longleftrightarrow> par x = Odd_parity"
    and "has_bit (encode_setting A x) (CSTOPB A) \<longleftrightarrow> two_stop_bits x"
    and "has_bit (encode_setting A x) (CRTSCTS A) \<longleftrightarrow> rts_cts x"
    unfolding encode_setting_def has_bit_or has_bit_flag_if
    by (simp_all only: self apart pairs simp_thms)
qed



end
