(* ===== verification/Tiny_Tty_Lifecycle.thy ===== *)
theory Tiny_Tty_Lifecycle
  imports Tiny_Tty
begin

text \<open>
  Init, exit and whole runs of the tiny tty driver of \<open>day_12/ex29.c\<close>. A run is a list of
  opens, closes and timer expiries; its specification is a number of users per port. The
  last part splits a timer expiry into the moment the kernel takes the timer out of its
  wheel and the callback's end, so that a close can come in between.
\<close>

section \<open>Init and exit\<close>

definition tiny_image :: "'l tiny_state \<Rightarrow> 'l tiny_state" where
  "tiny_image s = s\<lparr>tiny_table := replicate TINY_TTY_MINORS None, tiny_tty_driver := 0\<rparr>"

definition tiny_init :: "'l tty_kernel \<Rightarrow> 'l tiny_state \<Rightarrow> klog \<Rightarrow> c_int \<times> 'l tiny_state \<times> klog" where
  "tiny_init K s l =
     (let p = alloc_tty_driver K l (of_nat TINY_TTY_MINORS);
          s = s\<lparr>tiny_tty_driver := p\<rparr>;
          l = l @ [Tty (Alloc_tty_driver (of_nat TINY_TTY_MINORS) p)]
      in if p = 0 then (- ENOMEM, s, l)
         else let retval = tty_register_driver K l p;
                  l = l @ [Tty (Tty_register_driver p retval)]
              in if retval \<noteq> 0 then (retval, s, l @ [Tty (Put_tty_driver p)])
                 else (retval, s, l @ map (\<lambda>i. Tty (Tty_register_device p i)) [0..<TINY_TTY_MINORS]))"

text \<open>\<open>while (tiny->open_count) do_close(tiny);\<close>\<close>

lemma obind_cong [fundef_cong]:
  "m = m' \<Longrightarrow> (\<And>x. m' = Ret x \<Longrightarrow> f x = g x) \<Longrightarrow> obind m f = obind m' g"
  by (cases m') auto

lemma do_close_count:
  "do_close L t = Ret t' \<Longrightarrow> open_count t \<noteq> 0 \<Longrightarrow> open_count t' = open_count t - 1"
  by (auto simp: do_close_def obind_Ret_iff Let_def split: option.splits if_splits)

function close_all :: "'l lockops \<Rightarrow> 'l tiny_serial \<Rightarrow> 'l tiny_serial outcome" where
  "close_all L t = (if open_count t = 0 then Ret t else obind (do_close L t) (close_all L))"
  by pat_completeness auto

text \<open>The counter goes down by one each time, as a 32-bit word, so the loop ends.\<close>

termination
proof (relation "measure (\<lambda>(L, t). unat (open_count t))")
  fix L :: "'l lockops" and t t'
  assume "open_count t \<noteq> 0" and "do_close L t = Ret t'"
  then have "open_count t' = open_count t - 1" by (simp add: do_close_count)
  with \<open>open_count t \<noteq> 0\<close> show "((L, t'), (L, t)) \<in> measure (\<lambda>(L, t). unat (open_count t))"
    by (simp add: measure_unat)
qed simp

declare close_all.simps [simp del]

text \<open>\<open>kfree\<close> of a timer that is still in the wheel is a use after free.\<close>

definition free_timer :: "timer_list option \<Rightarrow> klog \<Rightarrow> klog outcome" where
  "free_timer t l =
     (case t of
        None \<Rightarrow> Ret (l @ [Mem (Kfree 0)])
      | Some x \<Rightarrow> (if pending x then Fault BadState else Ret (l @ [Mem (Kfree (timer_ptr x))])))"

definition free_port :: "'l lockops \<Rightarrow> nat \<Rightarrow> 'l tiny_state \<times> klog \<Rightarrow> ('l tiny_state \<times> klog) outcome" where
  "free_port L i = (\<lambda>(s, l).
     case tiny_table s ! i of
       None \<Rightarrow> Ret (s, l)
     | Some tiny \<Rightarrow>
         obind (close_all L tiny) (\<lambda>tiny.
           obind (del_timer (timer tiny)) (\<lambda>t.
             obind (free_timer t l) (\<lambda>l.
               Ret (s\<lparr>tiny_table := (tiny_table s)[i := None]\<rparr>, l @ [Mem (Kfree (tiny_ptr tiny))])))))"

fun for_ports :: "nat list \<Rightarrow> (nat \<Rightarrow> 's \<Rightarrow> 's outcome) \<Rightarrow> 's \<Rightarrow> 's outcome" where
  "for_ports [] body s = Ret s"
| "for_ports (i # is) body s = obind (body i s) (for_ports is body)"

definition tiny_exit :: "'l lockops \<Rightarrow> 'l tiny_state \<Rightarrow> klog \<Rightarrow> ('l tiny_state \<times> klog) outcome" where
  "tiny_exit L s l =
     (let p = tiny_tty_driver s;
          l = l @ map (\<lambda>i. Tty (Tty_unregister_device p i)) [0..<TINY_TTY_MINORS] @ [Tty (Tty_unregister_driver p)]
      in for_ports [0..<TINY_TTY_MINORS] (free_port L) (s, l))"

section \<open>Runs\<close>

datatype tiny_event = Open nat | Close nat | Tick nat

text \<open>A tick of a port whose timer is not in the wheel does not happen.\<close>

definition timer_in_wheel :: "nat \<Rightarrow> 'l tiny_state \<Rightarrow> bool" where
  "timer_in_wheel i s =
     (case deref_tiny i s of
        Ret t \<Rightarrow> (case timer t of None \<Rightarrow> False | Some x \<Rightarrow> pending x)
      | _ \<Rightarrow> False)"

definition tiny_tick :: "'l tty_kernel \<Rightarrow> nat \<Rightarrow> 'l tiny_state \<Rightarrow> klog \<Rightarrow> 'l tiny_state outcome" where
  "tiny_tick K i s l =
     (if timer_in_wheel i s then obind (timer_expires i s) (\<lambda>s. tiny_timer K i s l) else Ret s)"

primrec tiny_step :: "'l lockops \<Rightarrow> 'l tty_kernel \<Rightarrow> tiny_event \<Rightarrow> 'l tiny_state \<Rightarrow> klog \<Rightarrow> ('l tiny_state \<times> klog) outcome" where
  "tiny_step L K (Open j) s l = obind (tiny_open L K j s l) (\<lambda>(ret, s, l). Ret (s, l))"
| "tiny_step L K (Close j) s l = obind (tiny_close L j s) (\<lambda>s. Ret (s, l))"
| "tiny_step L K (Tick i) s l = obind (tiny_tick K i s l) (\<lambda>s. Ret (s, l))"

fun tiny_run :: "'l lockops \<Rightarrow> 'l tty_kernel \<Rightarrow> tiny_event list \<Rightarrow> 'l tiny_state \<Rightarrow> klog \<Rightarrow> ('l tiny_state \<times> klog) outcome" where
  "tiny_run L K [] s l = Ret (s, l)"
| "tiny_run L K (e # es) s l = obind (tiny_step L K e s l) (\<lambda>(s, l). tiny_run L K es s l)"

text \<open>
  The specification: users per port, and the tty structures that were opened. \<open>port_of\<close> is
  the port of a tty structure, its \<open>index\<close>.
\<close>

record spec_state =
  users :: "nat \<Rightarrow> nat"
  attached :: "nat set"

fun spec_step :: "(nat \<Rightarrow> nat) \<Rightarrow> tiny_event \<Rightarrow> spec_state \<Rightarrow> spec_state" where
  "spec_step port_of (Open j) a =
     a\<lparr>users := (users a)(port_of j := Suc (users a (port_of j))), attached := insert j (attached a)\<rparr>"
| "spec_step port_of (Close j) a =
     (if j \<in> attached a then a\<lparr>users := (users a)(port_of j := users a (port_of j) - 1)\<rparr> else a)"
| "spec_step port_of (Tick i) a = a"

definition spec_image :: spec_state where
  "spec_image = \<lparr>users = (\<lambda>_. 0), attached = {}\<rparr>"

definition port_of :: "'l tiny_state \<Rightarrow> nat \<Rightarrow> nat" where
  "port_of s j = nat (sint (index (ttys s j)))"

section \<open>The refinement relation\<close>

definition mem_at :: "ptr \<Rightarrow> resource multiset" where
  "mem_at p = (if p = 0 then {#} else {#Kmem p#})"

definition port_mem :: "'l tiny_serial option \<Rightarrow> resource multiset" where
  "port_mem p = (case p of None \<Rightarrow> {#} | Some t \<Rightarrow>
     mem_at (tiny_ptr t) + (case timer t of None \<Rightarrow> {#} | Some x \<Rightarrow> mem_at (timer_ptr x)))"

definition table_mem :: "'l tiny_state \<Rightarrow> resource multiset" where
  "table_mem s = (\<Sum>i < length (tiny_table s). port_mem (tiny_table s ! i))"

definition port_ok :: "'l lockops \<Rightarrow> nat \<Rightarrow> 'l tiny_serial \<Rightarrow> bool" where
  "port_ok L n t \<longleftrightarrow> sint (open_count t) = int n \<and> lk_free L (sem t) \<and>
     (\<exists>x. timer t = Some x \<and> (pending x \<longleftrightarrow> n \<noteq> 0))"

definition tiny_refines :: "'l lockops \<Rightarrow> nat \<Rightarrow> spec_state \<Rightarrow> 'l tiny_state \<Rightarrow> bool" where
  "tiny_refines L k a s \<longleftrightarrow> length (tiny_table s) = TINY_TTY_MINORS \<and>
     (\<forall>i < TINY_TTY_MINORS. users a i \<le> k \<and>
        (case tiny_table s ! i of None \<Rightarrow> users a i = 0 | Some t \<Rightarrow> port_ok L (users a i) t)) \<and>
     (\<forall>j. driver_data (ttys s j) = (if j \<in> attached a then Some (port_of s j) else None)) \<and>
     (\<forall>j \<in> attached a. tiny_table s ! port_of s j \<noteq> None)"

text \<open>The tty core numbers the ports 0 to 3.\<close>

definition indices_ok :: "'l tiny_state \<Rightarrow> bool" where
  "indices_ok s \<longleftrightarrow> (\<forall>j. 0 \<le> sint (index (ttys s j)) \<and> sint (index (ttys s j)) < int TINY_TTY_MINORS)"

text \<open>Memory never runs out, and a fresh timer object does not look pending.\<close>

definition clean_memory :: "'l tty_kernel \<Rightarrow> bool" where
  "clean_memory K \<longleftrightarrow> (\<forall>l n g. fst (kmalloc K l n g) \<noteq> 0) \<and> (\<forall>l. \<not> pending (timer_garbage K l))"

lemma sint_plus_1: "sint w + 1 < 2 ^ 31 \<Longrightarrow> sint (w + 1) = sint w + 1" for w :: c_int
  using sint_greater_eq [of w]
  by (simp add: sint_word_ariths(1) signed_take_bit_int_eq_self_iff)

lemma sint_minus_1: "0 < sint w \<Longrightarrow> sint (w - 1) = sint w - 1" for w :: c_int
  using sint_lt [of w]
  by (simp add: sint_word_ariths(2) signed_take_bit_int_eq_self_iff)

lemma sint_0_iff: "sint w = 0 \<longleftrightarrow> w = 0" for w :: c_int
  by (metis signed_0 signed_word_eqI)

lemma table_mem_put:
  assumes "i < length (tiny_table s)"
  shows "table_mem (s\<lparr>tiny_table := (tiny_table s)[i := p]\<rparr>) + port_mem (tiny_table s ! i) = table_mem s + port_mem p"
proof -
  let ?n = "length (tiny_table s)"
  have split: "(\<Sum>k < ?n. f k) = f i + (\<Sum>k \<in> {..<?n} - {i}. f k)" for f :: "nat \<Rightarrow> resource multiset"
    using assms by (intro sum.remove) auto
  have same: "(\<Sum>k \<in> {..<?n} - {i}. port_mem ((tiny_table s)[i := p] ! k)) =
      (\<Sum>k \<in> {..<?n} - {i}. port_mem (tiny_table s ! k))"
    by (rule sum.cong) auto
  have "(\<Sum>k < ?n. port_mem ((tiny_table s)[i := p] ! k)) =
      port_mem p + (\<Sum>k \<in> {..<?n} - {i}. port_mem (tiny_table s ! k))"
    using assms by (simp only: split same) simp
  moreover have "(\<Sum>k < ?n. port_mem (tiny_table s ! k)) =
      port_mem (tiny_table s ! i) + (\<Sum>k \<in> {..<?n} - {i}. port_mem (tiny_table s ! k))"
    by (rule split)
  ultimately show ?thesis by (simp add: table_mem_def)
qed

lemma table_mem_ttys [simp]: "table_mem (upd_tty j f s) = table_mem s"
  by (simp add: table_mem_def upd_tty_def)

section \<open>Opening a port\<close>

lemma open_timer_ok:
  assumes "clean_memory K" and "\<And>x. timer t = Some x \<Longrightarrow> \<not> pending x"
  shows "\<exists>x l'. tiny_open_timer K i t l = Ret (0, t\<lparr>timer := Some x\<rparr>, l') \<and> pending x \<and>
    (\<forall>Q. ledger l = Some (Q + port_mem (Some t)) \<longrightarrow>
         ledger l' = Some (Q + port_mem (Some (t\<lparr>timer := Some x\<rparr>))))"
proof (cases "timer t")
  case None
  then show ?thesis
    using assms(1)
    by (auto simp: tiny_open_timer_def clean_memory_def Let_def add_timer_def port_mem_def mem_at_def effect_simps)
next
  case (Some x)
  then show ?thesis
    using assms(2) by (auto simp: tiny_open_timer_def Let_def add_timer_def port_mem_def)
qed

lemma open_rest_ok:
  assumes "lock_laws V L" and "clean_memory K"
    and "sint (open_count t) = int n" and "int n + 1 < 2 ^ 31" and "lk_free L (sem t)"
    and "n = 0 \<Longrightarrow> \<forall>x. timer t = Some x \<longrightarrow> \<not> pending x"
    and "n \<noteq> 0 \<Longrightarrow> \<exists>x. timer t = Some x \<and> pending x"
  shows "\<exists>t' l'. tiny_open_rest L K j i t s l =
      Ret (0, put_tiny i t' (upd_tty j (\<lambda>y. y\<lparr>driver_data := Some i\<rparr>) s), l') \<and> port_ok L (Suc n) t' \<and>
    (\<forall>Q. ledger l = Some (Q + port_mem (Some t)) \<longrightarrow> ledger l' = Some (Q + port_mem (Some t')))"
proof -
  obtain y where y: "lk_acquire L (sem t) = Some y"
    using assms(5) by (auto simp: lk_free_def)
  have free: "lk_free L (lk_release L y)"
    using assms(1) y by (auto simp: lock_laws_def)
  let ?t = "t\<lparr>sem := y, tty := j, open_count := open_count t + 1\<rparr>"
  have cnt: "sint (open_count t + 1) = int (Suc n)"
    using assms(3,4) by (simp add: sint_plus_1)
  have one: "open_count t + 1 = 1 \<longleftrightarrow> n = 0"
    using assms(3) sint_0_iff [of "open_count t"] by auto
  have mem: "port_mem (Some ?t) = port_mem (Some t)" by (simp add: port_mem_def)
  show ?thesis
  proof (cases "n = 0")
    case True
    have np: "timer ?t = Some x \<Longrightarrow> \<not> pending x" for x
      using assms(6) True by simp
    from open_timer_ok [OF assms(2), where t = ?t, OF np] obtain x l' where
      ot: "tiny_open_timer K i ?t l = Ret (0, ?t\<lparr>timer := Some x\<rparr>, l')" "pending x"
      "\<forall>Q. ledger l = Some (Q + port_mem (Some t)) \<longrightarrow>
         ledger l' = Some (Q + port_mem (Some (?t\<lparr>timer := Some x\<rparr>)))"
      unfolding mem by blast
    then show ?thesis
      using True one free cnt by (auto simp: tiny_open_rest_def y Let_def port_ok_def port_mem_def)
  next
    case False
    then show ?thesis
      using one free cnt assms(7) by (auto simp: tiny_open_rest_def y Let_def port_ok_def port_mem_def)
  qed
qed

lemma port_of_upd [simp]: "(\<And>y. index (f y) = index y) \<Longrightarrow> port_of (upd_tty j f s) = port_of s"
  by (auto simp: port_of_def upd_tty_def)

lemma port_of_put [simp]: "port_of (put_tiny i t s) = port_of s"
  by (auto simp: port_of_def)

lemma indices_ok_upd [simp]: "(\<And>y. index (f y) = index y) \<Longrightarrow> indices_ok (upd_tty j f s) = indices_ok s"
  by (auto simp: indices_ok_def upd_tty_def)

lemma indices_ok_put [simp]: "indices_ok (put_tiny i t s) = indices_ok s"
  by (simp add: indices_ok_def)

lemma upd_tty_simps [simp]:
  "tiny_table (upd_tty j f s) = tiny_table s" "ttys (upd_tty j f s) = (ttys s)(j := f (ttys s j))"
  "tiny_tty_driver (upd_tty j f s) = tiny_tty_driver s"
  by (simp_all add: upd_tty_def)

lemma upd_tty_twice: "upd_tty j f (put_tiny i t (upd_tty j g s)) = put_tiny i t (upd_tty j (f \<circ> g) s)"
  "upd_tty j f (upd_tty j g s) = upd_tty j (f \<circ> g) s"
  by (simp_all add: upd_tty_def put_tiny_def)

lemma put_tiny_twice [simp]: "put_tiny i t (upd_tty j f (put_tiny i u s)) = put_tiny i t (upd_tty j f s)"
  "put_tiny i t (put_tiny i u s) = put_tiny i t s"
  by (simp_all add: upd_tty_def put_tiny_def)

lemma table_mem_put_tiny:
  assumes "i < length (tiny_table s)" and "ledger l = Some (Q + table_mem s)"
    and "\<And>Q. ledger l = Some (Q + port_mem (tiny_table s ! i)) \<Longrightarrow> ledger l' = Some (Q + port_mem (Some t))"
  shows "ledger l' = Some (Q + table_mem (put_tiny i t s))"
proof -
  let ?R = "\<Sum>k \<in> {..<length (tiny_table s)} - {i}. port_mem (tiny_table s ! k)"
  have "table_mem s = port_mem (tiny_table s ! i) + ?R"
    unfolding table_mem_def using assms(1) by (intro sum.remove) auto
  with assms(2) have "ledger l = Some ((Q + ?R) + port_mem (tiny_table s ! i))"
    by (simp add: ac_simps)
  from assms(3) [OF this] have l': "ledger l' = Some ((Q + ?R) + port_mem (Some t))" .
  have "table_mem (put_tiny i t s) + port_mem (tiny_table s ! i) = (port_mem (tiny_table s ! i) + ?R) + port_mem (Some t)"
    using table_mem_put [OF assms(1), of "Some t"] \<open>table_mem s = _\<close> by (simp add: put_tiny_def)
  then have "table_mem (put_tiny i t s) = ?R + port_mem (Some t)"
    by (simp add: ac_simps)
  with l' show ?thesis by (simp add: ac_simps)
qed

lemma refines_put_open:
  assumes "tiny_refines L k a s" and "indices_ok s" and "port_ok L (Suc (users a (port_of s j))) t"
  shows "tiny_refines L (Suc k) (spec_step (port_of s) (Open j) a)
     (put_tiny (port_of s j) t (upd_tty j (\<lambda>y. y\<lparr>driver_data := Some (port_of s j)\<rparr>) s))"
proof -
  let ?s = "put_tiny (port_of s j) t (upd_tty j (\<lambda>y. y\<lparr>driver_data := Some (port_of s j)\<rparr>) s)"
  have p: "port_of s i < TINY_TTY_MINORS" for i
    using assms(2) by (auto simp: indices_ok_def port_of_def TINY_TTY_MINORS_def nat_less_iff)
  have ps: "port_of ?s = port_of s" by simp
  show ?thesis
    using assms(1,3) p unfolding tiny_refines_def ps
    by (auto simp: nth_list_update le_Suc_eq split: option.splits)
qed

lemma refinesD:
  assumes "tiny_refines L k a s" and "i < TINY_TTY_MINORS"
  shows "length (tiny_table s) = TINY_TTY_MINORS" "users a i \<le> k"
    "tiny_table s ! i = None \<Longrightarrow> users a i = 0"
    "tiny_table s ! i = Some t \<Longrightarrow> port_ok L (users a i) t"
  using assms by (auto simp: tiny_refines_def split: option.splits)

lemma port_slot: "indices_ok s \<Longrightarrow> table_slot (index (ttys s j)) = Ret (port_of s j) \<and> port_of s j < TINY_TTY_MINORS"
  by (auto simp: indices_ok_def table_slot_def port_of_def TINY_TTY_MINORS_def nat_less_iff)

definition step_ok ::
    "nat \<Rightarrow> 'l lockops \<Rightarrow> 'l tty_kernel \<Rightarrow> tiny_event \<Rightarrow> spec_state \<Rightarrow> 'l tiny_state \<Rightarrow> klog \<Rightarrow> bool" where
  "step_ok k L K e a s l \<longleftrightarrow> (\<exists>s' l'. tiny_step L K e s l = Ret (s', l') \<and>
     tiny_refines L (Suc k) (spec_step (port_of s) e a) s' \<and> indices_ok s' \<and> port_of s' = port_of s \<and>
     tiny_tty_driver s' = tiny_tty_driver s \<and>
     (\<forall>Q. ledger l = Some (Q + table_mem s) \<longrightarrow> ledger l' = Some (Q + table_mem s')))"

lemma open_ok:
  assumes "lock_laws V L" and "clean_memory K" and "tiny_refines L k a s" and "indices_ok s"
    and "int k + 1 < 2 ^ 31"
  shows "step_ok k L K (Open j) a s l"
proof -
  let ?i = "port_of s j" and ?f = "\<lambda>y. y\<lparr>driver_data := Some (port_of s j)\<rparr>"
  let ?s0 = "upd_tty j (\<lambda>y. y\<lparr>driver_data := None\<rparr>) s"
  note slot = port_slot [OF assms(4), of j]
  note ref = refinesD [OF assms(3) conjunct2 [OF slot]]
  have f: "(\<lambda>y. y\<lparr>driver_data := Some ?i\<rparr>) \<circ> (\<lambda>y. y\<lparr>driver_data := None\<rparr>) = ?f" by auto
  have small: "int (users a ?i) + 1 < 2 ^ 31" using ref(2) assms(5) by linarith
  have "\<exists>t' l'. tiny_open L K j s l = Ret (0, put_tiny ?i t' (upd_tty j ?f s), l') \<and>
      port_ok L (Suc (users a ?i)) t' \<and>
      (\<forall>Q. ledger l = Some (Q + port_mem (tiny_table s ! ?i)) \<longrightarrow> ledger l' = Some (Q + port_mem (Some t')))"
  proof (cases "tiny_table s ! ?i")
    case (Some t)
    have "port_ok L (users a ?i) t" by (rule ref(4) [OF Some])
    then have "\<exists>t' l'. tiny_open_rest L K j ?i t ?s0 l = Ret (0, put_tiny ?i t' (upd_tty j ?f ?s0), l') \<and>
        port_ok L (Suc (users a ?i)) t' \<and>
        (\<forall>Q. ledger l = Some (Q + port_mem (Some t)) \<longrightarrow> ledger l' = Some (Q + port_mem (Some t')))"
      using small by (intro open_rest_ok [OF assms(1,2)]) (auto simp: port_ok_def)
    with Some slot show ?thesis by (simp add: tiny_open_def upd_tty_twice f)
  next
    case None
    let ?p = "fst (kmalloc K l (sizeof_tiny K) (GFP_KERNEL K))"
    let ?l = "l @ [Mem (Kmalloc (sizeof_tiny K) (GFP_KERNEL K) ?p)]"
    let ?t = "(tiny_garbage K l)\<lparr>tiny_ptr := ?p, sem := lk_init L, open_count := 0, timer := None\<rparr>"
    have p: "?p \<noteq> 0" using assms(2) by (simp add: clean_memory_def)
    have u: "users a ?i = 0" by (rule ref(3) [OF None])
    have "\<exists>t' l'. tiny_open_rest L K j ?i ?t (put_tiny ?i ?t ?s0) ?l =
          Ret (0, put_tiny ?i t' (upd_tty j ?f (put_tiny ?i ?t ?s0)), l') \<and>
        port_ok L (Suc (users a ?i)) t' \<and>
        (\<forall>Q. ledger ?l = Some (Q + port_mem (Some ?t)) \<longrightarrow> ledger l' = Some (Q + port_mem (Some t')))"
      using u assms(1) by (intro open_rest_ok [OF assms(1,2)]) (auto simp: lock_laws_def)
    moreover have "ledger l = Some Q \<Longrightarrow> ledger ?l = Some (Q + port_mem (Some ?t))" for Q
      using p by (simp add: port_mem_def mem_at_def effect_simps)
    moreover have "tiny_open L K j s l = tiny_open_rest L K j ?i ?t (put_tiny ?i ?t ?s0) ?l"
      using slot None p by (simp add: tiny_open_def Let_def)
    ultimately show ?thesis using None
      by (auto simp: upd_tty_twice f port_mem_def)
  qed
  then obtain t' l' where op: "tiny_open L K j s l = Ret (0, put_tiny ?i t' (upd_tty j ?f s), l')"
    and ok: "port_ok L (Suc (users a ?i)) t'"
    and led: "\<And>Q. ledger l = Some (Q + port_mem (tiny_table s ! ?i)) \<Longrightarrow> ledger l' = Some (Q + port_mem (Some t'))"
    by blast
  have "ledger l = Some (Q + table_mem s) \<Longrightarrow> ledger l' = Some (Q + table_mem (put_tiny ?i t' (upd_tty j ?f s)))" for Q
    using slot ref(1) by (intro table_mem_put_tiny [where l = l]) (auto intro: led)
  then show ?thesis
    using op refines_put_open [OF assms(3,4) ok] assms(4) by (simp add: step_ok_def)
qed

section \<open>Closing a port and ticks\<close>

lemma do_close_ok:
  assumes "lock_laws V L" and "port_ok L n t"
  shows "\<exists>t'. do_close L t = Ret t' \<and> port_ok L (n - 1) t' \<and> port_mem (Some t') = port_mem (Some t)"
proof -
  obtain y where y: "lk_acquire L (sem t) = Some y"
    using assms(2) by (auto simp: lk_free_def port_ok_def)
  have free: "lk_free L (lk_release L y)"
    using assms(1) y by (auto simp: lock_laws_def)
  obtain x where x: "timer t = Some x" "pending x \<longleftrightarrow> n \<noteq> 0" and c: "sint (open_count t) = int n"
    using assms(2) by (auto simp: port_ok_def)
  have z: "open_count t = 0 \<longleftrightarrow> n = 0" using c sint_0_iff [of "open_count t"] by auto
  show ?thesis
  proof (cases "n = 0")
    case True
    then show ?thesis
      using y free x c z by (simp add: do_close_def Let_def port_ok_def port_mem_def)
  next
    case False
    then have "sint (open_count t - 1) = int (n - 1)"
      using c sint_minus_1 [of "open_count t"] by simp
    then show ?thesis
      using False y free x z
      by (auto simp: do_close_def Let_def port_ok_def port_mem_def del_timer_def)
  qed
qed

lemma refines_mono: "tiny_refines L k a s \<Longrightarrow> tiny_refines L (Suc k) a s"
  by (auto simp: tiny_refines_def)

lemma refines_put:
  assumes "tiny_refines L k a s" and "i < TINY_TTY_MINORS" and "port_ok L n t" and "n \<le> k"
    and "tiny_table s ! i \<noteq> None"
  shows "tiny_refines L k (a\<lparr>users := (users a)(i := n)\<rparr>) (put_tiny i t s)"
proof -
  have "port_of (put_tiny i t s) = port_of s" by simp
  then show ?thesis
    using assms unfolding tiny_refines_def
    by (auto simp: nth_list_update split: option.splits)
qed

lemma refines_put_same:
  assumes "tiny_refines L k a s" and "i < TINY_TTY_MINORS" and "port_ok L (users a i) t"
    and "tiny_table s ! i \<noteq> None"
  shows "tiny_refines L k a (put_tiny i t s)"
  using refines_put [OF assms(1-3) _ assms(4)] refinesD(2) [OF assms(1,2)] by simp

lemma close_ok:
  assumes "lock_laws V L" and "tiny_refines L k a s" and "indices_ok s"
  shows "step_ok k L K (Close j) a s l"
proof (cases "driver_data (ttys s j)")
  case None
  then have "j \<notin> attached a"
    using assms(2) by (auto simp: tiny_refines_def split: if_splits)
  with None show ?thesis
    using assms refines_mono [OF assms(2)] by (simp add: step_ok_def tiny_close_def)
next
  case (Some i)
  then have i: "i = port_of s j" "j \<in> attached a" and "tiny_table s ! i \<noteq> None"
    using assms(2) by (auto simp: tiny_refines_def split: if_splits)
  then obtain t where t: "tiny_table s ! i = Some t" by auto
  have lt: "i < TINY_TTY_MINORS" using port_slot [OF assms(3)] i by simp
  note ref = refinesD [OF assms(2) lt]
  from do_close_ok [OF assms(1) ref(4) [OF t]] obtain t' where
    c: "do_close L t = Ret t'" "port_ok L (users a i - 1) t'" "port_mem (Some t') = port_mem (Some t)" by blast
  have dr: "deref_tiny i s = Ret t" using t lt ref(1) by (simp add: deref_tiny_Ret_iff)
  have r: "tiny_refines L (Suc k) (a\<lparr>users := (users a)(i := users a i - 1)\<rparr>) (put_tiny i t' s)"
    using ref(2) t by (intro refines_mono refines_put [OF assms(2) lt c(2)]) auto
  have m: "ledger l = Some (Q + table_mem s) \<Longrightarrow> ledger l = Some (Q + table_mem (put_tiny i t' s))" for Q
    using lt ref(1) t c(3) by (intro table_mem_put_tiny [where l = l]) auto
  show ?thesis
    using Some dr c r m i assms(3) by (auto simp: step_ok_def tiny_close_def)
qed

lemma tick_ok:
  assumes "tiny_refines L k a s" and "indices_ok s"
  shows "step_ok k L K (Tick i) a s l"
proof (cases "timer_in_wheel i s")
  case False
  then show ?thesis
    using assms refines_mono [OF assms(1)] by (simp add: step_ok_def tiny_tick_def)
next
  case True
  then obtain t x where t: "deref_tiny i s = Ret t" "timer t = Some x" "pending x"
    by (auto simp: timer_in_wheel_def split: outcome.splits option.splits)
  then have lt: "i < TINY_TTY_MINORS" and ti: "tiny_table s ! i = Some t"
    using assms(1) by (auto simp: deref_tiny_Ret_iff tiny_refines_def)
  note ref = refinesD [OF assms(1) lt]
  let ?s1 = "put_tiny i (t\<lparr>timer := Some (x\<lparr>pending := False\<rparr>)\<rparr>) s"
  let ?x = "x\<lparr>expires := jiffies K l + DELAY_TIME K, pending := True\<rparr>"
  let ?t = "t\<lparr>timer := Some ?x\<rparr>"
  let ?f = "\<lambda>y. y\<lparr>flip_buffer := flip_buffer y @ take (insert_flip K l) [TINY_DATA_CHARACTER]\<rparr>"
  let ?s' = "put_tiny i ?t (upd_tty (tty t) ?f s)"
  have step: "tiny_step L K (Tick i) s l = Ret (?s', l)"
    using t lt ref(1) True
    by (simp add: tiny_tick_def timer_expires_def tiny_timer_def add_timer_def Let_def)
  have ok: "port_ok L (users a i) ?t"
    using ref(4) [OF ti] t by (auto simp: port_ok_def)
  have u: "tiny_refines L k a (upd_tty (tty t) ?f s)"
  proof -
    have "port_of (upd_tty (tty t) ?f s) = port_of s" by simp
    then show ?thesis
      using assms(1) unfolding tiny_refines_def by (auto split: option.splits)
  qed
  have r: "tiny_refines L (Suc k) a ?s'"
    using ti lt ok by (intro refines_mono refines_put_same [OF u]) auto
  have "port_mem (Some ?t) = port_mem (Some t)" using t by (simp add: port_mem_def)
  then have m: "ledger l = Some (Q + table_mem s) \<Longrightarrow> ledger l = Some (Q + table_mem ?s')" for Q
    using lt ref(1) ti by (intro table_mem_put_tiny [where l = l]) auto
  show ?thesis using step r m assms(2) by (auto simp: step_ok_def)
qed

section \<open>Runs refine the specification\<close>

lemma run_ok:
  assumes "lock_laws V L" and "clean_memory K"
  shows "tiny_refines L k a s \<Longrightarrow> indices_ok s \<Longrightarrow> int k + int (length es) < 2 ^ 31 \<Longrightarrow>
    ledger l = Some (Q + table_mem s) \<Longrightarrow>
    \<exists>s' l'. tiny_run L K es s l = Ret (s', l') \<and>
      tiny_refines L (k + length es) (fold (spec_step (port_of s)) es a) s' \<and>
      tiny_tty_driver s' = tiny_tty_driver s \<and> ledger l' = Some (Q + table_mem s')"
proof (induction es arbitrary: k a s l)
  case Nil
  then show ?case by simp
next
  case (Cons e es)
  have "step_ok k L K e a s l"
    using Cons.prems open_ok [OF assms] close_ok [OF assms(1)] tick_ok by (cases e) auto
  then obtain s1 l1 where s1: "tiny_step L K e s l = Ret (s1, l1)"
    "tiny_refines L (Suc k) (spec_step (port_of s) e a) s1" "indices_ok s1" "port_of s1 = port_of s"
    "tiny_tty_driver s1 = tiny_tty_driver s" "ledger l1 = Some (Q + table_mem s1)"
    using Cons.prems(4) unfolding step_ok_def by blast
  show ?case
    using Cons.IH [OF s1(2,3) _ s1(6)] Cons.prems(3) s1 by auto
qed

section \<open>Exit after any run\<close>

lemma close_all_ok:
  assumes "lock_laws V L"
  shows "port_ok L n t \<Longrightarrow> \<exists>t'. close_all L t = Ret t' \<and> port_ok L 0 t' \<and> port_mem (Some t') = port_mem (Some t)"
proof (induction n arbitrary: t)
  case 0
  then have "open_count t = 0" by (simp add: port_ok_def sint_0_iff)
  with 0 show ?case by (simp add: close_all.simps [of L t])
next
  case (Suc n)
  then have "open_count t \<noteq> 0" by (auto simp: port_ok_def)
  moreover obtain t1 where "do_close L t = Ret t1" "port_ok L n t1" "port_mem (Some t1) = port_mem (Some t)"
    using do_close_ok [OF assms Suc.prems] by auto
  ultimately show ?case
    using Suc.IH [of t1] by (simp add: close_all.simps [of L t])
qed

definition ports_ok :: "'l lockops \<Rightarrow> 'l tiny_state \<Rightarrow> bool" where
  "ports_ok L s \<longleftrightarrow> (\<forall>i < length (tiny_table s). \<forall>t. tiny_table s ! i = Some t \<longrightarrow> (\<exists>n. port_ok L n t))"

lemma free_port_ok:
  assumes "lock_laws V L" and "ports_ok L s" and "i < length (tiny_table s)"
    and "ledger l = Some (Q + table_mem s)"
  shows "\<exists>l'. free_port L i (s, l) = Ret (s\<lparr>tiny_table := (tiny_table s)[i := None]\<rparr>, l') \<and>
    ledger l' = Some (Q + table_mem (s\<lparr>tiny_table := (tiny_table s)[i := None]\<rparr>))"
proof (cases "tiny_table s ! i")
  case None
  then have "(tiny_table s)[i := None] = tiny_table s" by (metis list_update_id)
  with None assms(4) show ?thesis by (simp add: free_port_def)
next
  case (Some t)
  then obtain n where "port_ok L n t" using assms(2,3) by (auto simp: ports_ok_def)
  then obtain t' where t': "close_all L t = Ret t'" "port_ok L 0 t'" "port_mem (Some t') = port_mem (Some t)"
    using close_all_ok [OF assms(1)] by blast
  then obtain x where x: "timer t' = Some x" "\<not> pending x" by (auto simp: port_ok_def)
  let ?s = "s\<lparr>tiny_table := (tiny_table s)[i := None]\<rparr>"
  let ?l = "l @ [Mem (Kfree (timer_ptr x)), Mem (Kfree (tiny_ptr t'))]"
  have run: "free_port L i (s, l) = Ret (?s, ?l)"
    using Some t'(1) x by (simp add: free_port_def del_timer_def free_timer_def)
  have "table_mem s = table_mem ?s + (mem_at (tiny_ptr t') + mem_at (timer_ptr x))"
    using table_mem_put [OF assms(3), of None] Some t'(3) x by (simp add: port_mem_def)
  then have "ledger ?l = Some (Q + table_mem ?s)"
    using assms(4) by (auto simp: mem_at_def effect_simps)
  with run show ?thesis by blast
qed

lemma free_ports_ok:
  assumes "lock_laws V L"
  shows "ports_ok L s \<Longrightarrow> \<forall>i \<in> set is. i < length (tiny_table s) \<Longrightarrow> ledger l = Some (Q + table_mem s) \<Longrightarrow>
    \<exists>s' l'. for_ports is (free_port L) (s, l) = Ret (s', l') \<and> ledger l' = Some (Q + table_mem s') \<and>
      tiny_table s' = map (\<lambda>i. if i \<in> set is then None else tiny_table s ! i) [0..<length (tiny_table s)]"
proof (induction "is" arbitrary: s l)
  case Nil
  then show ?case by (simp add: map_nth)
next
  case (Cons i js)
  let ?s = "s\<lparr>tiny_table := (tiny_table s)[i := None]\<rparr>"
  obtain l1 where l1: "free_port L i (s, l) = Ret (?s, l1)" "ledger l1 = Some (Q + table_mem ?s)"
    using free_port_ok [OF assms Cons.prems(1) _ Cons.prems(3)] Cons.prems(2) by auto
  have "ports_ok L ?s" using Cons.prems(1,2) by (auto simp: ports_ok_def nth_list_update split: if_splits)
  from Cons.IH [OF this _ l1(2)] Cons.prems(2) obtain s' l' where
    "for_ports js (free_port L) (?s, l1) = Ret (s', l')" "ledger l' = Some (Q + table_mem s')"
    "tiny_table s' = map (\<lambda>k. if k \<in> set js then None else (tiny_table s)[i := None] ! k) [0..<length (tiny_table s)]"
    by auto
  with l1(1) show ?case
    by (auto simp: nth_list_update)
qed

lemma refines_ports_ok: "tiny_refines L k a s \<Longrightarrow> ports_ok L s"
  unfolding ports_ok_def tiny_refines_def by (auto split: option.splits)

definition tty_owns :: "ptr \<Rightarrow> resource multiset" where
  "tty_owns p = {#Tty_driver_reg p, Tty_device p 0, Tty_device p 1, Tty_device p 2, Tty_device p 3#}"

lemma minors_upt: "[0..<TINY_TTY_MINORS] = [0, 1, 2, 3]"
  by (simp add: TINY_TTY_MINORS_def upt_conv_Cons)

lemma tiny_exit_ok:
  assumes "lock_laws V L" and "tiny_refines L k a s"
    and "ledger l = Some (Q + tty_owns (tiny_tty_driver s) + table_mem s)"
  shows "\<exists>s' l'. tiny_exit L s l = Ret (s', l') \<and> tiny_table s' = replicate TINY_TTY_MINORS None \<and> ledger l' = Some Q"
proof -
  let ?p = "tiny_tty_driver s"
  let ?l = "l @ map (\<lambda>i. Tty (Tty_unregister_device ?p i)) [0..<TINY_TTY_MINORS] @ [Tty (Tty_unregister_driver ?p)]"
  have "ledger ?l = Some (Q + table_mem s)"
    using assms(3) by (simp add: minors_upt tty_owns_def)
  from free_ports_ok [OF assms(1) refines_ports_ok [OF assms(2)] _ this, of "[0..<TINY_TTY_MINORS]"]
  obtain s' l' where run: "for_ports [0..<TINY_TTY_MINORS] (free_port L) (s, ?l) = Ret (s', l')"
    and led: "ledger l' = Some (Q + table_mem s')" and tab: "tiny_table s' = map (\<lambda>i. None) [0..<TINY_TTY_MINORS]"
    using assms(2) by (auto simp: tiny_refines_def cong: map_cong)
  have "table_mem s' = {#}" by (simp add: table_mem_def tab port_mem_def)
  with run led tab show ?thesis by (auto simp: tiny_exit_def Let_def map_replicate_const)
qed

section \<open>Properties of whole runs\<close>

lemma tiny_init_ok:
  assumes "tiny_init K (tiny_image s) l = (0, s0, l0)" and "\<forall>j. driver_data (ttys s j) = None"
    and "ledger l = Some R"
  shows "tiny_refines L 0 spec_image s0" and "port_of s0 = port_of s" and "indices_ok s0 = indices_ok s"
    and "table_mem s0 = {#}"
    and "ledger l0 = Some (R + {#Tty_driver_obj (tiny_tty_driver s0)#} + tty_owns (tiny_tty_driver s0))"
proof -
  let ?p = "alloc_tty_driver K l (of_nat TINY_TTY_MINORS)"
  have p: "?p \<noteq> 0" and s0: "s0 = (tiny_image s)\<lparr>tiny_tty_driver := ?p\<rparr>"
    and l0: "l0 = l @ [Tty (Alloc_tty_driver (of_nat TINY_TTY_MINORS) ?p), Tty (Tty_register_driver ?p 0)] @
        map (\<lambda>i. Tty (Tty_register_device ?p i)) [0..<TINY_TTY_MINORS]"
    using assms(1) by (auto simp: tiny_init_def Let_def split: if_splits)
  show "tiny_refines L 0 spec_image s0"
    using assms(2) by (simp add: s0 tiny_refines_def tiny_image_def spec_image_def)
  show "port_of s0 = port_of s" "indices_ok s0 = indices_ok s"
    by (simp_all add: s0 tiny_image_def port_of_def indices_ok_def fun_eq_iff)
  show "table_mem s0 = {#}"
    by (simp add: s0 table_mem_def tiny_image_def port_mem_def)
  show "ledger l0 = Some (R + {#Tty_driver_obj (tiny_tty_driver s0)#} + tty_owns (tiny_tty_driver s0))"
    using assms(3) p by (simp add: l0 s0 minors_upt tty_owns_def effect_simps)
qed

text \<open>The users that a run leaves on port \<open>i\<close>, counted by the specification.\<close>

definition users_after :: "'l tiny_state \<Rightarrow> tiny_event list \<Rightarrow> nat \<Rightarrow> nat" where
  "users_after s es i = users (fold (spec_step (port_of s)) es spec_image) i"

lemma tiny_session:
  assumes "lock_laws V L" and "clean_memory K" and "indices_ok s" and "\<forall>j. driver_data (ttys s j) = None"
    and "tiny_init K (tiny_image s) l = (0, s0, l0)" and "ledger l = Some R" and "length es < 2 ^ 31"
  shows "\<exists>s' l'. tiny_run L K es s0 l0 = Ret (s', l') \<and>
    tiny_refines L (length es) (fold (spec_step (port_of s)) es spec_image) s' \<and>
    tiny_tty_driver s' = tiny_tty_driver s0 \<and>
    ledger l' = Some (R + {#Tty_driver_obj (tiny_tty_driver s0)#} + tty_owns (tiny_tty_driver s0) + table_mem s')"
proof -
  note i = tiny_init_ok [OF assms(5,4,6)]
  show ?thesis
    using run_ok [OF assms(1,2) i(1), of es l0 "R + {#Tty_driver_obj (tiny_tty_driver s0)#} + tty_owns (tiny_tty_driver s0)"]
      assms(3,7) i(2-5) by simp
qed

lemma refines_timer:
  assumes "tiny_refines L k a s" and "i < TINY_TTY_MINORS"
  shows "timer_in_wheel i s \<longleftrightarrow> users a i \<noteq> 0"
    and "users a i \<noteq> 0 \<Longrightarrow> \<exists>t. deref_tiny i s = Ret t \<and> sint (open_count t) = int (users a i)"
  using assms refinesD [OF assms]
  by (cases "tiny_table s ! i"; fastforce simp: timer_in_wheel_def deref_tiny_def port_ok_def)+


text \<open>A kernel that grants everything, with clean memory, and untouched tty structures.\<close>

definition good_tty :: "nat tty_kernel" where
  "good_tty = kernel.extend good_kernel
     \<lparr>HZ = 100, jiffies = (\<lambda>l. of_nat (length l)), sizeof_tiny = 512, sizeof_timer = 80,
      tiny_garbage = (\<lambda>l. some_port), timer_garbage = (\<lambda>l. \<lparr>timer_ptr = 0, expires = 0, timer_data = 0,
        timer_function = No_function, pending = False\<rparr>), insert_flip = (\<lambda>l. 1),
      alloc_tty_driver = (\<lambda>l n. 4096), tty_register_driver = (\<lambda>l p. 0)\<rparr>"

definition fresh_ttys :: "nat tiny_state" where
  "fresh_ttys = \<lparr>tiny_table = [], ttys = (\<lambda>j. some_tty\<lparr>index := of_nat (j mod 4), driver_data := None\<rparr>),
     tiny_tty_driver = 0\<rparr>"

lemma good_tty_clean: "clean_memory good_tty"
  by (simp add: clean_memory_def good_tty_def good_kernel_def kernel.defs)

lemma fresh_ttys_none: "\<forall>j. driver_data (ttys fresh_ttys j) = None"
  by (simp add: fresh_ttys_def)

lemma fresh_ttys_indices: "indices_ok fresh_ttys"
proof -
  have "sint (word_of_nat (j mod 4) :: c_int) = int (j mod 4)" for j
    by (simp add: signed_of_nat signed_take_bit_int_eq_self_iff)
  then show ?thesis by (simp add: indices_ok_def fresh_ttys_def TINY_TTY_MINORS_def)
qed

definition loaded_tty :: "nat tiny_state" where
  "loaded_tty = fst (snd (tiny_init good_tty (tiny_image fresh_ttys) []))"

definition loaded_log :: klog where
  "loaded_log = snd (snd (tiny_init good_tty (tiny_image fresh_ttys) []))"

lemma good_tty_init: "tiny_init good_tty (tiny_image fresh_ttys) [] = (0, loaded_tty, loaded_log)"
proof -
  have "fst (tiny_init good_tty (tiny_image fresh_ttys) []) = 0"
    by (simp add: tiny_init_def good_tty_def kernel.defs Let_def)
  then show ?thesis by (simp add: loaded_tty_def loaded_log_def prod_eq_iff)
qed





section \<open>When an open fails\<close>

text \<open>C39: an open that runs out of memory for the timer leaves a trap: the port keeps one user
  and has no timer, so the close that the tty core makes after a failed open dereferences
  NULL in \<open>del_timer\<close>, and so does the exit of the module.\<close>

theorem tiny_failed_open_traps_close:
  assumes "lock_laws V L" and "indices_ok s" and "tiny_table s = replicate TINY_TTY_MINORS None"
    and "tiny_open L K j s l = Ret (ret, s', l')" and "ret \<noteq> 0"
    and "fst (kmalloc K l (sizeof_tiny K) (GFP_KERNEL K)) \<noteq> 0"
  shows "ret = - ENOMEM \<and> (\<exists>t. deref_tiny (port_of s j) s' = Ret t \<and> open_count t = 1 \<and> timer t = None) \<and>
    tiny_close L j s' = Fault NullDeref \<and> tiny_exit L s' l'' = Fault NullDeref"
proof -
  let ?i = "port_of s j"
  obtain y where y: "lk_acquire L (lk_init L) = Some y" "lk_free L (lk_release L y)"
    using assms(1) by (auto simp: lock_laws_def lk_free_def)
  note slot = port_slot [OF assms(2), of j]
  have len: "length (tiny_table s) = TINY_TTY_MINORS" using assms(3) by simp
  let ?p = "fst (kmalloc K l (sizeof_tiny K) (GFP_KERNEL K))"
  let ?t = "(tiny_garbage K l)\<lparr>tiny_ptr := ?p, timer := None, tty := j, open_count := 1, sem := lk_release L y\<rparr>"
  have "s' = put_tiny ?i ?t (upd_tty j (\<lambda>y. y\<lparr>driver_data := Some ?i\<rparr>) s) \<and> ret = - ENOMEM"
    using assms(3-6) slot y
    by (auto simp: tiny_open_def Let_def tiny_open_rest_def tiny_open_timer_def obind_Ret_iff add_timer_def
        upd_tty_def put_tiny_def split: if_splits)
  then have ret: "ret = - ENOMEM" and tab: "tiny_table s' = (tiny_table s)[?i := Some ?t]"
    and dd: "driver_data (ttys s' j) = Some ?i"
    by simp_all
  obtain z where z: "lk_acquire L (lk_release L y) = Some z" using y(2) by (auto simp: lk_free_def)
  have close: "do_close L ?t = Fault NullDeref"
    using z by (simp add: do_close_def Let_def del_timer_def)
  have deref: "deref_tiny ?i s' = Ret ?t" using tab slot len by (simp add: deref_tiny_def)
  have free: "free_port L k (s', m) = (if k = ?i then Fault NullDeref else Ret (s', m))"
    if "k < TINY_TTY_MINORS" for k m
    using that tab slot assms(3) close close_all.simps [of L ?t] by (simp add: free_port_def)
  have lt: "0 < TINY_TTY_MINORS" "Suc 0 < TINY_TTY_MINORS" "2 < TINY_TTY_MINORS" "3 < TINY_TTY_MINORS"
    by (simp_all add: TINY_TTY_MINORS_def)
  have which: "?i = 0 \<or> ?i = 1 \<or> ?i = 2 \<or> ?i = 3"
    using slot by (auto simp: TINY_TTY_MINORS_def)
  have "tiny_exit L s' l'' = Fault NullDeref"
    using which by (auto simp: tiny_exit_def Let_def minors_upt free lt)
  with ret close deref dd show ?thesis by (simp add: tiny_close_def)
qed

text \<open>A kernel whose second allocation fails.\<close>

definition scarce_tty :: "nat tty_kernel" where
  "scarce_tty = good_tty\<lparr>kmalloc := (\<lambda>l n g. if n = 80 then (0, []) else (8192, []))\<rparr>"

theorem tiny_failed_open_traps_close_witness:
  "\<exists>ret s' l'. tiny_open counting_lock scarce_tty 0 loaded_tty [] = Ret (ret, s', l') \<and>
     tiny_close counting_lock 0 s' = Fault NullDeref"
proof -
  have tab: "tiny_table loaded_tty = replicate TINY_TTY_MINORS None" and idx: "indices_ok loaded_tty"
    using tiny_init_ok(3) [OF good_tty_init fresh_ttys_none ledger_Nil] fresh_ttys_indices
    by (simp_all add: loaded_tty_def tiny_init_def good_tty_def kernel.defs tiny_image_def Let_def)
  have slot: "table_slot (index (ttys loaded_tty 0)) = Ret 0"
    by (simp add: loaded_tty_def tiny_init_def good_tty_def kernel.defs tiny_image_def Let_def fresh_ttys_def
        table_slot_def TINY_TTY_MINORS_def)
  obtain s' l' where op: "tiny_open counting_lock scarce_tty 0 loaded_tty [] = Ret (- ENOMEM, s', l')"
    using tab slot
    by (simp add: tiny_open_def tiny_open_rest_def tiny_open_timer_def scarce_tty_def good_tty_def kernel.defs
        Let_def counting_lock_def TINY_TTY_MINORS_def)
  have p: "fst (kmalloc scarce_tty [] (sizeof_tiny scarce_tty) (GFP_KERNEL scarce_tty)) \<noteq> 0"
    by (simp add: scarce_tty_def good_tty_def kernel.defs)
  from tiny_failed_open_traps_close [OF counting_lock_laws idx tab op _ p] op show ?thesis by simp
qed

text \<open>The driver never calls \<open>init_timer\<close>: the first open of a port faults in \<open>add_timer\<close>
  exactly when the memory that \<open>kmalloc\<close> handed out for the timer looks like a pending one.\<close>

lemma tiny_first_open_needs_clean_memory:
  assumes "lock_laws V L" and "indices_ok s" and "tiny_table s = replicate TINY_TTY_MINORS None"
    and "\<forall>l n g. fst (kmalloc K l n g) \<noteq> 0"
  shows "(tiny_open L K j s l = Fault BadState \<longleftrightarrow>
       pending (timer_garbage K (l @ [Mem (Kmalloc (sizeof_tiny K) (GFP_KERNEL K)
          (fst (kmalloc K l (sizeof_tiny K) (GFP_KERNEL K))))]))) \<and>
     (tiny_open L K j s l \<noteq> Fault BadState \<longrightarrow> (\<exists>s' l'. tiny_open L K j s l = Ret (0, s', l')))"
proof -
  obtain y where y: "lk_acquire L (lk_init L) = Some y"
    using assms(1) by (auto simp: lock_laws_def lk_free_def)
  show ?thesis
    using assms(3,4) port_slot [OF assms(2), of j] y
    by (auto simp: tiny_open_def Let_def tiny_open_rest_def tiny_open_timer_def add_timer_def)
qed

definition dirty_tty :: "nat tty_kernel" where
  "dirty_tty = good_tty\<lparr>timer_garbage := (\<lambda>l. \<lparr>timer_ptr = 0, expires = 0, timer_data = 0,
     timer_function = No_function, pending = True\<rparr>)\<rparr>"

lemma tiny_first_open_needs_clean_memory_witness:
  "tiny_open counting_lock dirty_tty 0 loaded_tty [] = Fault BadState"
proof -
  have tab: "tiny_table loaded_tty = replicate TINY_TTY_MINORS None" and idx: "indices_ok loaded_tty"
    using tiny_init_ok(3) [OF good_tty_init fresh_ttys_none ledger_Nil] fresh_ttys_indices
    by (simp_all add: loaded_tty_def tiny_init_def good_tty_def kernel.defs tiny_image_def Let_def)
  have mem: "\<forall>l n g. fst (kmalloc dirty_tty l n g) \<noteq> 0"
    by (simp add: dirty_tty_def good_tty_def good_kernel_def kernel.defs)
  have p: "pending (timer_garbage dirty_tty m)" for m by (simp add: dirty_tty_def)
  show ?thesis
    using tiny_first_open_needs_clean_memory [OF counting_lock_laws idx tab mem, of 0 "[]"] p by simp
qed

section \<open>A close during the callback\<close>

text \<open>
  \<open>in_flight\<close> holds the ports whose callback has started and not ended; \<open>del_timer\<close> does not
  wait for it. Opens and closes run as a whole, a tick in two steps.
\<close>

record 'l race =
  rstate :: "'l tiny_state"
  rlog :: klog
  in_flight :: "nat set"

definition race_start :: "'l tiny_state \<Rightarrow> klog \<Rightarrow> 'l race \<Rightarrow> bool" where
  "race_start s l r \<longleftrightarrow> r = \<lparr>rstate = s, rlog = l, in_flight = {}\<rparr>"

inductive race_step :: "'l lockops \<Rightarrow> 'l tty_kernel \<Rightarrow> 'l race \<Rightarrow> 'l race \<Rightarrow> bool"
  for L :: "'l lockops" and K :: "'l tty_kernel" where
  race_open: "tiny_open L K j (rstate r) (rlog r) = Ret (ret, s', l') \<Longrightarrow>
    race_step L K r (r\<lparr>rstate := s', rlog := l'\<rparr>)"
| race_close: "tiny_close L j (rstate r) = Ret s' \<Longrightarrow> race_step L K r (r\<lparr>rstate := s'\<rparr>)"
| race_expires: "timer_expires i (rstate r) = Ret s' \<Longrightarrow> i \<notin> in_flight r \<Longrightarrow>
    race_step L K r (r\<lparr>rstate := s', in_flight := insert i (in_flight r)\<rparr>)"
| race_callback: "i \<in> in_flight r \<Longrightarrow> tiny_timer K i (rstate r) (rlog r) = Ret s' \<Longrightarrow>
    race_step L K r (r\<lparr>rstate := s', in_flight := in_flight r - {i}\<rparr>)"

lemma late_callback:
  assumes "lock_laws V L" and "port_ok L 1 t" and "timer t = Some x" and "deref_tiny i s = Ret t"
    and "driver_data (ttys s j) = Some i"
  shows "\<exists>u x' s1 s2 s3. timer_expires i s = Ret s1 \<and> tiny_close L j s1 = Ret s2 \<and> tiny_timer K i s2 l = Ret s3 \<and>
    deref_tiny i s3 = Ret u \<and> open_count u = 0 \<and> lk_free L (sem u) \<and> timer u = Some x' \<and> pending x' \<and>
    (\<forall>j. index (ttys s3 j) = index (ttys s j))"
proof -
  have p: "pending x" "sint (open_count t) = 1" and "lk_free L (sem t)"
    using assms(2,3) by (auto simp: port_ok_def)
  then obtain y where y: "lk_acquire L (sem t) = Some y" "lk_free L (lk_release L y)"
    using assms(1) by (auto simp: lk_free_def lock_laws_def)
  have one: "open_count t = 1" using p(2) by (intro signed_word_eqI) simp
  have i: "i < length (tiny_table s)" using assms(4) by (simp add: deref_tiny_Ret_iff)
  let ?off = "x\<lparr>pending := False\<rparr>"
  let ?t1 = "t\<lparr>timer := Some ?off\<rparr>" and ?t2 = "t\<lparr>open_count := 0, timer := Some ?off, sem := lk_release L y\<rparr>"
  have 1: "timer_expires i s = Ret (put_tiny i ?t1 s)"
    using assms(3,4) p by (simp add: timer_expires_def)
  have "do_close L ?t1 = Ret ?t2"
    using y one by (simp add: do_close_def Let_def del_timer_def)
  then have 2: "tiny_close L j (put_tiny i ?t1 s) = Ret (put_tiny i ?t2 s)"
    using assms(5) i by (simp add: tiny_close_def)
  let ?on = "?off\<lparr>expires := jiffies K l + DELAY_TIME K, pending := True\<rparr>"
  let ?f = "\<lambda>y. y\<lparr>flip_buffer := flip_buffer y @ take (insert_flip K l) [TINY_DATA_CHARACTER]\<rparr>"
  have 3: "tiny_timer K i (put_tiny i ?t2 s) l =
      Ret (put_tiny i (?t2\<lparr>timer := Some ?on\<rparr>) (upd_tty (tty t) ?f s))"
    using i by (simp add: tiny_timer_def add_timer_def Let_def)
  show ?thesis
    using 1 2 3 i y(2) by auto
qed

lemma reopen_faults:
  assumes "deref_tiny (port_of s j) s = Ret u" and "open_count u = 0" and "lk_free L (sem u)"
    and "timer u = Some x" and "pending x" and "indices_ok s"
  shows "tiny_open L K j s l = Fault BadState"
proof -
  obtain y where "lk_acquire L (sem u) = Some y" using assms(3) by (auto simp: lk_free_def)
  then show ?thesis
    using assms port_slot [OF assms(6), of j]
    by (simp add: tiny_open_def deref_tiny_Ret_iff tiny_open_rest_def tiny_open_timer_def add_timer_def Let_def)
qed

text \<open>C31: \<open>del_timer\<close> in the last close does not wait for a callback that has started, and the
  callback submits the timer again: a state is reachable in which a port with no users has
  its timer in the wheel, and the next open of that port is a kernel bug in \<open>add_timer\<close>.\<close>

theorem tiny_timer_survives_close:
  assumes "lock_laws V L" and "clean_memory K" and "indices_ok s" and "\<forall>j. driver_data (ttys s j) = None"
    and "tiny_init K (tiny_image s) [] = (0, s0, l0)"
  shows "\<exists>r u. reaches (race_start s0 l0) (race_step L K) r \<and> in_flight r = {} \<and>
    deref_tiny (port_of s j) (rstate r) = Ret u \<and> open_count u = 0 \<and>
    timer_in_wheel (port_of s j) (rstate r) \<and> tiny_open L K j (rstate r) (rlog r) = Fault BadState"
proof -
  let ?i = "port_of s j"
  note ini = tiny_init_ok [OF assms(5,4) ledger_Nil]
  have idx: "indices_ok s0" and po: "port_of s0 = port_of s" using assms(3) ini by simp_all
  have "step_ok 0 L K (Open j) spec_image s0 l0"
    by (rule open_ok [OF assms(1,2) ini(1) idx]) simp
  then obtain s1 l1 ret where op: "tiny_open L K j s0 l0 = Ret (ret, s1, l1)"
    and r1: "tiny_refines L (Suc 0) (spec_step (port_of s) (Open j) spec_image) s1"
    and idx1: "indices_ok s1" and po1: "port_of s1 = port_of s"
    unfolding step_ok_def po by (auto simp: obind_Ret_iff)
  have lt: "?i < TINY_TTY_MINORS" using port_slot [OF assms(3)] by simp
  have dd: "driver_data (ttys s1 j) = Some ?i" and ne: "tiny_table s1 ! ?i \<noteq> None"
    using r1 by (auto simp: tiny_refines_def po1)
  from ne obtain t where t: "tiny_table s1 ! ?i = Some t" by auto
  have ok: "port_ok L 1 t"
    using refinesD(4) [OF r1 lt t] by (simp add: spec_image_def)
  then obtain x where x: "timer t = Some x" by (auto simp: port_ok_def)
  have de: "deref_tiny ?i s1 = Ret t" using t lt refinesD(1) [OF r1 lt] by (simp add: deref_tiny_Ret_iff)
  obtain u x' a b c where late: "timer_expires ?i s1 = Ret a" "tiny_close L j a = Ret b" "tiny_timer K ?i b l1 = Ret c"
    "deref_tiny ?i c = Ret u" "open_count u = 0" "lk_free L (sem u)" "timer u = Some x'" "pending x'"
    "\<forall>j. index (ttys c j) = index (ttys s1 j)"
    using late_callback [OF assms(1) ok x de dd, of K l1] by blast
  let ?R = "reaches (race_start s0 l0) (race_step L K)"
  have "?R \<lparr>rstate = s0, rlog = l0, in_flight = {}\<rparr>"
    by (rule reaches_start) (simp add: race_start_def)
  moreover have "race_step L K \<lparr>rstate = s0, rlog = l0, in_flight = {}\<rparr> \<lparr>rstate = s1, rlog = l1, in_flight = {}\<rparr>"
    using race_open [of L K j "\<lparr>rstate = s0, rlog = l0, in_flight = {}\<rparr>"] op by simp
  moreover have "race_step L K \<lparr>rstate = s1, rlog = l1, in_flight = {}\<rparr> \<lparr>rstate = a, rlog = l1, in_flight = {?i}\<rparr>"
    using race_expires [of ?i "\<lparr>rstate = s1, rlog = l1, in_flight = {}\<rparr>"] late by simp
  moreover have "race_step L K \<lparr>rstate = a, rlog = l1, in_flight = {?i}\<rparr> \<lparr>rstate = b, rlog = l1, in_flight = {?i}\<rparr>"
    using race_close [of L j "\<lparr>rstate = a, rlog = l1, in_flight = {?i}\<rparr>"] late by simp
  moreover have "race_step L K \<lparr>rstate = b, rlog = l1, in_flight = {?i}\<rparr> \<lparr>rstate = c, rlog = l1, in_flight = {}\<rparr>"
    using race_callback [of ?i "\<lparr>rstate = b, rlog = l1, in_flight = {?i}\<rparr>"] late by simp
  ultimately have reach: "?R \<lparr>rstate = c, rlog = l1, in_flight = {}\<rparr>"
    by (meson reaches_step)
  have "indices_ok c" and "port_of c = port_of s"
    using idx1 po1 late(9) by (simp_all add: indices_ok_def port_of_def fun_eq_iff)
  then have "tiny_open L K j c l1 = Fault BadState"
    using late by (intro reopen_faults) auto
  with reach late show ?thesis
    by (intro exI [of _ "\<lparr>rstate = c, rlog = l1, in_flight = {}\<rparr>"] exI [of _ u])
      (simp add: timer_in_wheel_def)
qed

theorem tiny_timer_survives_close_witness:
  "\<exists>r. reaches (race_start loaded_tty loaded_log) (race_step counting_lock good_tty) r \<and>
     tiny_open counting_lock good_tty 0 (rstate r) (rlog r) = Fault BadState"
  using tiny_timer_survives_close [OF counting_lock_laws good_tty_clean fresh_ttys_indices fresh_ttys_none
      good_tty_init, of 0] by blast

end
