(* ===== verification/Tiny_Tty_Session.thy ===== *)
theory Tiny_Tty_Session
  imports Tiny_Tty_Lifecycle
begin

text \<open>
  Whole sessions on the tiny tty driver of \<open>day_12/ex29.c\<close>: any sequence of the calls of its
  operation table \<open>serial_ops\<close>, of timer expiries and of wake-ups of tasks that sleep in
  \<open>TIOCMIWAIT\<close>, with what each call returns, prints or copies. The specification of a
  session keeps per port a number of users and one line, RTS; everything else that a
  session can show was decided by the memory that the first open got.
\<close>

section \<open>Sessions\<close>

text \<open>
  A call of the table, with the tty it goes to. \<open>Set_termios\<close> is the call of the tty core,
  which stores the new settings in the tty and passes the old ones to the driver. \<open>Wake n
  sg\<close> wakes sleeper \<open>n\<close>, with or without a signal pending for it.
\<close>

datatype serial_call =
    Life tiny_event
  | Write nat "byte list" c_int
  | Write_room nat
  | Set_termios nat ktermios
  | Tiocmget nat
  | Tiocmset nat c_uint c_uint
  | Ioctl nat c_uint c_ulong "c_int list"
  | Wake nat bool

datatype tty_output =
    Done
  | Result c_int
  | Printed c_int "byte list"
  | Messages "termios_msg list"
  | Copied c_int "byte list"
  | Asleep

text \<open>
  A task asleep in \<open>tiny_ioctl_tiocmiwait\<close>: its variables \<open>tiny\<close> (a slot), \<open>arg\<close>, \<open>cprev\<close>.
\<close>

record sleeper =
  sl_port :: nat
  sl_arg :: c_ulong
  sl_cprev :: async_icount

record 'l session =
  tiny_of :: "'l tiny_state"
  klog_of :: klog
  sleepers :: "sleeper list"

definition remove_nth :: "nat \<Rightarrow> 'a list \<Rightarrow> 'a list" where
  "remove_nth n xs = take n xs @ drop (Suc n) xs"

text \<open>
  An ioctl that does not come back has gone to sleep in \<open>schedule\<close>, with the counters of
  its port as they are now.
\<close>

definition session_ioctl ::
    "'l tty_kernel \<Rightarrow> tty_abi \<Rightarrow> uaccess \<Rightarrow> nat \<Rightarrow> c_uint \<Rightarrow> c_ulong \<Rightarrow> c_int list \<Rightarrow> 'l session \<Rightarrow>
      (tty_output \<times> 'l session) outcome" where
  "session_ioctl K A U j cmd arg stack S =
     (case tiny_ioctl K A U [] stack j cmd arg (tiny_of S) of
        Ret (r, out) \<Rightarrow> Ret (Copied r out, S)
      | Fault e \<Rightarrow> Fault e
      | Block \<Rightarrow>
          obind (tty_port j (tiny_of S)) (\<lambda>(i, tiny).
            Ret (Asleep, S\<lparr>sleepers := sleepers S @ [\<lparr>sl_port = i, sl_arg = arg, sl_cprev = icount tiny\<rparr>]\<rparr>)))"

text \<open>One turn of the loop of \<open>tiny_ioctl_tiocmiwait\<close>, from \<open>remove_wait_queue\<close> to \<open>schedule\<close>.\<close>

definition session_wake ::
    "tty_abi \<Rightarrow> nat \<Rightarrow> bool \<Rightarrow> 'l session \<Rightarrow> (tty_output \<times> 'l session) outcome" where
  "session_wake A n signal S =
     (if length (sleepers S) \<le> n then Ret (Done, S)
      else let w = sleepers S ! n
           in obind (deref_tiny (sl_port w) (tiny_of S)) (\<lambda>tiny.
                case miwait_loop A (sl_arg w) (sl_cprev w) [(signal, icount tiny)] of
                  Ret r \<Rightarrow> Ret (Result r, S\<lparr>sleepers := remove_nth n (sleepers S)\<rparr>)
                | Fault e \<Rightarrow> Fault e
                | Block \<Rightarrow> Ret (Asleep, S\<lparr>sleepers := (sleepers S)[n := w\<lparr>sl_cprev := icount tiny\<rparr>]\<rparr>)))"

primrec session_step ::
    "'l lockops \<Rightarrow> 'l tty_kernel \<Rightarrow> tty_abi \<Rightarrow> uaccess \<Rightarrow> serial_call \<Rightarrow> 'l session \<Rightarrow>
      (tty_output \<times> 'l session) outcome" where
  "session_step L K A U (Life e) S =
     (case e of
        Open j \<Rightarrow>
          obind (tiny_open L K j (tiny_of S) (klog_of S))
            (\<lambda>(ret, s, l). Ret (Result ret, S\<lparr>tiny_of := s, klog_of := l\<rparr>))
      | _ \<Rightarrow>
          obind (tiny_step L K e (tiny_of S) (klog_of S))
            (\<lambda>(s, l). Ret (Done, S\<lparr>tiny_of := s, klog_of := l\<rparr>)))"
| "session_step L K A U (Write j buf cnt) S =
     obind (tiny_write L j buf cnt (tiny_of S)) (\<lambda>((r, out), s). Ret (Printed r out, S\<lparr>tiny_of := s\<rparr>))"
| "session_step L K A U (Write_room j) S =
     obind (tiny_write_room L j (tiny_of S)) (\<lambda>(r, s). Ret (Result r, S\<lparr>tiny_of := s\<rparr>))"
| "session_step L K A U (Set_termios j new) S =
     (let old = termios (ttys (tiny_of S) j);
          s = upd_tty j (\<lambda>y. y\<lparr>termios := new\<rparr>) (tiny_of S)
      in Ret (Messages (tiny_set_termios A (termios (ttys s j)) (Some old)), S\<lparr>tiny_of := s\<rparr>))"
| "session_step L K A U (Tiocmget j) S =
     obind (tiny_tiocmget A j (tiny_of S)) (\<lambda>r. Ret (Result r, S))"
| "session_step L K A U (Tiocmset j st cl) S =
     obind (tiny_tiocmset A j st cl (tiny_of S)) (\<lambda>(r, s). Ret (Result r, S\<lparr>tiny_of := s\<rparr>))"
| "session_step L K A U (Ioctl j cmd arg stack) S = session_ioctl K A U j cmd arg stack S"
| "session_step L K A U (Wake n signal) S = session_wake A n signal S"

text \<open>A session yields the outputs of its calls, in their order.\<close>

fun session_run ::
    "'l lockops \<Rightarrow> 'l tty_kernel \<Rightarrow> tty_abi \<Rightarrow> uaccess \<Rightarrow> serial_call list \<Rightarrow> 'l session \<Rightarrow>
      (tty_output list \<times> 'l session) outcome" where
  "session_run L K A U [] S = Ret ([], S)"
| "session_run L K A U (c # cs) S =
     obind (session_step L K A U c S) (\<lambda>(out, S).
       obind (session_run L K A U cs S) (\<lambda>(outs, S). Ret (out # outs, S)))"

text \<open>Waking a task turn by turn is the loop over all its wake-ups.\<close>

lemma miwait_loop_turns:
  "miwait_loop A arg c ((signal, d) # wakes) =
     (case miwait_loop A arg c [(signal, d)] of
        Ret r \<Rightarrow> Ret r | Fault e \<Rightarrow> Fault e | Block \<Rightarrow> miwait_loop A arg d wakes)"
  by simp

section \<open>The specification of a session\<close>

text \<open>
  What the specification keeps: the users of the ports and the ttys that were opened, the
  RTS line of each port, the settings of each tty, and who sleeps on which port.
\<close>

record tty_spec =
  life :: spec_state
  rts :: "nat \<Rightarrow> bool"
  settings :: "nat \<Rightarrow> ktermios"
  waiting :: "(nat \<times> c_ulong) list"

text \<open>What a port object keeps of the memory that it was allocated in.\<close>

record port_memory =
  msr0 :: c_uint
  mcr0 :: c_uint
  serial0 :: serial_struct
  wait0 :: wait_queue_head
  icount0 :: async_icount

definition memory_of :: "'l tiny_serial \<Rightarrow> port_memory" where
  "memory_of t = \<lparr>msr0 = msr t, mcr0 = mcr t, serial0 = serial t, wait0 = wait t, icount0 = icount t\<rparr>"

text \<open>A register with its RTS bit replaced.\<close>

definition with_rts :: "c_uint \<Rightarrow> bool \<Rightarrow> c_uint" where
  "with_rts m b = (m AND NOT MCR_RTS) OR (if b then MCR_RTS else 0)"

text \<open>
  One call on the specification, for memory contents \<open>mem\<close> of the ports. A call that needs
  an opened tty and gets another one dereferences NULL.
\<close>

definition spec_needs :: "tty_spec \<Rightarrow> nat \<Rightarrow> (tty_output \<times> tty_spec) outcome \<Rightarrow> (tty_output \<times> tty_spec) outcome" where
  "spec_needs a j m = (if j \<in> attached (life a) then m else Fault NullDeref)"

definition spec_copy :: "c_ulong \<times> byte list \<Rightarrow> tty_output" where
  "spec_copy = (\<lambda>(left, out). Copied (if left \<noteq> 0 then - EFAULT else 0) out)"

definition spec_ioctl ::
    "(nat \<Rightarrow> port_memory) \<Rightarrow> 'l tty_kernel \<Rightarrow> tty_abi \<Rightarrow> uaccess \<Rightarrow> (nat \<Rightarrow> nat) \<Rightarrow> nat \<Rightarrow> c_uint \<Rightarrow>
      c_ulong \<Rightarrow> c_int list \<Rightarrow> tty_spec \<Rightarrow> (tty_output \<times> tty_spec) outcome" where
  "spec_ioctl mem K A U slot j cmd arg stack a =
     (let m = mem (slot j)
      in if cmd = TIOCGSERIAL A
         then if arg = 0 then Ret (Copied (- EFAULT) [], a)
              else spec_needs a j (Ret (spec_copy (copy_to_user U arg (serial_bytes A (get_serial K A (serial0 m)))), a))
         else if cmd = TIOCMIWAIT A
         then spec_needs a j
                (if wait0 m = List_head then Ret (Asleep, a\<lparr>waiting := waiting a @ [(slot j, arg)]\<rparr>)
                 else Fault BadState)
         else if cmd = TIOCGICOUNT A
         then spec_needs a j (Ret (spec_copy (copy_to_user U arg (icount_bytes A (icount0 m, stack))), a))
         else Ret (Copied (- ENOIOCTLCMD) [], a))"

primrec spec_call ::
    "(nat \<Rightarrow> port_memory) \<Rightarrow> 'l tty_kernel \<Rightarrow> tty_abi \<Rightarrow> uaccess \<Rightarrow> (nat \<Rightarrow> nat) \<Rightarrow> serial_call \<Rightarrow> tty_spec \<Rightarrow>
      (tty_output \<times> tty_spec) outcome" where
  "spec_call mem K A U slot (Life e) a =
     Ret (case e of Open j \<Rightarrow> Result 0 | _ \<Rightarrow> Done, a\<lparr>life := spec_step slot e (life a)\<rparr>)"
| "spec_call mem K A U slot (Write j buf cnt) a =
     (if j \<notin> attached (life a) then Ret (Printed (- ENODEV) [], a)
      else if users (life a) (slot j) = 0 then Ret (Printed (- EINVAL) [], a)
      else obind (printed_bytes buf cnt) (\<lambda>out. Ret (Printed (- EINVAL) out, a)))"
| "spec_call mem K A U slot (Write_room j) a =
     Ret (Result (if j \<notin> attached (life a) then - ENODEV
                  else if users (life a) (slot j) = 0 then - EINVAL else 255), a)"
| "spec_call mem K A U slot (Set_termios j new) a =
     Ret (Messages (tiny_set_termios A new (Some (settings a j))), a\<lparr>settings := (settings a)(j := new)\<rparr>)"
| "spec_call mem K A U slot (Tiocmget j) a =
     spec_needs a j
       (let m = mem (slot j)
        in Ret (Result (modem_bits A (msr0 m) (with_rts (mcr0 m) (rts a (slot j)))), a))"
| "spec_call mem K A U slot (Tiocmset j st cl) a =
     spec_needs a j
       (let lines = TIOCM_RTS A OR TIOCM_DTR A
        in Ret (Result 0, a\<lparr>rts := (rts a)(slot j :=
             \<not> has_bit cl lines \<and> (has_bit st lines \<or> rts a (slot j)))\<rparr>))"
| "spec_call mem K A U slot (Ioctl j cmd arg stack) a = spec_ioctl mem K A U slot j cmd arg stack a"
| "spec_call mem K A U slot (Wake n signal) a =
     (if length (waiting a) \<le> n then Ret (Done, a)
      else Ret (Result (if signal then - ERESTARTSYS else - EIO), a\<lparr>waiting := remove_nth n (waiting a)\<rparr>))"

fun spec_calls ::
    "(nat \<Rightarrow> port_memory) \<Rightarrow> 'l tty_kernel \<Rightarrow> tty_abi \<Rightarrow> uaccess \<Rightarrow> (nat \<Rightarrow> nat) \<Rightarrow> serial_call list \<Rightarrow> tty_spec \<Rightarrow>
      tty_output list outcome" where
  "spec_calls mem K A U slot [] a = Ret []"
| "spec_calls mem K A U slot (c # cs) a =
     obind (spec_call mem K A U slot c a) (\<lambda>(out, a).
       obind (spec_calls mem K A U slot cs a) (\<lambda>outs. Ret (out # outs)))"

section \<open>What the calls do to the memory of the ports\<close>

text \<open>The memory of the ports that exist.\<close>

definition contents :: "'l tiny_state \<Rightarrow> nat \<rightharpoonup> port_memory" where
  "contents s i = (case deref_tiny i s of Ret t \<Rightarrow> Some (memory_of t) | _ \<Rightarrow> None)"

lemma contents_put [simp]:
  "i < length (tiny_table s) \<Longrightarrow> contents (put_tiny i t s) = (contents s)(i \<mapsto> memory_of t)"
  by (auto simp: contents_def deref_tiny_def put_tiny_def fun_eq_iff)

lemma contents_upd [simp]: "contents (upd_tty j f s) = contents s"
  by (simp add: contents_def deref_tiny_def upd_tty_def fun_eq_iff)

lemma contents_Some: "deref_tiny i s = Ret t \<Longrightarrow> contents s i = Some (memory_of t)"
  by (simp add: contents_def)

lemma contents_Some_iff: "contents s i = Some m \<longleftrightarrow> (\<exists>t. deref_tiny i s = Ret t \<and> m = memory_of t)"
  by (auto simp: contents_def split: outcome.splits)

lemma memory_of_updates [simp]:
  "memory_of (t\<lparr>sem := x\<rparr>) = memory_of t" "memory_of (t\<lparr>tty := j\<rparr>) = memory_of t"
  "memory_of (t\<lparr>open_count := n\<rparr>) = memory_of t" "memory_of (t\<lparr>timer := y\<rparr>) = memory_of t"
  "memory_of (t\<lparr>tiny_ptr := p\<rparr>) = memory_of t" "memory_of (t\<lparr>mcr := c\<rparr>) = (memory_of t)\<lparr>mcr0 := c\<rparr>"
  by (simp_all add: memory_of_def)

text \<open>A step of a session: ports keep their memory, a new one takes it from \<open>kmalloc\<close>.\<close>

definition evolves :: "'l tty_kernel \<Rightarrow> 'l tiny_state \<Rightarrow> 'l tiny_state \<Rightarrow> bool" where
  "evolves K s s' \<longleftrightarrow>
     (\<forall>i. contents s' i = contents s i \<or>
        contents s i = None \<and> (\<exists>l. contents s' i = Some (memory_of (tiny_garbage K l)))) \<and>
     (\<forall>j. termios (ttys s' j) = termios (ttys s j))"

lemma evolves_refl [simp]: "evolves K s s"
  by (simp add: evolves_def)

lemma evolves_put:
  assumes "deref_tiny i s = Ret t" and "memory_of t' = memory_of t" and "\<And>y. termios (f y) = termios y"
  shows "evolves K s (put_tiny i t' (upd_tty j f s))" and "evolves K s (put_tiny i t' s)"
  using assms contents_Some [OF assms(1)] by (auto simp: evolves_def deref_tiny_Ret_iff)

lemma open_timer_memory:
  "tiny_open_timer K i t l = Ret (ret, t', l') \<Longrightarrow> memory_of t' = memory_of t"
  by (auto simp: tiny_open_timer_def Let_def obind_Ret_iff split: option.splits if_splits)

lemma open_rest_memory:
  assumes "tiny_open_rest L K j i t s l = Ret (ret, s', l')"
  shows "\<exists>t'. s' = put_tiny i t' (upd_tty j (\<lambda>y. y\<lparr>driver_data := Some i\<rparr>) s) \<and> memory_of t' = memory_of t"
  using assms
  by (fastforce simp: tiny_open_rest_def Let_def obind_Ret_iff split: option.splits if_splits dest: open_timer_memory)

lemma evolves_new:
  assumes "deref_tiny i s = Fault e" and "i < length (tiny_table s)" and "memory_of t' = memory_of (tiny_garbage K l)"
    and "\<And>y. termios (f y) = termios y"
  shows "evolves K s (put_tiny i t' (upd_tty j f s))"
proof -
  have "contents s i = None" using assms(1) by (simp add: contents_def)
  then show ?thesis using assms(2-4) by (auto simp: evolves_def)
qed

lemma table_slot_less: "table_slot k = Ret i \<Longrightarrow> i < TINY_TTY_MINORS"
  by (auto simp: table_slot_def nat_less_iff split: if_splits)

lemma open_evolves:
  assumes "length (tiny_table s) = TINY_TTY_MINORS" and "tiny_open L K j s l = Ret (ret, s', l')"
  shows "evolves K s s'"
proof -
  let ?s = "upd_tty j (\<lambda>y. y\<lparr>driver_data := None\<rparr>) s"
  obtain i where slot: "table_slot (index (ttys s j)) = Ret i" and lt: "i < length (tiny_table s)"
    using assms by (cases "table_slot (index (ttys s j))") (auto simp: tiny_open_def Let_def dest: table_slot_less)
  show ?thesis
  proof (cases "tiny_table s ! i")
    case (Some t)
    then have "tiny_open_rest L K j i t ?s l = Ret (ret, s', l')"
      using assms(2) slot by (simp add: tiny_open_def)
    from open_rest_memory [OF this] Some lt show ?thesis
      by (auto simp: upd_tty_twice deref_tiny_def intro!: evolves_put)
  next
    case None
    let ?t = "(tiny_garbage K l)\<lparr>tiny_ptr := fst (kmalloc K l (sizeof_tiny K) (GFP_KERNEL K)), sem := lk_init L, open_count := 0, timer := None\<rparr>"
    have "s' = ?s \<or> (\<exists>l1. tiny_open_rest L K j i ?t (put_tiny i ?t ?s) l1 = Ret (ret, s', l'))"
      using assms(2) slot None by (auto simp: tiny_open_def Let_def split: if_splits)
    then have "s' = ?s \<or> (\<exists>t' f. s' = put_tiny i t' (upd_tty j f s) \<and> memory_of t' = memory_of (tiny_garbage K l) \<and>
        (\<forall>y. termios (f y) = termios y))"
      by (fastforce simp: upd_tty_twice dest!: open_rest_memory)
    moreover have "evolves K s ?s" by (simp add: evolves_def)
    moreover have "deref_tiny i s = Fault BadState" using None lt by (simp add: deref_tiny_def)
    ultimately show ?thesis using lt by (auto intro!: evolves_new)
  qed
qed

lemma open_rest_result:
  "clean_memory K \<Longrightarrow> tiny_open_rest L K j i t s l = Ret (ret, s', l') \<Longrightarrow> ret = 0"
  by (auto simp: tiny_open_rest_def tiny_open_timer_def clean_memory_def Let_def obind_Ret_iff split: option.splits if_splits)

lemma open_result:
  "clean_memory K \<Longrightarrow> tiny_open L K j s l = Ret (ret, s', l') \<Longrightarrow> ret = 0"
  using open_rest_result [of K L j] unfolding clean_memory_def
  by (auto simp: tiny_open_def Let_def obind_Ret_iff split: option.splits)

lemma do_close_memory: "do_close L t = Ret t' \<Longrightarrow> memory_of t' = memory_of t"
  by (auto simp: do_close_def Let_def obind_Ret_iff split: option.splits if_splits)

lemma close_evolves: "tiny_close L j s = Ret s' \<Longrightarrow> evolves K s s'"
  by (auto simp: tiny_close_def obind_Ret_iff dest: do_close_memory intro!: evolves_put split: option.splits)

lemma tick_evolves: "tiny_tick K i s l = Ret s' \<Longrightarrow> evolves K s s'"
  by (auto simp: tiny_tick_def timer_expires_def tiny_timer_def deref_tiny_Ret_iff add_timer_def Let_def obind_Ret_iff
      upd_tty_twice intro!: evolves_put split: option.splits if_splits)

lemma step_evolves:
  assumes "length (tiny_table s) = TINY_TTY_MINORS" and "tiny_step L K e s l = Ret (s', l')"
  shows "evolves K s s'"
  using assms by (cases e) (auto simp: obind_Ret_iff intro: open_evolves close_evolves tick_evolves)

section \<open>The simulation\<close>

text \<open>
  \<open>mem_fits\<close>: \<open>mem\<close> is, up to the RTS bit, the memory of the ports that exist, and fresh memory
  for the others. \<open>abst\<close> reads the state of the specification off a session.
\<close>

definition but_rts :: "port_memory \<Rightarrow> port_memory" where
  "but_rts m = m\<lparr>mcr0 := mcr0 m AND NOT MCR_RTS\<rparr>"

definition mem_fits :: "'l tty_kernel \<Rightarrow> (nat \<Rightarrow> port_memory) \<Rightarrow> 'l tiny_state \<Rightarrow> bool" where
  "mem_fits K mem s \<longleftrightarrow>
     (\<forall>i. case contents s i of
        Some m \<Rightarrow> but_rts m = but_rts (mem i)
      | None \<Rightarrow> mem i \<in> range (\<lambda>l. memory_of (tiny_garbage K l)))"

definition current :: "(nat \<Rightarrow> port_memory) \<Rightarrow> 'l tiny_state \<Rightarrow> nat \<Rightarrow> port_memory" where
  "current mem s i = (case contents s i of Some m \<Rightarrow> m | None \<Rightarrow> mem i)"

definition abst :: "(nat \<Rightarrow> port_memory) \<Rightarrow> spec_state \<Rightarrow> 'l session \<Rightarrow> tty_spec" where
  "abst mem lf S =
     \<lparr>life = lf, rts = (\<lambda>i. has_bit (mcr0 (current mem (tiny_of S) i)) MCR_RTS),
      settings = (\<lambda>j. termios (ttys (tiny_of S) j)),
      waiting = map (\<lambda>w. (sl_port w, sl_arg w)) (sleepers S)\<rparr>"

definition session_ok :: "'l lockops \<Rightarrow> nat \<Rightarrow> spec_state \<Rightarrow> 'l session \<Rightarrow> bool" where
  "session_ok L k lf S \<longleftrightarrow> tiny_refines L k lf (tiny_of S) \<and> indices_ok (tiny_of S) \<and>
     (\<forall>w \<in> set (sleepers S). \<exists>m. contents (tiny_of S) (sl_port w) = Some m \<and> sl_cprev w = icount0 m)"

text \<open>
  One step of a session is one call of the specification. Read backwards: whatever memory
  explains the rest of the session, some memory explains it with this step before it.
\<close>

definition explained ::
    "'l lockops \<Rightarrow> 'l tty_kernel \<Rightarrow> tty_abi \<Rightarrow> uaccess \<Rightarrow> nat \<Rightarrow> serial_call \<Rightarrow> spec_state \<Rightarrow> 'l session \<Rightarrow>
      tty_output \<Rightarrow> spec_state \<Rightarrow> 'l session \<Rightarrow> bool" where
  "explained L K A U k c lf S out lf' S' \<longleftrightarrow>
     session_ok L (Suc k) lf' S' \<and> port_of (tiny_of S') = port_of (tiny_of S) \<and>
     (\<forall>mem'. mem_fits K mem' (tiny_of S') \<longrightarrow>
        (\<exists>mem. mem_fits K mem (tiny_of S) \<and> (\<forall>i. but_rts (mem i) = but_rts (mem' i)) \<and>
           spec_call mem K A U (port_of (tiny_of S)) c (abst mem lf S) = Ret (out, abst mem' lf' S')))"

definition simulated ::
    "'l lockops \<Rightarrow> 'l tty_kernel \<Rightarrow> tty_abi \<Rightarrow> uaccess \<Rightarrow> nat \<Rightarrow> serial_call \<Rightarrow> spec_state \<Rightarrow> 'l session \<Rightarrow> bool" where
  "simulated L K A U k c lf S \<longleftrightarrow>
     (case session_step L K A U c S of
        Block \<Rightarrow> False
      | Fault e \<Rightarrow> \<forall>mem. mem_fits K mem (tiny_of S) \<longrightarrow>
          spec_call mem K A U (port_of (tiny_of S)) c (abst mem lf S) = Fault e
      | Ret (out, S') \<Rightarrow> \<exists>lf'. explained L K A U k c lf S out lf' S')"

lemma evolves_explains:
  assumes "evolves K s s'" and "mem_fits K mem' s'"
  shows "\<exists>mem. mem_fits K mem s \<and> (\<forall>i. but_rts (mem i) = but_rts (mem' i)) \<and> current mem s = current mem' s'"
proof -
  define mem where "mem i = (if contents s i = None \<and> contents s' i \<noteq> None then the (contents s' i) else mem' i)" for i
  have e: "contents s' i = contents s i \<or> contents s i = None \<and> (\<exists>l. contents s' i = Some (memory_of (tiny_garbage K l)))" for i
    using assms(1) by (simp add: evolves_def)
  have f: "case contents s' i of Some m \<Rightarrow> but_rts m = but_rts (mem' i)
      | None \<Rightarrow> mem' i \<in> range (\<lambda>l. memory_of (tiny_garbage K l))" for i
    using assms(2) by (simp add: mem_fits_def)
  have "mem_fits K mem s"
    unfolding mem_fits_def
  proof
    fix i
    show "case contents s i of Some m \<Rightarrow> but_rts m = but_rts (mem i)
      | None \<Rightarrow> mem i \<in> range (\<lambda>l. memory_of (tiny_garbage K l))"
      using e [of i] f [of i] by (auto simp: mem_def split: option.splits)
  qed
  moreover have "but_rts (mem i) = but_rts (mem' i)" for i
    using f [of i] by (auto simp: mem_def split: option.splits)
  moreover have "current mem s i = current mem' s' i" for i
    using e [of i] by (auto simp: mem_def current_def split: option.splits)
  ultimately show ?thesis by blast
qed

lemma life_simulated:
  assumes "lock_laws V L" and "clean_memory K" and "session_ok L k lf S" and "int k + 1 < 2 ^ 31"
  shows "simulated L K A U k (Life e) lf S"
proof -
  let ?s = "tiny_of S" and ?l = "klog_of S"
  have r: "tiny_refines L k lf ?s" and ix: "indices_ok ?s" using assms(3) by (auto simp: session_ok_def)
  have "step_ok k L K e lf ?s ?l"
    using open_ok [OF assms(1,2) r ix assms(4)] close_ok [OF assms(1) r ix] tick_ok [OF r ix] by (cases e) auto
  then obtain s' l' where s': "tiny_step L K e ?s ?l = Ret (s', l')"
    "tiny_refines L (Suc k) (spec_step (port_of ?s) e lf) s'" "indices_ok s'" "port_of s' = port_of ?s"
    by (auto simp: step_ok_def)
  have ev: "evolves K ?s s'"
    using step_evolves [OF _ s'(1)] r by (simp add: tiny_refines_def)
  let ?S = "S\<lparr>tiny_of := s', klog_of := l'\<rparr>" and ?out = "case e of Open j \<Rightarrow> Result 0 | _ \<Rightarrow> Done"
  have step: "session_step L K A U (Life e) S = Ret (?out, ?S)"
    using s'(1) open_result [OF assms(2)] by (cases e) (auto simp: obind_Ret_iff)
  have kept: "contents s' i = Some m" if "contents ?s i = Some m" for i m
    using ev that by (auto simp: evolves_def dest: spec [of _ i])
  have ok: "session_ok L (Suc k) (spec_step (port_of ?s) e lf) ?S"
    using s' assms(3) by (auto simp: session_ok_def dest!: bspec intro!: kept)
  have "explained L K A U k (Life e) lf S ?out (spec_step (port_of ?s) e lf) ?S"
    unfolding explained_def
  proof (intro conjI allI impI)
    fix mem' assume "mem_fits K mem' (tiny_of ?S)"
    then obtain mem where m: "mem_fits K mem ?s" "\<forall>i. but_rts (mem i) = but_rts (mem' i)" "current mem ?s = current mem' s'"
      using evolves_explains [OF ev] by auto
    have "termios (ttys s' j) = termios (ttys ?s j)" for j using ev by (simp add: evolves_def)
    with m show "\<exists>mem. mem_fits K mem ?s \<and> (\<forall>i. but_rts (mem i) = but_rts (mem' i)) \<and>
        spec_call mem K A U (port_of ?s) (Life e) (abst mem lf S) = Ret (?out, abst mem' (spec_step (port_of ?s) e lf) ?S)"
      by (intro exI [of _ mem]) (simp add: abst_def)
  qed (use ok s'(4) in auto)
  with step show ?thesis unfolding simulated_def by auto
qed

section \<open>The calls that leave the ports alone\<close>

lemma refines_port:
  assumes "lock_laws V L" and "tiny_refines L k lf s" and "indices_ok s" and "j \<in> attached lf"
  obtains t y where "driver_data (ttys s j) = Some (port_of s j)" and "port_of s j < length (tiny_table s)"
    and "tiny_table s ! port_of s j = Some t" and "lk_acquire L (sem t) = Some y"
    and "open_count t = 0 \<longleftrightarrow> users lf (port_of s j) = 0"
    and "tiny_refines L k lf (put_tiny (port_of s j) (t\<lparr>sem := lk_release L y\<rparr>) s)"
    and "contents s (port_of s j) = Some (memory_of t)"
proof -
  let ?i = "port_of s j"
  have lt: "?i < TINY_TTY_MINORS" using port_slot [OF assms(3)] by simp
  obtain t where t: "tiny_table s ! ?i = Some t" and d: "driver_data (ttys s j) = Some ?i"
    using assms(2,4) by (fastforce simp: tiny_refines_def)
  note ref = refinesD [OF assms(2) lt]
  have ok: "port_ok L (users lf ?i) t" by (rule ref(4) [OF t])
  then obtain y where y: "lk_acquire L (sem t) = Some y" by (auto simp: port_ok_def lk_free_def)
  have "lk_free L (lk_release L y)" using assms(1) y by (auto simp: lock_laws_def)
  then have "tiny_refines L k lf (put_tiny ?i (t\<lparr>sem := lk_release L y\<rparr>) s)"
    using ok t by (intro refines_put_same [OF assms(2) lt]) (auto simp: port_ok_def)
  moreover have "open_count t = 0 \<longleftrightarrow> users lf ?i = 0"
    using ok sint_0_iff [of "open_count t"] by (auto simp: port_ok_def)
  moreover have "contents s ?i = Some (memory_of t)"
    using t lt ref(1) by (intro contents_Some) (simp add: deref_tiny_Ret_iff)
  ultimately show ?thesis using that [of t y] t d y lt ref(1) by simp
qed

lemma refines_detached: "tiny_refines L k lf s \<Longrightarrow> j \<notin> attached lf \<Longrightarrow> driver_data (ttys s j) = None"
  by (simp add: tiny_refines_def)

lemma quiet_explained:
  assumes "session_ok L k lf S" and "tiny_refines L k lf s'" and "indices_ok s'" and "port_of s' = port_of (tiny_of S)"
    and "contents s' = contents (tiny_of S)" and "\<And>j. termios (ttys s' j) = termios (ttys (tiny_of S) j)"
    and "\<And>mem. mem_fits K mem (tiny_of S) \<Longrightarrow>
      spec_call mem K A U (port_of (tiny_of S)) c (abst mem lf S) = Ret (out, abst mem lf S)"
  shows "explained L K A U k c lf S out lf (S\<lparr>tiny_of := s'\<rparr>)"
proof -
  have "mem_fits K mem s' \<longleftrightarrow> mem_fits K mem (tiny_of S)" for mem
    by (simp add: mem_fits_def assms(5))
  moreover have "abst mem lf (S\<lparr>tiny_of := s'\<rparr>) = abst mem lf S" for mem
    by (simp add: abst_def current_def assms(5,6))
  ultimately show ?thesis
    using assms refines_mono [OF assms(2)] by (auto simp: explained_def session_ok_def)
qed

lemma unchanged_explained:
  assumes "session_ok L k lf S"
    and "\<And>mem. mem_fits K mem (tiny_of S) \<Longrightarrow>
      spec_call mem K A U (port_of (tiny_of S)) c (abst mem lf S) = Ret (out, abst mem lf S)"
  shows "explained L K A U k c lf S out lf S"
  using quiet_explained [of L k lf S "tiny_of S" K A U c out] assms by (simp add: session_ok_def)

lemma locked_port:
  assumes "lock_laws V L" and "session_ok L k lf S" and "j \<in> attached lf"
  obtains i t y where "i = port_of (tiny_of S) j" and "driver_data (ttys (tiny_of S) j) = Some i"
    and "deref_tiny i (tiny_of S) = Ret t" and "lk_acquire L (sem t) = Some y"
    and "open_count t = 0 \<longleftrightarrow> users lf i = 0"
    and "\<And>c out. \<forall>mem. spec_call mem K A U (port_of (tiny_of S)) c (abst mem lf S) = Ret (out, abst mem lf S) \<Longrightarrow>
      explained L K A U k c lf S out lf (S\<lparr>tiny_of := put_tiny i (t\<lparr>sem := lk_release L y\<rparr>) (tiny_of S)\<rparr>)"
proof -
  let ?i = "port_of (tiny_of S) j"
  have r: "tiny_refines L k lf (tiny_of S)" and ix: "indices_ok (tiny_of S)"
    using assms(2) by (auto simp: session_ok_def)
  obtain t y where p: "driver_data (ttys (tiny_of S) j) = Some ?i" "?i < length (tiny_table (tiny_of S))"
    "tiny_table (tiny_of S) ! ?i = Some t" "lk_acquire L (sem t) = Some y"
    "open_count t = 0 \<longleftrightarrow> users lf ?i = 0"
    "tiny_refines L k lf (put_tiny ?i (t\<lparr>sem := lk_release L y\<rparr>) (tiny_of S))"
    "contents (tiny_of S) ?i = Some (memory_of t)"
    by (rule refines_port [OF assms(1) r ix assms(3)])
  have c: "contents (put_tiny ?i (t\<lparr>sem := lk_release L y\<rparr>) (tiny_of S)) = contents (tiny_of S)"
    using p(2,7) by (auto simp: fun_eq_iff)
  have e: "explained L K A U k c lf S out lf
      (S\<lparr>tiny_of := put_tiny ?i (t\<lparr>sem := lk_release L y\<rparr>) (tiny_of S)\<rparr>)"
    if "\<forall>mem. spec_call mem K A U (port_of (tiny_of S)) c (abst mem lf S) = Ret (out, abst mem lf S)" for c out
    using that p(6) ix by (intro quiet_explained [OF assms(2) _ _ _ c]) auto
  have "deref_tiny ?i (tiny_of S) = Ret t" using p(2,3) by (simp add: deref_tiny_def)
  from that [OF refl p(1) this p(4,5) e] show ?thesis .
qed

lemma detached_simulated:
  assumes "session_ok L k lf S" and "session_step L K A U c S = Ret (out, S)"
    and "\<forall>mem. spec_call mem K A U (port_of (tiny_of S)) c (abst mem lf S) = Ret (out, abst mem lf S)"
  shows "simulated L K A U k c lf S"
  using unchanged_explained [OF assms(1), of K A U c out] assms(2,3) by (auto simp: simulated_def)

lemma write_room_simulated:
  assumes "lock_laws V L" and "session_ok L k lf S"
  shows "simulated L K A U k (Write_room j) lf S"
proof (cases "j \<in> attached lf")
  case False
  then have "driver_data (ttys (tiny_of S) j) = None"
    using assms(2) by (auto simp: session_ok_def intro: refines_detached)
  with False show ?thesis
    by (intro detached_simulated [OF assms(2)]) (simp_all add: tiny_write_room_def abst_def)
next
  case True
  obtain i t y where p: "i = port_of (tiny_of S) j" "driver_data (ttys (tiny_of S) j) = Some i"
    "deref_tiny i (tiny_of S) = Ret t" "lk_acquire L (sem t) = Some y" "open_count t = 0 \<longleftrightarrow> users lf i = 0"
    and e: "\<And>c out. \<forall>mem. spec_call mem K A U (port_of (tiny_of S)) c (abst mem lf S) = Ret (out, abst mem lf S) \<Longrightarrow>
      explained L K A U k c lf S out lf (S\<lparr>tiny_of := put_tiny i (t\<lparr>sem := lk_release L y\<rparr>) (tiny_of S)\<rparr>)"
    by (rule locked_port [OF assms True, of K A U]) (rule that)
  let ?r = "if users lf i = 0 then - EINVAL else 255"
  have "explained L K A U k (Write_room j) lf S (Result ?r) lf
      (S\<lparr>tiny_of := put_tiny i (t\<lparr>sem := lk_release L y\<rparr>) (tiny_of S)\<rparr>)"
    by (rule e) (simp add: abst_def True p(1))
  moreover have "session_step L K A U (Write_room j) S =
      Ret (Result ?r, S\<lparr>tiny_of := put_tiny i (t\<lparr>sem := lk_release L y\<rparr>) (tiny_of S)\<rparr>)"
    using p by (simp add: tiny_write_room_def with_port_def)
  ultimately show ?thesis by (auto simp: simulated_def)
qed

lemma write_simulated:
  assumes "lock_laws V L" and "session_ok L k lf S"
  shows "simulated L K A U k (Write j buf cnt) lf S"
proof (cases "j \<in> attached lf")
  case False
  then have "driver_data (ttys (tiny_of S) j) = None"
    using assms(2) by (auto simp: session_ok_def intro: refines_detached)
  with False show ?thesis
    by (intro detached_simulated [OF assms(2)]) (simp_all add: tiny_write_def abst_def)
next
  case True
  obtain i t y where p: "i = port_of (tiny_of S) j" "driver_data (ttys (tiny_of S) j) = Some i"
    "deref_tiny i (tiny_of S) = Ret t" "lk_acquire L (sem t) = Some y" "open_count t = 0 \<longleftrightarrow> users lf i = 0"
    and e: "\<And>c out. \<forall>mem. spec_call mem K A U (port_of (tiny_of S)) c (abst mem lf S) = Ret (out, abst mem lf S) \<Longrightarrow>
      explained L K A U k c lf S out lf (S\<lparr>tiny_of := put_tiny i (t\<lparr>sem := lk_release L y\<rparr>) (tiny_of S)\<rparr>)"
    by (rule locked_port [OF assms True, of K A U]) (rule that)
  let ?S = "S\<lparr>tiny_of := put_tiny i (t\<lparr>sem := lk_release L y\<rparr>) (tiny_of S)\<rparr>"
  define m where "m = (if users lf i = 0 then Ret [] else printed_bytes buf cnt)"
  have "session_step L K A U (Write j buf cnt) S = obind m (\<lambda>out. Ret (Printed (- EINVAL) out, ?S))"
    using p by (cases "printed_bytes buf cnt") (simp_all add: tiny_write_def with_port_def m_def)
  moreover have "spec_call mem K A U (port_of (tiny_of S)) (Write j buf cnt) (abst mem lf S) =
      obind m (\<lambda>out. Ret (Printed (- EINVAL) out, abst mem lf S))" for mem
    using True by (simp add: m_def abst_def p(1))
  moreover have "m \<noteq> Block" by (simp add: m_def printed_bytes_def)
  ultimately show ?thesis
    using e [of "Write j buf cnt"] by (cases m) (auto simp: simulated_def)
qed

section \<open>The calls on a port\<close>

lemma with_rts_same:
  assumes "x AND NOT MCR_RTS = m AND NOT MCR_RTS"
  shows "with_rts x (has_bit m MCR_RTS) = m"
proof -
  have one: "bit MCR_RTS n \<longleftrightarrow> n = 1" for n
    by (auto simp: MCR_RTS_def bit_2_iff)
  have "has_bit m MCR_RTS \<longleftrightarrow> bit m 1"
    using and_exp_eq_0_iff_not_bit [of m 1] by (simp add: has_bit_def MCR_RTS_def)
  then have "(if has_bit m MCR_RTS then MCR_RTS else 0) = m AND MCR_RTS"
    by (intro bit_word_eqI) (auto simp: bit_and_iff one)
  then have "with_rts x (has_bit m MCR_RTS) = (m AND NOT MCR_RTS) OR (m AND MCR_RTS)"
    by (simp add: with_rts_def assms)
  also have "\<dots> = m" by (auto simp: bit_eq_iff bit_simps)
  finally show ?thesis .
qed

lemma fits_port:
  assumes "mem_fits K mem s" and "contents s i = Some (memory_of t)"
  shows "msr0 (mem i) = msr t" and "serial0 (mem i) = serial t" and "wait0 (mem i) = wait t"
    and "icount0 (mem i) = icount t" and "with_rts (mcr0 (mem i)) (has_bit (mcr t) MCR_RTS) = mcr t"
proof -
  have "but_rts (memory_of t) = but_rts (mem i)"
    using assms by (auto simp: mem_fits_def dest: spec [of _ i])
  moreover obtain a b c d e where "mem i = \<lparr>msr0 = a, mcr0 = b, serial0 = c, wait0 = d, icount0 = e\<rparr>"
    by (cases "mem i") auto
  ultimately show "msr0 (mem i) = msr t" "serial0 (mem i) = serial t" "wait0 (mem i) = wait t"
    "icount0 (mem i) = icount t" "with_rts (mcr0 (mem i)) (has_bit (mcr t) MCR_RTS) = mcr t"
    by (simp_all add: but_rts_def memory_of_def with_rts_same)
qed

lemma rts_port: "contents (tiny_of S) i = Some (memory_of t) \<Longrightarrow> rts (abst mem lf S) i = has_bit (mcr t) MCR_RTS"
  by (simp add: abst_def current_def memory_of_def)

lemma attached_port:
  assumes "session_ok L k lf S" and "j \<in> attached lf"
  obtains i t where "i = port_of (tiny_of S) j" and "tty_port j (tiny_of S) = Ret (i, t)"
    and "contents (tiny_of S) i = Some (memory_of t)" and "i < TINY_TTY_MINORS" and "port_ok L (users lf i) t"
proof -
  let ?s = "tiny_of S"
  have r: "tiny_refines L k lf ?s" and ix: "indices_ok ?s" using assms(1) by (auto simp: session_ok_def)
  have lt: "port_of ?s j < TINY_TTY_MINORS" using port_slot [OF ix] by simp
  obtain t where t: "tiny_table ?s ! port_of ?s j = Some t" and d: "driver_data (ttys ?s j) = Some (port_of ?s j)"
    using r assms(2) by (fastforce simp: tiny_refines_def)
  note ref = refinesD [OF r lt]
  have "tty_port j ?s = Ret (port_of ?s j, t)" using t d lt ref(1) by (simp add: tty_port_Ret_iff)
  moreover have "contents ?s (port_of ?s j) = Some (memory_of t)"
    using t lt ref(1) by (intro contents_Some) (simp add: deref_tiny_Ret_iff)
  ultimately show ?thesis using that [OF refl] lt ref(4) [OF t] by blast
qed

lemma detached_port:
  "session_ok L k lf S \<Longrightarrow> j \<notin> attached lf \<Longrightarrow> tty_port j (tiny_of S) = Fault NullDeref"
  using refines_detached [of L k lf "tiny_of S" j] by (simp add: session_ok_def tty_port_def)

lemma life_abst [simp]: "life (abst mem lf S) = lf"
  by (simp add: abst_def)

lemma tiocmget_simulated:
  assumes "session_ok L k lf S"
  shows "simulated L K A U k (Tiocmget j) lf S"
proof (cases "j \<in> attached lf")
  case False
  with detached_port [OF assms] show ?thesis
    by (simp add: simulated_def tiny_tiocmget_def spec_needs_def)
next
  case True
  obtain i t where p: "i = port_of (tiny_of S) j" "tty_port j (tiny_of S) = Ret (i, t)"
    "contents (tiny_of S) i = Some (memory_of t)"
    by (rule attached_port [OF assms True])
  have "explained L K A U k (Tiocmget j) lf S (Result (modem_bits A (msr t) (mcr t))) lf S"
    using True p(1) fits_port [OF _ p(3)] rts_port [OF p(3)]
    by (intro unchanged_explained [OF assms]) (simp add: spec_needs_def)
  then show ?thesis
    using p(2) by (auto simp: simulated_def tiny_tiocmget_def)
qed

lemma set_termios_simulated:
  assumes "session_ok L k lf S"
  shows "simulated L K A U k (Set_termios j new) lf S"
proof -
  let ?s = "upd_tty j (\<lambda>y. y\<lparr>termios := new\<rparr>) (tiny_of S)"
  let ?out = "Messages (tiny_set_termios A new (Some (termios (ttys (tiny_of S) j))))"
  have "port_of ?s = port_of (tiny_of S)" by simp
  moreover have "tiny_refines L k lf (tiny_of S)" using assms by (simp add: session_ok_def)
  ultimately have "tiny_refines L k lf ?s"
    unfolding tiny_refines_def by (auto split: option.splits)
  then have r: "tiny_refines L (Suc k) lf ?s" by (rule refines_mono)
  have ok: "session_ok L (Suc k) lf (S\<lparr>tiny_of := ?s\<rparr>)"
    using assms r by (simp add: session_ok_def)
  have "explained L K A U k (Set_termios j new) lf S ?out lf (S\<lparr>tiny_of := ?s\<rparr>)"
    unfolding explained_def
  proof (intro conjI allI impI)
    fix mem assume m: "mem_fits K mem (tiny_of (S\<lparr>tiny_of := ?s\<rparr>))"
    have "abst mem lf (S\<lparr>tiny_of := ?s\<rparr>) = (abst mem lf S)\<lparr>settings := (settings (abst mem lf S))(j := new)\<rparr>"
      by (simp add: abst_def current_def fun_eq_iff)
    moreover have "settings (abst mem lf S) j = termios (ttys (tiny_of S) j)" by (simp add: abst_def)
    ultimately show "\<exists>mem'. mem_fits K mem' (tiny_of S) \<and> (\<forall>i. but_rts (mem' i) = but_rts (mem i)) \<and>
        spec_call mem' K A U (port_of (tiny_of S)) (Set_termios j new) (abst mem' lf S) =
          Ret (?out, abst mem lf (S\<lparr>tiny_of := ?s\<rparr>))"
      using m by (intro exI [of _ mem]) (simp add: mem_fits_def)
  qed (use ok in simp_all)
  then show ?thesis by (auto simp: simulated_def Let_def)
qed

lemma new_mcr_memory: "but_rts (m\<lparr>mcr0 := new_mcr A st cl (mcr0 m)\<rparr>) = but_rts m"
  by (simp add: but_rts_def new_mcr_rest)

lemma tiocmset_simulated:
  assumes "session_ok L k lf S"
  shows "simulated L K A U k (Tiocmset j st cl) lf S"
proof (cases "j \<in> attached lf")
  case False
  with detached_port [OF assms] show ?thesis
    by (simp add: simulated_def tiny_tiocmset_def spec_needs_def)
next
  case True
  let ?s = "tiny_of S"
  have r: "tiny_refines L k lf ?s" using assms by (simp add: session_ok_def)
  obtain i t where p: "i = port_of ?s j" "tty_port j ?s = Ret (i, t)"
    "contents ?s i = Some (memory_of t)" "i < TINY_TTY_MINORS" "port_ok L (users lf i) t"
    by (rule attached_port [OF assms True])
  let ?m = "new_mcr A st cl (mcr t)"
  let ?s' = "put_tiny i (t\<lparr>mcr := ?m\<rparr>) ?s" and ?S = "S\<lparr>tiny_of := put_tiny i (t\<lparr>mcr := ?m\<rparr>) ?s\<rparr>"
  have c: "contents ?s' = (contents ?s)(i \<mapsto> (memory_of t)\<lparr>mcr0 := ?m\<rparr>)"
    using p(2) by (simp add: tty_port_Ret_iff)
  have same: "but_rts ((memory_of t)\<lparr>mcr0 := ?m\<rparr>) = but_rts (memory_of t)"
    using new_mcr_memory [where m = "memory_of t" and A = A and st = st and cl = cl] by (simp add: memory_of_def)
  have "tiny_refines L k lf ?s'"
    using p(2,4,5) by (intro refines_put_same [OF r]) (auto simp: port_ok_def tty_port_Ret_iff)
  then have ok: "session_ok L (Suc k) lf ?S"
    using assms p(3) by (fastforce simp: session_ok_def c refines_mono)
  have "explained L K A U k (Tiocmset j st cl) lf S (Result 0) lf ?S"
    unfolding explained_def
  proof (intro conjI allI impI)
    fix mem assume f: "mem_fits K mem (tiny_of ?S)"
    have "mem_fits K mem ?s"
      unfolding mem_fits_def
    proof
      fix n show "case contents ?s n of Some m \<Rightarrow> but_rts m = but_rts (mem n)
          | None \<Rightarrow> mem n \<in> range (\<lambda>l. memory_of (tiny_garbage K l))"
        using f p(3) same by (cases "n = i") (auto simp: mem_fits_def c dest: spec [of _ n])
    qed
    moreover have "rts (abst mem lf ?S) = (rts (abst mem lf S))(i := has_bit ?m MCR_RTS)"
      by (simp add: abst_def current_def c fun_eq_iff)
    then have "abst mem lf ?S = (abst mem lf S)\<lparr>rts := (rts (abst mem lf S))(i := has_bit ?m MCR_RTS)\<rparr>"
      by (simp add: abst_def)
    ultimately show "\<exists>mem'. mem_fits K mem' ?s \<and> (\<forall>i. but_rts (mem' i) = but_rts (mem i)) \<and>
        spec_call mem' K A U (port_of ?s) (Tiocmset j st cl) (abst mem' lf S) = Ret (Result 0, abst mem lf ?S)"
      using True p(1) rts_port [OF p(3)] new_mcr_rts [of A st cl "mcr t"]
      by (intro exI [of _ mem]) (auto simp: spec_needs_def Let_def fun_eq_iff disj_commute conj_commute)
  qed (use ok in simp_all)
  then show ?thesis
    using p(2) by (auto simp: simulated_def tiny_tiocmset_def)
qed

lemma set_remove_nth: "set (remove_nth n xs) \<subseteq> set xs"
  using set_take_subset [of n xs] set_drop_subset [of "Suc n" xs] by (auto simp: remove_nth_def)

lemma map_remove_nth: "map f (remove_nth n xs) = remove_nth n (map f xs)"
  by (simp add: remove_nth_def take_map drop_map)

text \<open>A change of the sleepers alone.\<close>

lemma sleepers_explained:
  assumes "session_ok L k lf S"
    and "\<And>w. w \<in> set ws \<Longrightarrow> \<exists>m. contents (tiny_of S) (sl_port w) = Some m \<and> sl_cprev w = icount0 m"
    and "\<And>mem. mem_fits K mem (tiny_of S) \<Longrightarrow> spec_call mem K A U (port_of (tiny_of S)) c (abst mem lf S) =
        Ret (out, (abst mem lf S)\<lparr>waiting := map (\<lambda>w. (sl_port w, sl_arg w)) ws\<rparr>)"
  shows "explained L K A U k c lf S out lf (S\<lparr>sleepers := ws\<rparr>)"
proof -
  have "abst mem lf (S\<lparr>sleepers := ws\<rparr>) = (abst mem lf S)\<lparr>waiting := map (\<lambda>w. (sl_port w, sl_arg w)) ws\<rparr>" for mem
    by (simp add: abst_def)
  then show ?thesis
    using assms(1-3) refines_mono by (auto simp: explained_def session_ok_def)
qed

lemma wake_simulated:
  assumes "session_ok L k lf S"
  shows "simulated L K A U k (Wake n sg) lf S"
proof (cases "length (sleepers S) \<le> n")
  case True
  then show ?thesis
    by (intro detached_simulated [OF assms, of K A U "Wake n sg" Done]) (simp_all add: session_wake_def abst_def)
next
  case False
  let ?w = "sleepers S ! n"
  obtain m where m: "contents (tiny_of S) (sl_port ?w) = Some m" "sl_cprev ?w = icount0 m"
    using assms False by (auto simp: session_ok_def not_le dest!: bspec [OF _ nth_mem])
  then obtain t where t: "deref_tiny (sl_port ?w) (tiny_of S) = Ret t" "m = memory_of t"
    by (auto simp: contents_Some_iff)
  let ?out = "Result (if sg then - ERESTARTSYS else - EIO)"
  have "explained L K A U k (Wake n sg) lf S ?out lf (S\<lparr>sleepers := remove_nth n (sleepers S)\<rparr>)"
    using False assms set_remove_nth [of n "sleepers S"]
    by (intro sleepers_explained [OF assms]) (auto simp: abst_def map_remove_nth session_ok_def)
  moreover have "sl_cprev ?w = icount t" using m t by (simp add: memory_of_def)
  then have "session_wake A n sg S = Ret (?out, S\<lparr>sleepers := remove_nth n (sleepers S)\<rparr>)"
    using False t(1) by (simp add: session_wake_def Let_def)
  ultimately show ?thesis by (auto simp: simulated_def)
qed

text \<open>A call that only looks: what it returns, or its fault, is all.\<close>

lemma pure_simulated:
  assumes "session_ok L k lf S" and "session_step L K A U c S = obind r (\<lambda>out. Ret (out, S))" and "r \<noteq> Block"
    and "\<And>mem. mem_fits K mem (tiny_of S) \<Longrightarrow>
      spec_call mem K A U (port_of (tiny_of S)) c (abst mem lf S) = obind r (\<lambda>out. Ret (out, abst mem lf S))"
  shows "simulated L K A U k c lf S"
  using assms unchanged_explained [OF assms(1), of K A U c] by (cases r) (auto simp: simulated_def)

lemma ioctl_detached:
  assumes "session_ok L k lf S" and "j \<notin> attached lf"
  shows "simulated L K A U k (Ioctl j cmd arg stack) lf S"
proof -
  let ?r = "if cmd = TIOCGSERIAL A \<and> arg = 0 then Ret (Copied (- EFAULT) [])
     else if cmd \<in> {TIOCGSERIAL A, TIOCMIWAIT A, TIOCGICOUNT A} then Fault NullDeref
     else Ret (Copied (- ENOIOCTLCMD) [])"
  have "session_step L K A U (Ioctl j cmd arg stack) S = obind ?r (\<lambda>out. Ret (out, S))"
    using detached_port [OF assms]
    by (auto simp: session_ioctl_def tiny_ioctl_def tiny_ioctl_tiocgserial_def tiny_ioctl_tiocmiwait_def
        tiny_ioctl_tiocgicount_def)
  moreover have "spec_call mem K A U (port_of (tiny_of S)) (Ioctl j cmd arg stack) (abst mem lf S) =
      obind ?r (\<lambda>out. Ret (out, abst mem lf S))" for mem
    using assms(2) by (auto simp: spec_ioctl_def spec_needs_def Let_def)
  ultimately show ?thesis by (intro pure_simulated [OF assms(1), of K A U _ ?r]) auto
qed

lemma ioctl_attached:
  assumes "session_ok L k lf S" and "j \<in> attached lf"
  shows "simulated L K A U k (Ioctl j cmd arg stack) lf S"
proof -
  let ?s = "tiny_of S" and ?c = "Ioctl j cmd arg stack"
  obtain i t where p: "i = port_of ?s j" "tty_port j ?s = Ret (i, t)" "contents ?s i = Some (memory_of t)"
    by (rule attached_port [OF assms])
  note f = fits_port [OF _ p(3)]
  let ?r = "if cmd = TIOCGSERIAL A
     then Ret (if arg = 0 then Copied (- EFAULT) [] else spec_copy (copy_to_user U arg (serial_bytes A (get_serial K A (serial t)))))
     else if cmd = TIOCMIWAIT A then Fault BadState
     else if cmd = TIOCGICOUNT A then Ret (spec_copy (copy_to_user U arg (icount_bytes A (icount t, stack))))
     else Ret (Copied (- ENOIOCTLCMD) [])"
  let ?ws = "sleepers S @ [\<lparr>sl_port = i, sl_arg = arg, sl_cprev = icount t\<rparr>]"
  show ?thesis
  proof (cases "cmd = TIOCMIWAIT A \<and> cmd \<noteq> TIOCGSERIAL A \<and> wait t = List_head")
    case True
    then have "explained L K A U k ?c lf S Asleep lf (S\<lparr>sleepers := ?ws\<rparr>)"
      using assms f p(3)
      by (intro sleepers_explained [OF assms(1)])
        (auto simp: spec_ioctl_def spec_needs_def abst_def session_ok_def memory_of_def simp flip: p(1))
    moreover have "session_step L K A U ?c S = Ret (Asleep, S\<lparr>sleepers := ?ws\<rparr>)"
      using True p(2) by (auto simp: session_ioctl_def tiny_ioctl_def tiny_ioctl_tiocmiwait_def)
    ultimately show ?thesis by (auto simp: simulated_def)
  next
    case False
    have "session_step L K A U ?c S = obind ?r (\<lambda>out. Ret (out, S))"
      using False p(2)
      by (auto simp: session_ioctl_def tiny_ioctl_def tiny_ioctl_tiocgserial_def tiny_ioctl_tiocmiwait_def
          tiny_ioctl_tiocgicount_def spec_copy_def split: prod.split)
    moreover have "spec_call mem K A U (port_of ?s) ?c (abst mem lf S) = obind ?r (\<lambda>out. Ret (out, abst mem lf S))"
      if "mem_fits K mem ?s" for mem
      using False assms(2) f [OF that]
      by (simp add: spec_ioctl_def spec_needs_def Let_def flip: p(1)) auto
    ultimately show ?thesis by (intro pure_simulated [OF assms(1), of K A U ?c ?r]) auto
  qed
qed

section \<open>Whole sessions\<close>

lemma call_simulated:
  assumes "lock_laws V L" and "clean_memory K" and "session_ok L k lf S" and "int k + 1 < 2 ^ 31"
  shows "simulated L K A U k c lf S"
  using assms
  by (cases c) (auto intro: life_simulated write_simulated write_room_simulated set_termios_simulated
      tiocmget_simulated tiocmset_simulated wake_simulated ioctl_attached ioctl_detached)

text \<open>The specification does not look at the RTS bit of the memory.\<close>

lemma but_rts_parts:
  assumes "but_rts m = but_rts m'"
  shows "msr0 m = msr0 m'" "serial0 m = serial0 m'" "wait0 m = wait0 m'" "icount0 m = icount0 m'"
    "with_rts (mcr0 m) b = with_rts (mcr0 m') b"
  using assms by (cases m; cases m'; simp add: but_rts_def with_rts_def)+

lemma spec_call_memory:
  assumes "\<forall>i. but_rts (mem i) = but_rts (mem' i)"
  shows "spec_call mem K A U slot c a = spec_call mem' K A U slot c a"
  using but_rts_parts [OF assms [rule_format]]
  by (cases c) (simp_all add: spec_ioctl_def Let_def)

lemma spec_calls_memory:
  assumes "\<forall>i. but_rts (mem i) = but_rts (mem' i)"
  shows "spec_calls mem K A U slot cs a = spec_calls mem' K A U slot cs a"
  by (induction cs arbitrary: a) (simp_all add: spec_call_memory [OF assms])

definition outputs :: "(tty_output list \<times> 'l session) outcome \<Rightarrow> tty_output list outcome" where
  "outputs m = obind m (\<lambda>(outs, S). Ret outs)"

lemma outputs_Cons:
  "outputs (session_run L K A U (c # cs) S) =
     obind (session_step L K A U c S) (\<lambda>(out, S'). obind (outputs (session_run L K A U cs S')) (\<lambda>outs. Ret (out # outs)))"
proof (cases "session_step L K A U c S")
  case (Ret r)
  then show ?thesis
    by (cases "session_run L K A U cs (snd r)") (auto simp: outputs_def split: prod.splits)
qed (simp_all add: outputs_def)

lemma session_explained:
  assumes "lock_laws V L" and "clean_memory K"
  shows "session_ok L k lf S \<Longrightarrow> int k + int (length cs) < 2 ^ 31 \<Longrightarrow>
    \<exists>mem. mem_fits K mem (tiny_of S) \<and>
      outputs (session_run L K A U cs S) = spec_calls mem K A U (port_of (tiny_of S)) cs (abst mem lf S)"
proof (induction cs arbitrary: k lf S)
  case Nil
  let ?mem = "\<lambda>i. case contents (tiny_of S) i of Some m \<Rightarrow> m | None \<Rightarrow> memory_of (tiny_garbage K [])"
  have "mem_fits K ?mem (tiny_of S)"
    unfolding mem_fits_def by (auto split: option.splits)
  then show ?case by (intro exI [of _ ?mem]) (simp add: outputs_def)
next
  case (Cons c cs)
  have sim: "simulated L K A U k c lf S"
    using Cons.prems by (intro call_simulated [OF assms]) auto
  show ?case
  proof (cases "session_step L K A U c S")
    case (Ret r)
    then obtain out S' where r: "session_step L K A U c S = Ret (out, S')" by (cases r) auto
    then obtain lf' where ex: "explained L K A U k c lf S out lf' S'"
      using sim by (auto simp: simulated_def)
    then have ok: "session_ok L (Suc k) lf' S'" and ps: "port_of (tiny_of S') = port_of (tiny_of S)"
      by (auto simp: explained_def)
    obtain mem' where m': "mem_fits K mem' (tiny_of S')"
      "outputs (session_run L K A U cs S') = spec_calls mem' K A U (port_of (tiny_of S)) cs (abst mem' lf' S')"
      using Cons.IH [OF ok] Cons.prems(2) ps by auto
    then obtain mem where m: "mem_fits K mem (tiny_of S)" "\<forall>i. but_rts (mem i) = but_rts (mem' i)"
      "spec_call mem K A U (port_of (tiny_of S)) c (abst mem lf S) = Ret (out, abst mem' lf' S')"
      using ex by (auto simp: explained_def)
    show ?thesis
      using m r m'(2) spec_calls_memory [OF m(2), where K = K] by (intro exI [of _ mem]) (simp add: outputs_Cons del: session_run.simps)
  next
    case Block
    then show ?thesis using sim by (simp add: simulated_def)
  next
    case (Fault e)
    let ?mem = "\<lambda>i. case contents (tiny_of S) i of Some m \<Rightarrow> m | None \<Rightarrow> memory_of (tiny_garbage K [])"
    have "mem_fits K ?mem (tiny_of S)"
      unfolding mem_fits_def by (auto split: option.splits)
    then show ?thesis
      using Fault sim by (intro exI [of _ ?mem]) (simp add: outputs_Cons simulated_def del: session_run.simps)
  qed
qed

section \<open>Properties of sessions\<close>

definition fresh_session :: "'l tiny_state \<Rightarrow> klog \<Rightarrow> 'l session" where
  "fresh_session s l = \<lparr>tiny_of = s, klog_of = l, sleepers = []\<rparr>"

definition spec_start :: "(nat \<Rightarrow> port_memory) \<Rightarrow> 'l tiny_state \<Rightarrow> tty_spec" where
  "spec_start mem s = \<lparr>life = spec_image, rts = (\<lambda>i. has_bit (mcr0 (mem i)) MCR_RTS),
     settings = (\<lambda>j. termios (ttys s j)), waiting = []\<rparr>"

lemma session_explained_from_start:
  assumes "lock_laws V L" and "clean_memory K" and "indices_ok s" and "\<forall>j. driver_data (ttys s j) = None"
    and "tiny_init K (tiny_image s) [] = (0, s0, l0)" and "length cs < 2 ^ 31"
  shows "\<exists>mem. range mem \<subseteq> range (\<lambda>l. memory_of (tiny_garbage K l)) \<and>
    outputs (session_run L K A U cs (fresh_session s0 l0)) = spec_calls mem K A U (port_of s) cs (spec_start mem s)"
proof -
  note i = tiny_init_ok [OF assms(5,4) ledger_Nil]
  let ?S = "fresh_session s0 l0"
  have "session_ok L 0 spec_image ?S"
    using i(1,3) assms(3) by (simp add: session_ok_def fresh_session_def)
  then obtain mem where m: "mem_fits K mem (tiny_of ?S)"
    "outputs (session_run L K A U cs ?S) = spec_calls mem K A U (port_of s) cs (abst mem spec_image ?S)"
    using session_explained [OF assms(1,2)] assms(6) i(2) by (fastforce simp: fresh_session_def)
  have t: "tiny_table s0 = replicate TINY_TTY_MINORS None" and y: "ttys s0 = ttys s"
    using assms(5) by (auto simp: tiny_init_def tiny_image_def Let_def split: if_splits)
  have none: "contents s0 = Map.empty"
    by (auto simp: contents_def deref_tiny_def t fun_eq_iff)
  then have "range mem \<subseteq> range (\<lambda>l. memory_of (tiny_garbage K l))"
    using m(1) by (auto simp: mem_fits_def fresh_session_def)
  moreover have "abst mem spec_image ?S = spec_start mem s"
    by (simp add: abst_def spec_start_def fresh_session_def current_def none y)
  ultimately show ?thesis using m(2) by auto
qed


text \<open>RTS is raised and read, a task waits for the carrier and is woken by a timer, not by a line.\<close>

definition some_session :: "serial_call list" where
  "some_session = [Life (Open 0), Tiocmset 0 4 0, Tiocmget 0, Ioctl 0 0x545C 0x40 [], Write 0 [104, 105] 2,
     Wake 0 False, Life (Close 0), Write_room 0]"


text \<open>What a single call of a session can return.\<close>

lemma spec_calls_nth:
  "spec_calls mem K A U slot cs a = Ret outs \<Longrightarrow> n < length cs \<Longrightarrow>
     \<exists>b b'. spec_call mem K A U slot (cs ! n) b = Ret (outs ! n, b')"
proof (induction cs arbitrary: a outs n)
  case Nil
  then show ?case by simp
next
  case (Cons c cs)
  then obtain out b outs' where b: "spec_call mem K A U slot c a = Ret (out, b)"
    "spec_calls mem K A U slot cs b = Ret outs'" "outs = out # outs'"
    by (auto simp: obind_Ret_iff)
  show ?case
  proof (cases n)
    case 0
    then show ?thesis using b by auto
  next
    case (Suc m)
    then show ?thesis using Cons.IH [OF b(2), of m] Cons.prems(2) b(3) by auto
  qed
qed

lemma with_rts_other: "b AND MCR_RTS = 0 \<Longrightarrow> has_bit (with_rts m x) b \<longleftrightarrow> has_bit m b"
  unfolding with_rts_def has_bit_or using has_bit_outside [of b MCR_RTS m]
  by (simp add: has_bit_def and.commute)

lemma or_and_not: "(a OR b) AND NOT r = (a AND NOT r) OR (b AND NOT r)" for a b r :: c_uint
  by (auto simp: bit_eq_iff bit_simps)

lemma modem_bits_but_rts:
  "modem_bits A ms (with_rts mc b) AND NOT (TIOCM_RTS A) = modem_bits A ms mc AND NOT (TIOCM_RTS A)"
proof -
  have "has_bit (with_rts mc b) MCR_DTR \<longleftrightarrow> has_bit mc MCR_DTR" "has_bit (with_rts mc b) MCR_LOOP \<longleftrightarrow> has_bit mc MCR_LOOP"
    by (rule with_rts_other, simp add: MCR_DTR_def MCR_LOOP_def MCR_RTS_def)+
  moreover have "(if c then TIOCM_RTS A else 0) AND NOT (TIOCM_RTS A) = 0" for c
    by simp
  ultimately show ?thesis by (simp only: modem_bits_def or_and_not)
qed


text \<open>Two reads of the lines around a change of RTS.\<close>

definition line_session :: "serial_call list" where
  "line_session = [Life (Open 0), Tiocmget 0, Tiocmset 0 4 0, Tiocmget 0]"


end
