(* ===== verification/Block_Device.thy ===== *)
theory Block_Device
  imports Module_Lifecycle "HOL-Library.Signed_Division"
begin

text \<open>
  The RAM block driver of \<open>day_13/ex30.c\<close>: one disk held in a \<open>vmalloc\<close>ed array, requests
  of the block layer as lists of memory segments, the loop that drains the queue, and init
  and exit. The specification is a byte array in which a request overwrites or reads one
  stretch, however it is cut into segments.
\<close>

section \<open>State and requests\<close>

record sbd =
  sbd_major_num :: c_int
  hardsect_size :: c_int
  nsectors :: c_int
  dev_size :: c_ulong
  dev_data :: ptr
  disk :: "byte list"
  gd :: ptr
  Queue :: ptr

definition sbd_image :: "c_int \<Rightarrow> c_int \<Rightarrow> c_int \<Rightarrow> sbd" where
  "sbd_image ma hs ns = \<lparr>sbd_major_num = ma, hardsect_size = hs, nsectors = ns, dev_size = 0, dev_data = 0,
     disk = [], gd = 0, Queue = 0\<rparr>"

definition KERNEL_SECTOR_SIZE :: c_int where "KERNEL_SECTOR_SIZE = 512"

text \<open>
  A request: start sector, number of sectors, direction, the buffers of its bio segments,
  the length in bytes that the block layer still expects, and its kind.
\<close>

record request =
  blk_rq_pos :: "64 word"
  blk_rq_sectors :: c_uint
  is_write :: bool
  segments :: "byte list list"
  req_errors :: c_int
  data_len :: c_uint
  is_fs :: bool

text \<open>\<open>__blk_end_request(req, error, nr_bytes)\<close>, the driver's answer to the block layer.\<close>

datatype answer = End_request c_int c_uint

text \<open>
  Documented: the request is finished when \<open>nr_bytes\<close> cover all that is left of it;
  otherwise it stays with the driver that fetched it.
\<close>

definition finishes :: "request \<Rightarrow> answer \<Rightarrow> bool" where
  "finishes req a = (case a of End_request e n \<Rightarrow> data_len req \<le> n)"

section \<open>Requests\<close>

text \<open>\<open>memcpy\<close> between the disk at byte offset \<open>off\<close> and one segment.\<close>

definition disk_check :: "int \<Rightarrow> nat \<Rightarrow> byte list \<Rightarrow> bool" where
  "disk_check off n mem \<longleftrightarrow> n = 0 \<or> (0 \<le> off \<and> off + int n \<le> int (length mem))"

fun xfer_segments ::
    "bool \<Rightarrow> int \<Rightarrow> byte list list \<Rightarrow> byte list \<Rightarrow> (byte list list \<times> byte list) outcome" where
  "xfer_segments wr addr [] mem = Ret ([], mem)"
| "xfer_segments wr addr (seg # segs) mem =
     (let size = length seg
      in if disk_check addr size mem
         then (if wr
               then obind (xfer_segments wr (addr + int size) segs (put_at (nat addr) seg mem))
                      (\<lambda>(out, mem). Ret (seg # out, mem))
               else obind (xfer_segments wr (addr + int size) segs mem)
                      (\<lambda>(out, mem'). Ret (get_at (nat addr) size mem # out, mem')))
         else Fault OutOfBounds)"

definition refuses :: "sbd \<Rightarrow> request \<Rightarrow> bool" where
  "refuses s req =
     (let sector = ucast (blk_rq_pos req) :: c_int; max_sectors = blk_rq_sectors req
      in sint (nsectors s) < sint sector \<or> sint (nsectors s) < sint (sector + max_sectors))"

definition do_actual_req :: "request \<Rightarrow> sbd \<Rightarrow> (answer \<times> request \<times> sbd) outcome" where
  "do_actual_req req s =
     (let sector = ucast (blk_rq_pos req) :: c_int
      in if refuses s req then Ret (End_request 0 0, req, s)
         else obind (xfer_segments (is_write req) (sint (push_bit 9 sector)) (segments req) (disk s))
           (\<lambda>(segs, mem).
              let error = (if req_errors req \<noteq> 0 then - EIO else 0)
              in Ret (End_request error (push_bit 9 (data_len req)), req\<lparr>segments := segs\<rparr>, s\<lparr>disk := mem\<rparr>)))"

text \<open>The loop over \<open>blk_fetch_request\<close>: the queue is the list of requests it hands out.\<close>

fun sbd_request :: "request list \<Rightarrow> sbd \<Rightarrow> ((answer \<times> request) list \<times> sbd) outcome" where
  "sbd_request [] s = Ret ([], s)"
| "sbd_request (req # q) s =
     (if \<not> is_fs req
      then obind (sbd_request q s) (\<lambda>(out, s). Ret ((End_request 0 0, req) # out, s))
      else obind (do_actual_req req s) (\<lambda>(a, req, s).
             obind (sbd_request q s) (\<lambda>(out, s). Ret ((a, req) # out, s))))"

definition sbd_open :: "sbd \<Rightarrow> c_int \<times> sbd" where
  "sbd_open s = (0, s)"

section \<open>Init and exit\<close>

record blk_kernel = kernel +
  blk_init_queue :: "klog \<Rightarrow> ptr"
  register_blkdev :: "klog \<Rightarrow> c_int \<Rightarrow> c_int"
  alloc_disk :: "klog \<Rightarrow> ptr"

definition sbd_out :: "sbd \<Rightarrow> klog \<Rightarrow> c_int \<times> sbd \<times> klog" where
  "sbd_out s l = (- ENOMEM, s, l @ [Mem (Vfree (dev_data s))])"

definition sbd_out_unregister :: "sbd \<Rightarrow> klog \<Rightarrow> c_int \<times> sbd \<times> klog" where
  "sbd_out_unregister s l = sbd_out s (l @ [Blk (Unregister_blkdev (sbd_major_num s))])"

definition sbd_init :: "blk_kernel \<Rightarrow> sbd \<Rightarrow> klog \<Rightarrow> c_int \<times> sbd \<times> klog" where
  "sbd_init K s l =
     (let s = s\<lparr>dev_size := scast (nsectors s * hardsect_size s)\<rparr>;
          l = l @ [Sync Spin_lock_init];
          (p, m) = vmalloc K l (dev_size s);
          l = l @ [Mem (Vmalloc (dev_size s) p)];
          s = s\<lparr>dev_data := p, disk := m\<rparr>
      in if p = 0 then (- ENOMEM, s, l)
         else let s = s\<lparr>disk := replicate (unat (dev_size s)) 0\<rparr>;
                  q = blk_init_queue K l;
                  l = l @ [Blk (Blk_init_queue q)];
                  s = s\<lparr>Queue := q\<rparr>
              in if q = 0 then sbd_out s l
                 else let ma = register_blkdev K l (sbd_major_num s);
                          l = l @ [Blk (Register_blkdev (sbd_major_num s) ma)];
                          s = s\<lparr>sbd_major_num := ma\<rparr>
                      in if sint ma \<le> 0 then sbd_out s l
                         else let g = alloc_disk K l;
                                  l = l @ [Blk (Alloc_disk 1 g)];
                                  s = s\<lparr>gd := g\<rparr>
                              in if g = 0 then sbd_out_unregister s l
                                 else let l = l @ [Blk (Set_capacity g (scast (nsectors s * (word_of_int (sint (hardsect_size s) sdiv sint KERNEL_SECTOR_SIZE))))),
                                                   Blk (Add_disk g)]
                                      in (0, s, l))"

definition sbd_exit :: "sbd \<Rightarrow> klog \<Rightarrow> sbd \<times> klog" where
  "sbd_exit s l =
     (s, l @ [Blk (Del_gendisk (gd s)), Blk (Put_disk (gd s)), Blk (Unregister_blkdev (sbd_major_num s)),
              Blk (Blk_cleanup_queue (Queue s)), Mem (Vfree (dev_data s))])"

section \<open>One stretch of the disk\<close>

lemma put_at_segments:
  "off + length (as @ bs) \<le> length mem \<Longrightarrow> put_at (off + length as) bs (put_at off as mem) = put_at off (as @ bs) mem"
  by (simp add: put_at_append)

lemma xfer_write_concat:
  "0 \<le> addr \<Longrightarrow> addr + int (length (concat segs)) \<le> int (length mem) \<Longrightarrow>
   xfer_segments True addr segs mem = Ret (segs, put_at (nat addr) (concat segs) mem)"
proof (induction segs arbitrary: addr mem)
  case Nil
  then show ?case by simp
next
  case (Cons seg segs)
  have fit: "nat addr + length seg \<le> length mem" using Cons.prems by simp
  have n: "nat (addr + int (length seg)) = nat addr + length seg" using Cons.prems(1) by simp
  have "disk_check addr (length seg) mem" using Cons.prems by (simp add: disk_check_def)
  then show ?case
    using Cons.IH [of "addr + int (length seg)" "put_at (nat addr) seg mem"] Cons.prems fit
    by (simp add: Let_def length_put_at n put_at_append)
qed

lemma xfer_read_concat:
  "0 \<le> addr \<Longrightarrow> addr + int (length (concat segs)) \<le> int (length mem) \<Longrightarrow>
   \<exists>out. xfer_segments False addr segs mem = Ret (out, mem) \<and>
     concat out = get_at (nat addr) (length (concat segs)) mem \<and> map length out = map length segs"
proof (induction segs arbitrary: addr)
  case Nil
  then show ?case by (simp add: get_at_def)
next
  case (Cons seg segs)
  have n: "nat (addr + int (length seg)) = nat addr + length seg" using Cons.prems(1) by simp
  have "disk_check addr (length seg) mem" using Cons.prems by (simp add: disk_check_def)
  moreover have "length (get_at (nat addr) (length seg) mem) = length seg"
    using Cons.prems by (intro length_get_at) simp
  ultimately show ?case
    using Cons.IH [of "addr + int (length seg)"] Cons.prems
    by (auto simp: Let_def n get_at_append)
qed

section \<open>Geometry\<close>

text \<open>
  A disk whose array has the announced size without overflow, with sectors of at least 512
  bytes, and a request as the block layer makes it: its segments have the announced length
  and its position is not beyond an \<open>int\<close>.
\<close>

definition geometry_ok :: "sbd \<Rightarrow> bool" where
  "geometry_ok s \<longleftrightarrow> 0 \<le> sint (nsectors s) \<and> 512 \<le> sint (hardsect_size s) \<and>
     sint (nsectors s) * sint (hardsect_size s) < 2 ^ 31 \<and>
     int (length (disk s)) = sint (nsectors s) * sint (hardsect_size s)"

definition rq_pos :: "request \<Rightarrow> nat" where "rq_pos req = unat (blk_rq_pos req)"
definition rq_cnt :: "request \<Rightarrow> nat" where "rq_cnt req = unat (blk_rq_sectors req)"

definition request_ok :: "request \<Rightarrow> bool" where
  "request_ok req \<longleftrightarrow> length (concat (segments req)) = 512 * rq_cnt req \<and>
     rq_pos req + rq_cnt req < 2 ^ 31"

definition fits :: "sbd \<Rightarrow> request \<Rightarrow> bool" where
  "fits s req \<longleftrightarrow> int (rq_pos req) + int (rq_cnt req) \<le> sint (nsectors s)"

lemma sint_of_unat: "unat w = n \<Longrightarrow> n < 2 ^ 31 \<Longrightarrow> sint w = int n" for w :: c_int
  using sint_small [of w] by simp

lemma sector_unat: "rq_pos req < 2 ^ 31 \<Longrightarrow> unat (ucast (blk_rq_pos req) :: c_int) = rq_pos req"
  by (simp add: unat_ucast_64_32 rq_pos_def)

lemma refuses_iff:
  assumes "request_ok req"
  shows "refuses s req \<longleftrightarrow> \<not> fits s req"
proof -
  let ?p = "ucast (blk_rq_pos req) :: c_int" and ?n = "blk_rq_sectors req"
  have lt: "rq_pos req + rq_cnt req < 2 ^ 31" using assms by (simp add: request_ok_def)
  have p: "unat ?p = rq_pos req" using lt by (intro sector_unat) simp
  have n: "unat ?n = rq_cnt req" by (simp add: rq_cnt_def)
  have "unat (?p + ?n) = rq_pos req + rq_cnt req"
    using lt unat_add_lem [THEN iffD1, of ?p ?n] by (simp add: p n)
  then have 1: "sint (?p + ?n) = int (rq_pos req + rq_cnt req)" using lt by (rule sint_of_unat)
  have 2: "sint ?p = int (rq_pos req)" using p lt by (intro sint_of_unat) simp_all
  show ?thesis by (auto simp: refuses_def fits_def Let_def 1 2)
qed

lemma fits_bytes:
  assumes "geometry_ok s" and "fits s req"
  shows "512 * (int (rq_pos req) + int (rq_cnt req)) \<le> int (length (disk s))"
    and "512 * int (rq_pos req) < 2 ^ 31"
proof -
  let ?ns = "sint (nsectors s)" and ?hs = "sint (hardsect_size s)"
  have "512 * ?ns \<le> ?hs * ?ns" using assms(1) by (intro mult_right_mono) (auto simp: geometry_ok_def)
  then have le: "512 * ?ns \<le> int (length (disk s))" "int (length (disk s)) < 2 ^ 31"
    using assms(1) by (auto simp: geometry_ok_def mult.commute)
  with assms(2) show "512 * (int (rq_pos req) + int (rq_cnt req)) \<le> int (length (disk s))"
    by (simp add: fits_def)
  with le(2) show "512 * int (rq_pos req) < 2 ^ 31" by simp
qed

lemma sector_offset:
  assumes "512 * int (rq_pos req) < 2 ^ 31"
  shows "sint (push_bit 9 (ucast (blk_rq_pos req) :: c_int)) = int (512 * rq_pos req)"
proof -
  have p: "unat (ucast (blk_rq_pos req) :: c_int) = rq_pos req" using assms by (intro sector_unat) simp
  have "unat (push_bit 9 (ucast (blk_rq_pos req) :: c_int)) = 512 * rq_pos req"
    using assms by (simp add: push_bit_eq_mult unat_word_ariths(2) p mult.commute)
  then show ?thesis by (rule sint_of_unat) (use assms in simp)
qed

section \<open>Requests refine the byte array\<close>

text \<open>The specification of one request on the contents of the disk.\<close>

definition stretch :: "request \<Rightarrow> nat" where
  "stretch req = 512 * rq_pos req"

definition spec_write :: "sbd \<Rightarrow> request \<Rightarrow> byte list \<Rightarrow> byte list" where
  "spec_write s req d =
     (if is_fs req \<and> is_write req \<and> fits s req then put_at (stretch req) (concat (segments req)) d else d)"

definition spec_data :: "sbd \<Rightarrow> request \<Rightarrow> byte list \<Rightarrow> byte list" where
  "spec_data s req d =
     (if is_fs req \<and> \<not> is_write req \<and> fits s req
      then get_at (stretch req) (512 * rq_cnt req) d else concat (segments req))"

lemma do_actual_req_accepted:
  assumes "geometry_ok s" and "request_ok req" and "fits s req"
  shows "\<exists>segs. do_actual_req req s =
      Ret (End_request (if req_errors req \<noteq> 0 then - EIO else 0) (push_bit 9 (data_len req)),
           req\<lparr>segments := segs\<rparr>,
           s\<lparr>disk := if is_write req then put_at (stretch req) (concat (segments req)) (disk s) else disk s\<rparr>) \<and>
    map length segs = map length (segments req) \<and>
    concat segs = (if is_write req then concat (segments req)
                   else get_at (stretch req) (512 * rq_cnt req) (disk s))"
proof -
  let ?a = "int (stretch req)"
  note b = fits_bytes [OF assms(1,3)]
  have len: "length (concat (segments req)) = 512 * rq_cnt req"
    using assms(2) by (simp add: request_ok_def)
  have off: "sint (push_bit 9 (ucast (blk_rq_pos req) :: c_int)) = ?a"
    unfolding stretch_def by (rule sector_offset [OF b(2)])
  have fit: "0 \<le> ?a" "?a + int (length (concat (segments req))) \<le> int (length (disk s))"
    using b(1) len by (simp_all add: stretch_def)
  have ok: "\<not> refuses s req" using refuses_iff [OF assms(2), of s] assms(3) by simp
  show ?thesis
  proof (cases "is_write req")
    case True
    then show ?thesis
      using ok xfer_write_concat [OF fit]
      by (intro exI [of _ "segments req"]) (simp add: do_actual_req_def Let_def off)
  next
    case False
    then show ?thesis
      using ok xfer_read_concat [OF fit] len by (auto simp: do_actual_req_def Let_def off)
  qed
qed

lemma do_actual_req_refused:
  "request_ok req \<Longrightarrow> \<not> fits s req \<Longrightarrow> do_actual_req req s = Ret (End_request 0 0, req, s)"
  by (simp add: do_actual_req_def refuses_iff)

lemma geometry_ok_disk:
  "geometry_ok s \<Longrightarrow> length d = length (disk s) \<Longrightarrow> geometry_ok (s\<lparr>disk := d\<rparr>)"
  by (simp add: geometry_ok_def)

lemma spec_write_length:
  assumes "geometry_ok s" and "request_ok req" and "length d = length (disk s)"
  shows "length (spec_write s req d) = length d"
proof (cases "is_fs req \<and> is_write req \<and> fits s req")
  case True
  then have fit: "stretch req + length (concat (segments req)) \<le> length d"
    using fits_bytes [OF assms(1), of req] assms(2,3) by (simp add: request_ok_def stretch_def)
  show ?thesis using True length_put_at [OF fit] by (simp add: spec_write_def)
qed (auto simp: spec_write_def)

text \<open>The answer that the driver gives to a request.\<close>

definition spec_answer :: "sbd \<Rightarrow> request \<Rightarrow> answer" where
  "spec_answer s req =
     (if is_fs req \<and> fits s req
      then End_request (if req_errors req \<noteq> 0 then - EIO else 0) (push_bit 9 (data_len req))
      else End_request 0 0)"

lemma sbd_request_step:
  assumes "geometry_ok s" and "request_ok req"
  shows "\<exists>req'. sbd_request (req # q) s =
      obind (sbd_request q (s\<lparr>disk := spec_write s req (disk s)\<rparr>))
        (\<lambda>(out, t). Ret ((spec_answer s req, req') # out, t)) \<and>
    concat (segments req') = spec_data s req (disk s)"
proof (cases "is_fs req \<and> fits s req")
  case True
  then show ?thesis
    using do_actual_req_accepted [OF assms] by (auto simp: spec_write_def spec_data_def spec_answer_def)
next
  case False
  then have "spec_write s req (disk s) = disk s" "spec_data s req (disk s) = concat (segments req)"
    by (auto simp: spec_write_def spec_data_def)
  then show ?thesis
    using False do_actual_req_refused [OF assms(2), of s] by (auto simp: spec_answer_def)
qed

text \<open>The disk before request \<open>k\<close> of the queue.\<close>

definition disk_before :: "sbd \<Rightarrow> request list \<Rightarrow> nat \<Rightarrow> byte list" where
  "disk_before s q k = fold (spec_write s) (take k q) (disk s)"

lemma fits_disk [simp]: "fits (s\<lparr>disk := d\<rparr>) = fits s"
  by (simp add: fits_def fun_eq_iff)

lemma spec_disk [simp]:
  "spec_write (s\<lparr>disk := d\<rparr>) = spec_write s" "spec_data (s\<lparr>disk := d\<rparr>) = spec_data s"
  "spec_answer (s\<lparr>disk := d\<rparr>) = spec_answer s"
  by (simp_all add: spec_write_def spec_data_def spec_answer_def fun_eq_iff)

lemma sbd_request_refines_aux:
  "geometry_ok s \<Longrightarrow> \<forall>req \<in> set q. request_ok req \<Longrightarrow>
   \<exists>out. sbd_request q s = Ret (out, s\<lparr>disk := disk_before s q (length q)\<rparr>) \<and> length out = length q \<and>
     (\<forall>k < length q. fst (out ! k) = spec_answer s (q ! k) \<and>
        concat (segments (snd (out ! k))) = spec_data s (q ! k) (disk_before s q k))"
proof (induction q arbitrary: s)
  case Nil
  then show ?case by (simp add: disk_before_def)
next
  case (Cons req q)
  let ?s = "s\<lparr>disk := spec_write s req (disk s)\<rparr>"
  have ok: "request_ok req" using Cons.prems by simp
  have "geometry_ok ?s"
    using Cons.prems(1) spec_write_length [OF Cons.prems(1) ok] by (intro geometry_ok_disk) auto
  from Cons.IH [OF this] Cons.prems(2) obtain out where
    run: "sbd_request q ?s = Ret (out, ?s\<lparr>disk := disk_before ?s q (length q)\<rparr>)" and len: "length out = length q"
    and each: "\<forall>k < length q. fst (out ! k) = spec_answer s (q ! k) \<and>
        concat (segments (snd (out ! k))) = spec_data s (q ! k) (disk_before ?s q k)"
    by auto
  have before: "disk_before ?s q k = disk_before s (req # q) (Suc k)" for k
    by (simp add: disk_before_def)
  obtain req' where step: "sbd_request (req # q) s =
      obind (sbd_request q ?s) (\<lambda>(out, t). Ret ((spec_answer s req, req') # out, t))"
    and data: "concat (segments req') = spec_data s req (disk s)"
    using sbd_request_step [OF Cons.prems(1) ok] by blast
  let ?out = "(spec_answer s req, req') # out"
  have "sbd_request (req # q) s = Ret (?out, s\<lparr>disk := disk_before s (req # q) (length (req # q))\<rparr>)"
    unfolding step run by (simp add: before)
  moreover have "length ?out = length (req # q)" using len by simp
  moreover have "fst (?out ! k) = spec_answer s ((req # q) ! k) \<and>
      concat (segments (snd (?out ! k))) = spec_data s ((req # q) ! k) (disk_before s (req # q) k)"
    if "k < length (req # q)" for k
    using that each data by (cases k) (auto simp: before disk_before_def [of s _ 0])
  ultimately show ?case by blast
qed

section \<open>The loaded disk\<close>

text \<open>Module parameters whose product fits an \<open>int\<close>, with sectors of at least 512 bytes.\<close>

definition params_ok :: "c_int \<Rightarrow> c_int \<Rightarrow> bool" where
  "params_ok hs ns \<longleftrightarrow> 512 \<le> sint hs \<and> 0 \<le> sint ns \<and> sint ns * sint hs < 2 ^ 31"

lemma sint_times_small:
  fixes a b :: c_int
  assumes "0 \<le> sint a * sint b" and "sint a * sint b < 2 ^ 31"
  shows "sint (a * b) = sint a * sint b"
  using assms by (simp add: sint_word_ariths(3) signed_take_bit_int_eq_self_iff)

lemma unat_scast_nonneg:
  fixes w :: c_int
  assumes "0 \<le> sint w"
  shows "unat (scast w :: 64 word) = nat (sint w)"
proof -
  have "sint w < 2 ^ 31" using sint_lt [of w] by simp
  then have "nat (sint w) < 2 ^ 64" by simp
  moreover have "(scast w :: 64 word) = word_of_nat (nat (sint w))"
    by (metis assms int_nat_eq of_int_of_nat_eq scast_eq)
  ultimately show ?thesis by (simp add: unat_of_nat)
qed

lemma sbd_init_success:
  assumes "sbd_init K (sbd_image ma hs ns) l = (0, s, l')"
  shows "hardsect_size s = hs" "nsectors s = ns" "disk s = replicate (unat (scast (ns * hs) :: 64 word)) 0"
    "dev_data s \<noteq> 0"
  using assms
  by (auto simp: sbd_init_def sbd_image_def sbd_out_def sbd_out_unregister_def Let_def split: prod.splits if_splits)

lemma loaded_geometry:
  assumes "sbd_init K (sbd_image ma hs ns) l = (0, s, l')" and "params_ok hs ns"
  shows "geometry_ok s"
proof -
  have p: "0 \<le> sint ns * sint hs" using assms(2) by (simp add: params_ok_def)
  have "sint (ns * hs) = sint ns * sint hs"
    using assms(2) p by (intro sint_times_small) (simp_all add: params_ok_def)
  then have "int (length (disk s)) = sint ns * sint hs"
    using p unat_scast_nonneg [of "ns * hs"] sbd_init_success(3) [OF assms(1)] by simp
  then show ?thesis
    using assms(2) sbd_init_success(1,2) [OF assms(1)] by (simp add: geometry_ok_def params_ok_def)
qed

section \<open>Properties\<close>

text \<open>C2: the disk refines a byte array. After a successful init, draining any queue of
  well-formed requests ends without a fault and answers every request; the array ends as
  the accepted writes leave it, in order, each as one stretch however it was segmented,
  and each accepted read got the bytes that its stretch held at its turn.\<close>

theorem sbd_request_refines:
  assumes "sbd_init K (sbd_image ma hs ns) l = (0, s, l')" and "params_ok hs ns" and "\<forall>req \<in> set q. request_ok req"
  shows "\<exists>out. sbd_request q s = Ret (out, s\<lparr>disk := fold (spec_write s) q (disk s)\<rparr>) \<and> length out = length q \<and>
    (\<forall>k < length q. fst (out ! k) = spec_answer s (q ! k) \<and>
       concat (segments (snd (out ! k))) = spec_data s (q ! k) (disk_before s q k))"
  using sbd_request_refines_aux [OF loaded_geometry [OF assms(1,2)] assms(3)]
  by (auto simp: disk_before_def)

definition good_blk :: blk_kernel where
  "good_blk = kernel.extend good_kernel
     \<lparr>blk_init_queue = (\<lambda>l. 40960), register_blkdev = (\<lambda>l m. 252), alloc_disk = (\<lambda>l. 49152)\<rparr>"

definition small_disk :: sbd where
  "small_disk = fst (snd (sbd_init good_blk (sbd_image 0 512 2) []))"

lemma small_disk_init: "\<exists>l'. sbd_init good_blk (sbd_image 0 512 2) [] = (0, small_disk, l')"
proof -
  have "fst (sbd_init good_blk (sbd_image 0 512 2) []) = 0"
    by (simp add: sbd_init_def sbd_image_def good_blk_def good_kernel_def kernel.defs Let_def)
  then show ?thesis by (metis small_disk_def prod.collapse)
qed

lemma small_params: "params_ok 512 2"
  by (simp add: params_ok_def)

definition some_request :: "bool \<Rightarrow> byte list list \<Rightarrow> request" where
  "some_request w segs = \<lparr>blk_rq_pos = 1, blk_rq_sectors = 1, is_write = w, segments = segs, req_errors = 0,
     data_len = 512, is_fs = True\<rparr>"

lemma some_request_ok: "length (concat segs) = 512 \<Longrightarrow> request_ok (some_request w segs)"
  by (simp add: request_ok_def some_request_def rq_pos_def rq_cnt_def)

lemma some_request_fits: "fits small_disk (some_request w segs)"
proof -
  obtain l' where "sbd_init good_blk (sbd_image 0 512 2) [] = (0, small_disk, l')"
    using small_disk_init by blast
  from sbd_init_success(2) [OF this] show ?thesis
    by (simp add: fits_def some_request_def rq_pos_def rq_cnt_def)
qed

theorem sbd_request_refines_witness:
  "\<exists>out. sbd_request [some_request True [replicate 512 7]] small_disk =
     Ret (out, small_disk\<lparr>disk := fold (spec_write small_disk) [some_request True [replicate 512 7]] (disk small_disk)\<rparr>)"
proof -
  obtain l' where i: "sbd_init good_blk (sbd_image 0 512 2) [] = (0, small_disk, l')"
    using small_disk_init by blast
  have "\<forall>req \<in> set [some_request True [replicate 512 7]]. request_ok req"
    by (simp add: some_request_ok)
  from sbd_request_refines [OF i small_params this] show ?thesis by blast
qed

text \<open>The stretches of two requests are apart.\<close>

definition apart :: "request \<Rightarrow> request \<Rightarrow> bool" where
  "apart a b \<longleftrightarrow> rq_pos a + rq_cnt a \<le> rq_pos b \<or> rq_pos b + rq_cnt b \<le> rq_pos a"

lemma fold_apart:
  assumes "geometry_ok s" and "request_ok r" and "fits s r"
  shows "\<forall>m \<in> set mid. request_ok m \<and> (is_write m \<longrightarrow> apart r m) \<Longrightarrow> length d = length (disk s) \<Longrightarrow>
    get_at (stretch r) (512 * rq_cnt r) (fold (spec_write s) mid d) = get_at (stretch r) (512 * rq_cnt r) d"
proof (induction mid arbitrary: d)
  case Nil
  then show ?case by simp
next
  case (Cons m mid)
  have m: "request_ok m" using Cons.prems by simp
  have "get_at (stretch r) (512 * rq_cnt r) (spec_write s m d) = get_at (stretch r) (512 * rq_cnt r) d"
  proof (cases "is_fs m \<and> is_write m \<and> fits s m")
    case True
    have "512 * rq_pos m + 512 * rq_cnt m \<le> length d" "512 * rq_pos r + 512 * rq_cnt r \<le> length d"
      using fits_bytes(1) [OF assms(1), of m] fits_bytes(1) [OF assms(1,3)] True Cons.prems(2) by simp_all
    then show ?thesis
      using True m Cons.prems(1)
      by (auto simp: spec_write_def stretch_def request_ok_def apart_def intro!: get_put_disjoint)
  qed (auto simp: spec_write_def)
  then show ?case
    using Cons.IH [of "spec_write s m d"] Cons.prems spec_write_length [OF assms(1) m, of d] by simp
qed

text \<open>C13: reads return what was last written: in any queue, a read that follows a write of the
  same sectors, with only reads and writes of other sectors in between, gets exactly the
  bytes of that write, whatever segments the two requests are cut into.\<close>

theorem sbd_read_after_write:
  assumes "sbd_init K (sbd_image ma hs ns) l = (0, s, l')" and "params_ok hs ns"
    and "\<forall>req \<in> set (pre @ w # mid @ [r]). request_ok req"
    and "is_fs w" "is_write w" "fits s w" and "is_fs r" "\<not> is_write r"
    and "blk_rq_pos r = blk_rq_pos w" "blk_rq_sectors r = blk_rq_sectors w"
    and "\<forall>m \<in> set mid. is_write m \<longrightarrow> apart r m"
  shows "\<exists>out s'. sbd_request (pre @ w # mid @ [r]) s = Ret (out, s') \<and>
    concat (segments (snd (last out))) = concat (segments w)"
proof -
  let ?q = "pre @ w # mid @ [r]"
  note geo = loaded_geometry [OF assms(1,2)]
  obtain out where run: "sbd_request ?q s = Ret (out, s\<lparr>disk := disk_before s ?q (length ?q)\<rparr>)"
    and len: "length out = length ?q"
    and each: "\<And>k. k < length ?q \<Longrightarrow> concat (segments (snd (out ! k))) = spec_data s (?q ! k) (disk_before s ?q k)"
    using sbd_request_refines_aux [OF geo assms(3)] by auto
  let ?k = "length pre + Suc (length mid)"
  have same: "stretch r = stretch w" "rq_cnt r = rq_cnt w" and fr: "fits s r"
    using assms(6,9,10) by (simp_all add: stretch_def rq_pos_def rq_cnt_def fits_def)
  let ?d0 = "fold (spec_write s) pre (disk s)"
  have fold_len: "\<forall>m \<in> set ms. request_ok m \<Longrightarrow> length d = length (disk s) \<Longrightarrow>
      length (fold (spec_write s) ms d) = length (disk s)" for ms d
    by (induction ms arbitrary: d) (simp_all add: spec_write_length [OF geo])
  have d0: "length ?d0 = length (disk s)" using assms(3) by (intro fold_len) auto
  have w: "length (concat (segments w)) = 512 * rq_cnt w" and wr: "request_ok w" and rr: "request_ok r"
    using assms(3) by (auto simp: request_ok_def)
  have fit: "stretch w + length (concat (segments w)) \<le> length ?d0"
    using fits_bytes(1) [OF geo assms(6)] d0 w by (simp add: stretch_def)
  have "out \<noteq> []" using len by auto
  then have last: "last out = out ! ?k" using len by (simp add: last_conv_nth)
  have "concat (segments (snd (last out))) = spec_data s r (disk_before s ?q ?k)"
    using each [of ?k] by (simp add: last nth_append)
  also have "disk_before s ?q ?k = fold (spec_write s) mid (spec_write s w ?d0)"
    by (simp add: disk_before_def)
  also have "spec_data s r \<dots> = get_at (stretch r) (512 * rq_cnt r) (fold (spec_write s) mid (spec_write s w ?d0))"
    using assms(7,8) fr by (simp add: spec_data_def)
  also have "\<dots> = get_at (stretch r) (512 * rq_cnt r) (spec_write s w ?d0)"
    using assms(3,11) spec_write_length [OF geo wr d0] d0 by (intro fold_apart [OF geo rr fr]) auto
  also have "\<dots> = concat (segments w)"
    using assms(4-6) fit w by (simp add: spec_write_def same get_put_same)
  finally show ?thesis using run by blast
qed

theorem sbd_read_after_write_witness:
  "\<exists>out s'. sbd_request [some_request True [replicate 512 7], some_request False [replicate 256 0, replicate 256 0]]
       small_disk = Ret (out, s') \<and> concat (segments (snd (last out))) = replicate 512 7"
proof -
  obtain l' where i: "sbd_init good_blk (sbd_image 0 512 2) [] = (0, small_disk, l')"
    using small_disk_init by blast
  let ?w = "some_request True [replicate 512 7]" and ?r = "some_request False [replicate 256 0, replicate 256 0]"
  have ok: "\<forall>req \<in> set ([] @ ?w # [] @ [?r]). request_ok req" by (simp add: some_request_ok)
  show ?thesis
    using sbd_read_after_write [OF i small_params ok] some_request_fits by (simp add: some_request_def)
qed



text \<open>C35: the bounds check is made on a truncated sector number: a write to the 64-bit sector
  2^32 - 1, far beyond any disk this driver can hold, passes the check as sector -1 and
  runs outside the array.\<close>

theorem sbd_truncated_sector:
  assumes "sbd_init K (sbd_image ma hs ns) l = (0, s, l')" and "params_ok hs ns" and "blk_rq_pos req = 4294967295"
    and "blk_rq_sectors req = 1" and "is_fs req" and "segments req = seg # segs" and "seg \<noteq> []"
  shows "sint (nsectors s) < int (rq_pos req) \<and> \<not> refuses s req \<and> sbd_request [req] s = Fault OutOfBounds"
proof -
  have sec: "(ucast (blk_rq_pos req) :: c_int) = - 1" using assms(3) by simp
  have ns: "0 \<le> sint (nsectors s)" using assms(2) sbd_init_success(2) [OF assms(1)] by (simp add: params_ok_def)
  have "\<not> refuses s req" using ns assms(4) by (simp add: refuses_def sec)
  moreover have "sint (nsectors s) < int (rq_pos req)"
    using sint_lt [of "nsectors s"] assms(3) by (simp add: rq_pos_def)
  moreover have "sint (push_bit 9 (- 1 :: c_int)) = - 512" by (simp add: push_bit_eq_mult)
  ultimately show ?thesis
    using assms(5-7) by (simp add: do_actual_req_def Let_def sec disk_check_def)
qed

theorem sbd_truncated_sector_witness:
  "sbd_request [some_request True [[7]] \<lparr>blk_rq_pos := 4294967295\<rparr>] small_disk = Fault OutOfBounds"
proof -
  obtain l' where i: "sbd_init good_blk (sbd_image 0 512 2) [] = (0, small_disk, l')"
    using small_disk_init by blast
  let ?r = "some_request True [[7]] \<lparr>blk_rq_pos := 4294967295\<rparr>"
  show ?thesis
    using sbd_truncated_sector [OF i small_params, of ?r "[7]" "[]"] by (simp add: some_request_def)
qed

text \<open>Loading and unloading. A successful init followed by exit leaves nothing behind; a
  failed one reports \<open>-ENOMEM\<close> and leaks exactly the request queue, when it got that far.\<close>

lemma sbd_init_leaks_queue:
  assumes "sbd_init K (sbd_image ma hs ns) l = (ret, s, l')" and "ledger l = Some R"
  shows "if ret = 0 then ledger (snd (sbd_exit s l')) = Some R
    else ret = - ENOMEM \<and> ledger l' = Some (R + (if Queue s = 0 then {#} else {#Request_queue (Queue s)#}))"
  using assms
  by (auto simp: sbd_init_def sbd_exit_def sbd_image_def sbd_out_def sbd_out_unregister_def Let_def effect_simps
      split: prod.splits if_splits)

text \<open>A kernel without a free major number.\<close>

definition no_major :: blk_kernel where
  "no_major = good_blk\<lparr>register_blkdev := (\<lambda>l m. - 16)\<rparr>"

lemma sbd_init_leaks_queue_witness:
  "ledger (snd (snd (sbd_init no_major (sbd_image 0 512 2) []))) = Some {#Request_queue 40960#}"
proof -
  let ?i = "sbd_init no_major (sbd_image 0 512 2) []"
  have "fst ?i = - ENOMEM" and q: "Queue (fst (snd ?i)) = 40960"
    by (simp_all add: no_major_def sbd_init_def sbd_image_def sbd_out_def good_blk_def good_kernel_def kernel.defs Let_def)
  then have i: "?i = (- ENOMEM, fst (snd ?i), snd (snd ?i))" by (simp add: prod_eq_iff)
  show ?thesis using sbd_init_leaks_queue [OF i ledger_Nil] q by simp
qed

end
