(* ===== verification/Ldd_Bus.thy ===== *)
theory Ldd_Bus
  imports Module_Lifecycle "HOL-Library.Sublist"
begin

text \<open>
  The virtual bus of day 10: the bus module \<open>ex24.c\<close> with the interface it exports through
  \<open>lddbus.h\<close>, a device on it (\<open>ex25.c\<close>) and a driver for it (\<open>ex26.c\<close>). A C string is the
  list of its characters before the terminating NUL. The driver core is a parameter.
\<close>

section \<open>C strings\<close>

definition strlen :: "string \<Rightarrow> nat" where "strlen s = length s"

fun char_at :: "string \<Rightarrow> int" where
  "char_at [] = 0"
| "char_at (c # s) = of_char c"

text \<open>\<open>strncmp\<close> of the C library: the difference of the first characters that differ.\<close>

fun strncmp :: "string \<Rightarrow> string \<Rightarrow> nat \<Rightarrow> int" where
  "strncmp a b 0 = 0"
| "strncmp a b (Suc n) =
     (if char_at a \<noteq> char_at b then char_at a - char_at b
      else if char_at a = 0 then 0 else strncmp (tl a) (tl b) n)"

definition nul_free :: "string \<Rightarrow> bool" where
  "nul_free s \<longleftrightarrow> (\<forall>c \<in> set s. of_char c \<noteq> (0 :: int))"

section \<open>The structures of lddbus.h\<close>

record ldd_driver =
  version :: string
  driver_name :: string
  attr_name :: "string option"

record ldd_device =
  dev_title :: string
  dev_name :: string
  parent :: string

record bus_kernel = kernel +
  bus_register :: "klog \<Rightarrow> c_int"
  bus_create_file :: "klog \<Rightarrow> c_int"
  device_register :: "klog \<Rightarrow> string \<Rightarrow> c_int"
  driver_register :: "klog \<Rightarrow> string \<Rightarrow> c_int"
  driver_create_file :: "klog \<Rightarrow> string \<Rightarrow> c_int"
  add_uevent_var :: "string \<Rightarrow> c_int"

section \<open>The bus module\<close>

definition Version :: string where "Version = ''1.9''"

definition ldd_bus_name :: string where "ldd_bus_name = ''ldd0''"

text \<open>A device is registered below its parent: \<open>parent/name\<close>.\<close>

definition device_path :: "ldd_device \<Rightarrow> string" where
  "device_path d = parent d @ ''/'' @ dev_name d"

definition ldd_register_device :: "bus_kernel \<Rightarrow> ldd_device \<Rightarrow> klog \<Rightarrow> c_int \<times> ldd_device \<times> klog" where
  "ldd_register_device K d l =
     (let d = d\<lparr>parent := ldd_bus_name, dev_name := ''ldd0''\<rparr>;
          ret = device_register K l (device_path d)
      in (ret, d, l @ [Bus (Device_register (device_path d) ret)]))"

definition ldd_unregister_device :: "ldd_device \<Rightarrow> klog \<Rightarrow> klog" where
  "ldd_unregister_device d l = l @ [Bus (Device_unregister (device_path d))]"

text \<open>\<open>sprintf\<close> into the page that sysfs hands in; more than the page is an overrun.\<close>

definition show_version :: "nat \<Rightarrow> ldd_driver \<Rightarrow> (nat \<times> string) outcome" where
  "show_version page_size d =
     (let buf = version d @ ''\<newline>''
      in if page_size < length buf + 1 then Fault OutOfBounds else Ret (strlen buf, buf))"

definition ldd_register_driver :: "bus_kernel \<Rightarrow> ldd_driver \<Rightarrow> klog \<Rightarrow> c_int \<times> ldd_driver \<times> klog" where
  "ldd_register_driver K d l =
     (let ret = driver_register K l (driver_name d);
          l = l @ [Bus (Driver_register (driver_name d) ret)]
      in if ret \<noteq> 0 then (ret, d, l)
         else let d = d\<lparr>attr_name := Some ''version''\<rparr>;
                  ret = driver_create_file K l (driver_name d)
              in (ret, d, l @ [Bus (Driver_create_file (driver_name d) ret)]))"

definition ldd_unregister_driver :: "ldd_driver \<Rightarrow> klog \<Rightarrow> klog" where
  "ldd_unregister_driver d l = l @ [Bus (Driver_remove_file (driver_name d)), Bus (Driver_unregister (driver_name d))]"

definition ldd_uevent :: "bus_kernel \<Rightarrow> c_int" where
  "ldd_uevent K = (if add_uevent_var K (''LDDBUS_VERSION='' @ Version) \<noteq> 0 then - ENOMEM else 0)"

definition ldd_match :: "ldd_device \<Rightarrow> ldd_driver \<Rightarrow> c_int" where
  "ldd_match dev drv = (if strncmp (dev_name dev) (driver_name drv) (strlen (driver_name drv)) = 0 then 1 else 0)"

text \<open>\<open>snprintf\<close> cuts at the page and returns the length it would have written.\<close>

definition show_bus_version :: "nat \<Rightarrow> nat \<times> string" where
  "show_bus_version page_size = (let out = Version @ ''\<newline>'' in (length out, take (page_size - 1) out))"

definition bus_module_init :: "bus_kernel \<Rightarrow> klog \<Rightarrow> c_int \<times> klog" where
  "bus_module_init K l =
     (let ret = bus_register K l;
          l = l @ [Bus (Bus_register ret)]
      in if ret \<noteq> 0 then (ret, l)
         else let r = bus_create_file K l;
                  l = l @ [Bus (Bus_create_file r)];
                  ret = device_register K l ldd_bus_name
              in (ret, l @ [Bus (Device_register ldd_bus_name ret)]))"

definition bus_module_exit :: "klog \<Rightarrow> klog" where
  "bus_module_exit l = l @ [Bus (Device_unregister ldd_bus_name), Bus Bus_remove_file, Bus Bus_unregister]"

section \<open>ex25.c and ex26.c\<close>

definition sample_ldd_device :: ldd_device where
  "sample_ldd_device = \<lparr>dev_title = ''ldd sample'', dev_name = [], parent = []\<rparr>"

definition ldd_device_module_init :: "bus_kernel \<Rightarrow> ldd_device \<Rightarrow> klog \<Rightarrow> c_int \<times> ldd_device \<times> klog" where
  "ldd_device_module_init K d l = (let (ret, d, l) = ldd_register_device K d l in (ret, d, l))"

definition ldd_device_module_exit :: "ldd_device \<Rightarrow> klog \<Rightarrow> ldd_device \<times> klog" where
  "ldd_device_module_exit d l = (d, ldd_unregister_device d l)"

definition sample_ldd_driver :: ldd_driver where
  "sample_ldd_driver = \<lparr>version = ''1.2'', driver_name = ''ldd0'', attr_name = None\<rparr>"

definition ldd_driver_module_init :: "bus_kernel \<Rightarrow> ldd_driver \<Rightarrow> klog \<Rightarrow> c_int \<times> ldd_driver \<times> klog" where
  "ldd_driver_module_init K d l = (let (ret, d, l) = ldd_register_driver K d l in (ret, d, l))"

definition ldd_driver_module_exit :: "ldd_driver \<Rightarrow> klog \<Rightarrow> ldd_driver \<times> klog" where
  "ldd_driver_module_exit d l = (d, ldd_unregister_driver d l)"

section \<open>The registration interface\<close>

text \<open>
  What a client module of the bus relies on: a registration that succeeds is held until it
  is undone, one that fails holds nothing. The device half of \<open>lddbus.h\<close> keeps this.
\<close>

locale registry =
  fixes reg :: "'e \<Rightarrow> 'd \<Rightarrow> klog \<Rightarrow> c_int \<times> 'd \<times> klog"
    and unreg :: "'d \<Rightarrow> klog \<Rightarrow> klog"
    and holds :: "'d \<Rightarrow> resource multiset"
  assumes reg_ok: "reg K d l = (0, d', l') \<Longrightarrow> ledger l = Some R \<Longrightarrow> ledger l' = Some (R + holds d')"
    and reg_fails: "reg K d l = (ret, d', l') \<Longrightarrow> ret \<noteq> 0 \<Longrightarrow> ledger l = Some R \<Longrightarrow> ledger l' = Some R"
    and unreg_ok: "ledger l = Some (R + holds d) \<Longrightarrow> ledger (unreg d l) = Some R"
begin

lemma client_module: "loadable_module reg (\<lambda>d l. (d, unreg d l)) holds"
  by unfold_locales (auto intro: reg_ok reg_fails unreg_ok)

end

definition device_holds :: "ldd_device \<Rightarrow> resource multiset" where
  "device_holds d = {#Device_reg (device_path d)#}"

interpretation ldd_devices: registry ldd_register_device ldd_unregister_device device_holds
  by unfold_locales
    (auto simp: ldd_register_device_def ldd_unregister_device_def device_holds_def Let_def effect_simps)

interpretation ex25_mod: loadable_module ldd_device_module_init ldd_device_module_exit device_holds
proof -
  have "ldd_device_module_init = ldd_register_device"
    and "ldd_device_module_exit = (\<lambda>d l. (d, ldd_unregister_device d l))"
    by (simp_all add: ldd_device_module_init_def ldd_device_module_exit_def fun_eq_iff)
  then show "loadable_module ldd_device_module_init ldd_device_module_exit device_holds"
    using ldd_devices.client_module by simp
qed

section \<open>Properties\<close>

lemma char_at_tl: "nul_free a \<Longrightarrow> a \<noteq> [] \<Longrightarrow> char_at a \<noteq> 0"
  by (cases a) (auto simp: nul_free_def)

lemma of_char_eq_int: "(of_char c :: int) = of_char d \<longleftrightarrow> c = d"
  by (metis char_of_char)

lemma strncmp_prefix:
  "nul_free a \<Longrightarrow> nul_free b \<Longrightarrow> strncmp a b (length b) = 0 \<longleftrightarrow> prefix b a"
proof (induction b arbitrary: a)
  case Nil
  then show ?case by simp
next
  case (Cons y b)
  then show ?case
    by (cases a) (auto simp: nul_free_def of_char_eq_int)
qed

text \<open>The name test of the bus is a prefix test: a driver matches every device whose name
  starts with the driver's, not only the equal name. The sample driver matches the sample
  device after its registration, whose own name \<open>ldd sample\<close> is never looked at.\<close>

lemma ldd_match_is_prefix_test:
  assumes "nul_free (dev_name dev)" and "nul_free (driver_name drv)"
  shows "ldd_match dev drv = (if prefix (driver_name drv) (dev_name dev) then 1 else 0) \<and>
    (\<forall>K d l ret d' l'. ldd_register_device K d l = (ret, d', l') \<longrightarrow> ldd_match d' sample_ldd_driver = 1)"
proof -
  have "strncmp (dev_name dev) (driver_name drv) (length (driver_name drv)) = 0 \<longleftrightarrow>
      prefix (driver_name drv) (dev_name dev)"
    using assms by (rule strncmp_prefix)
  then show ?thesis
    by (auto simp: ldd_match_def strlen_def ldd_register_device_def sample_ldd_driver_def Let_def)
qed

lemma ldd_match_is_prefix_test_witness:
  "ldd_match \<lparr>dev_title = [], dev_name = ''ldd0'', parent = []\<rparr> (sample_ldd_driver\<lparr>driver_name := ''ld''\<rparr>) = 1"
  using ldd_match_is_prefix_test [of "\<lparr>dev_title = [], dev_name = ''ldd0'', parent = []\<rparr>"
      "sample_ldd_driver\<lparr>driver_name := ''ld''\<rparr>"]
  by (simp add: nul_free_def sample_ldd_driver_def)

text \<open>The bus module. When the root device cannot be registered, init fails with the bus
  and its attribute still registered, since its exit will not run; when only the attribute
  cannot be created, init succeeds and exit removes an attribute that is not there. In
  every other case loading and unloading is balanced.\<close>

lemma bus_module_lifecycle:
  assumes "bus_module_init K l = (ret, l')" and "ledger l = Some R" and "Bus_attr \<notin># R"
  shows "let l1 = l @ [Bus (Bus_register (bus_register K l))]; attr = (bus_create_file K l1 = 0)
    in if ret = 0 then ledger (bus_module_exit l') = (if attr then Some R else None)
       else ledger l' = Some (R + (if bus_register K l \<noteq> 0 then {#}
                                   else {#Bus_type#} + (if attr then {#Bus_attr#} else {#})))"
  using assms
  by (auto simp: bus_module_init_def bus_module_exit_def Let_def effect_simps split: if_splits)

definition good_bus :: bus_kernel where
  "good_bus = kernel.extend good_kernel
     \<lparr>bus_register = (\<lambda>l. 0), bus_create_file = (\<lambda>l. 0), device_register = (\<lambda>l n. 0),
      driver_register = (\<lambda>l n. 0), driver_create_file = (\<lambda>l n. 0), add_uevent_var = (\<lambda>s. 0)\<rparr>"

lemma bus_module_lifecycle_witness:
  "ledger (snd (bus_module_init (good_bus\<lparr>device_register := \<lambda>l n. - 17\<rparr>) [])) = Some {#Bus_type, Bus_attr#}"
proof -
  let ?K = "good_bus\<lparr>device_register := \<lambda>l n. - 17\<rparr>"
  have "fst (bus_module_init ?K []) = - 17"
    by (simp add: bus_module_init_def good_bus_def kernel.defs Let_def)
  then have i: "bus_module_init ?K [] = (- 17, snd (bus_module_init ?K []))" by (simp add: prod_eq_iff)
  show ?thesis
    using bus_module_lifecycle [OF i ledger_Nil] by (auto simp: good_bus_def kernel.defs Let_def)
qed

text \<open>The driver half of the interface does not undo its first step: a driver module whose
  attribute file cannot be created fails to load and leaves its driver registered; a load
  that succeeds is balanced by its exit.\<close>

lemma ldd_driver_stays_registered:
  assumes "ldd_driver_module_init K d l = (ret, d', l')" and "ledger l = Some R"
  shows "if ret = 0 then ledger (snd (ldd_driver_module_exit d' l')) = Some R
    else ledger l' = Some (R + (if driver_register K l (driver_name d) = 0 then {#Driver_reg (driver_name d)#} else {#}))"
  using assms
  by (auto simp: ldd_driver_module_init_def ldd_driver_module_exit_def ldd_register_driver_def
      ldd_unregister_driver_def Let_def effect_simps split: if_splits)

lemma ldd_driver_stays_registered_witness:
  "ledger (snd (snd (ldd_driver_module_init (good_bus\<lparr>driver_create_file := \<lambda>l n. - 12\<rparr>) sample_ldd_driver [])))
     = Some {#Driver_reg ''ldd0''#}"
proof -
  let ?K = "good_bus\<lparr>driver_create_file := \<lambda>l n. - 12\<rparr>"
  let ?i = "ldd_driver_module_init ?K sample_ldd_driver []"
  have "fst ?i = - 12"
    by (simp add: ldd_driver_module_init_def ldd_register_driver_def good_bus_def kernel.defs Let_def)
  then have i: "?i = (- 12, fst (snd ?i), snd (snd ?i))" by (simp add: prod_eq_iff)
  show ?thesis
    using ldd_driver_stays_registered [OF i ledger_Nil] by (simp add: good_bus_def kernel.defs sample_ldd_driver_def)
qed

section \<open>Many devices on one bus\<close>

text \<open>The bus type: what the driver core calls for the devices and drivers of the bus.\<close>

record bus_type =
  bus_name :: string
  match_fn :: "ldd_device \<Rightarrow> ldd_driver \<Rightarrow> c_int"
  uevent_fn :: "bus_kernel \<Rightarrow> c_int"

definition ldd_bus_type :: bus_type where
  "ldd_bus_type = \<lparr>bus_name = ''ldd'', match_fn = ldd_match, uevent_fn = ldd_uevent\<rparr>"

text \<open>
  Client modules like \<open>ex25.c\<close>, each with its own \<open>struct ldd_device\<close>, are loaded and
  unloaded in any order. A client whose registration fails does not stay loaded; one that
  is not loaded is not unloaded.
\<close>

datatype bus_event = Load_client nat | Unload_client nat

record bus_session =
  client_dev :: "nat \<Rightarrow> ldd_device"
  loaded_clients :: "nat set"
  bus_log :: klog

fun bus_step :: "bus_kernel \<Rightarrow> bus_event \<Rightarrow> bus_session \<Rightarrow> bus_session" where
  "bus_step K (Load_client i) S =
     (if i \<in> loaded_clients S then S
      else let (ret, d, l) = ldd_device_module_init K (client_dev S i) (bus_log S)
           in S\<lparr>client_dev := (client_dev S)(i := d), bus_log := l,
                loaded_clients := (if ret = 0 then insert i (loaded_clients S) else loaded_clients S)\<rparr>)"
| "bus_step K (Unload_client i) S =
     (if i \<in> loaded_clients S
      then let (d, l) = ldd_device_module_exit (client_dev S i) (bus_log S)
           in S\<lparr>client_dev := (client_dev S)(i := d), bus_log := l, loaded_clients := loaded_clients S - {i}\<rparr>
      else S)"

declare bus_step.simps [simp del]

text \<open>Documented: a second directory of the same name below one parent is refused.\<close>

definition distinct_paths :: "bus_kernel \<Rightarrow> bool" where
  "distinct_paths K \<longleftrightarrow>
     (\<forall>l p R. ledger l = Some R \<longrightarrow> Device_reg p \<in># R \<longrightarrow> device_register K l p \<noteq> 0)"

abbreviation ldd0_path :: string where "ldd0_path \<equiv> ''ldd0/ldd0''"

definition bus_inv :: "resource multiset \<Rightarrow> bus_session \<Rightarrow> bool" where
  "bus_inv R S \<longleftrightarrow>
     (\<forall>i \<in> loaded_clients S. dev_name (client_dev S i) = ''ldd0'' \<and> device_path (client_dev S i) = ldd0_path) \<and>
     (\<forall>i \<in> loaded_clients S. \<forall>j \<in> loaded_clients S. i = j) \<and>
     ledger (bus_log S) = Some (R + (if loaded_clients S = {} then {#} else {#Device_reg ldd0_path#}))"

lemma client_init:
  assumes "ldd_device_module_init K d l = (ret, d', l')"
  shows "dev_name d' = ''ldd0''" and "device_path d' = ldd0_path" and "ret = device_register K l ldd0_path"
    and "l' = l @ [Bus (Device_register ldd0_path ret)]"
  using assms
  by (auto simp: ldd_device_module_init_def ldd_register_device_def device_path_def ldd_bus_name_def Let_def)

lemma bus_inv_step:
  assumes "distinct_paths K" and "bus_inv R S"
  shows "bus_inv R (bus_step K e S)"
proof (cases e)
  case (Load_client i)
  obtain ret d l where c: "ldd_device_module_init K (client_dev S i) (bus_log S) = (ret, d, l)"
    by (metis prod_cases3)
  note d = client_init [OF c]
  show ?thesis
  proof (cases "loaded_clients S = {}")
    case True
    then show ?thesis
      using assms(2) c d by (simp add: bus_step.simps Load_client bus_inv_def effect_simps)
  next
    case False
    then have "ret \<noteq> 0"
      using assms unfolding distinct_paths_def bus_inv_def d(3) by auto
    then show ?thesis
      using assms(2) c d False by (auto simp: bus_step.simps Load_client bus_inv_def effect_simps)
  qed
next
  case (Unload_client i)
  show ?thesis
  proof (cases "i \<in> loaded_clients S")
    case True
    then have "loaded_clients S = {i}"
      using assms(2) by (auto simp: bus_inv_def)
    then show ?thesis
      using assms(2) by (simp add: bus_step.simps Unload_client bus_inv_def ldd_device_module_exit_def ldd_unregister_device_def effect_simps)
  qed (use assms(2) in \<open>simp add: bus_step.simps Unload_client\<close>)
qed

lemma load_keeps: "i \<in> loaded_clients S \<Longrightarrow> i \<in> loaded_clients (bus_step K (Load_client j) S)"
  by (auto simp: bus_step.simps split: prod.splits)

lemma bus_inv_run: "distinct_paths K \<Longrightarrow> bus_inv R S \<Longrightarrow> bus_inv R (fold (bus_step K) es S)"
  by (induction es arbitrary: S) (simp_all add: bus_inv_step)

text \<open>C23: every device of the bus gets the name \<open>ldd0\<close>, whatever its own title. So however many
  client modules are loaded and unloaded, in any order, at most one of them holds a device
  at any time, every other registration is refused, the registrations stay balanced, and
  which drivers match the device does not depend on the client: those whose name is a
  prefix of \<open>ldd0\<close>, the empty name and \<open>l\<close> among them.\<close>

theorem bus_holds_one_device:
  assumes "distinct_paths K" and "ledger (bus_log S) = Some R" and "loaded_clients S = {}"
    and "fold (bus_step K) es S = S'"
  shows "card (loaded_clients S') \<le> 1 \<and>
    ledger (bus_log S') = Some (R + (if loaded_clients S' = {} then {#} else {#Device_reg ''ldd0/ldd0''#})) \<and>
    (\<forall>i \<in> loaded_clients S'. \<forall>drv. nul_free (driver_name drv) \<longrightarrow>
       (match_fn ldd_bus_type (client_dev S' i) drv \<noteq> 0 \<longleftrightarrow> prefix (driver_name drv) ''ldd0'')) \<and>
    (\<forall>i j. i \<in> loaded_clients S' \<longrightarrow> j \<noteq> i \<longrightarrow> j \<notin> loaded_clients (bus_step K (Load_client j) S'))"
proof -
  have "bus_inv R S" using assms(2,3) by (simp add: bus_inv_def)
  then have inv: "bus_inv R S'" and next_inv: "bus_inv R (bus_step K e S')" for e
    using bus_inv_run [OF assms(1)] bus_inv_step [OF assms(1)] assms(4) by blast+
  have m: "match_fn ldd_bus_type (client_dev S' i) drv \<noteq> 0 \<longleftrightarrow> prefix (driver_name drv) ''ldd0''"
    if "i \<in> loaded_clients S'" "nul_free (driver_name drv)" for i drv
  proof -
    have nm: "dev_name (client_dev S' i) = ''ldd0''"
      using inv that(1) unfolding bus_inv_def by blast
    have "nul_free (dev_name (client_dev S' i))"
      unfolding nm by (simp add: nul_free_def)
    from conjunct1 [OF ldd_match_is_prefix_test [OF this that(2)]]
    show ?thesis unfolding nm by (simp add: ldd_bus_type_def)
  qed
  have "loaded_clients S' = {} \<or> (\<exists>i. loaded_clients S' = {i})"
    using inv unfolding bus_inv_def by blast
  then have "card (loaded_clients S') \<le> 1" by auto
  moreover have "j \<notin> loaded_clients (bus_step K (Load_client j) S')" if "i \<in> loaded_clients S'" "j \<noteq> i" for i j
  proof -
    have "i \<in> loaded_clients (bus_step K (Load_client j) S')"
      by (rule load_keeps [OF that(1)])
    with next_inv [of "Load_client j"] that(2) show ?thesis unfolding bus_inv_def by blast
  qed
  moreover have "ledger (bus_log S') = Some (R + (if loaded_clients S' = {} then {#} else {#Device_reg ''ldd0/ldd0''#}))"
    using inv unfolding bus_inv_def by blast
  ultimately show ?thesis using m by blast
qed

text \<open>A driver core that refuses a path in use; two clients with titles of their own.\<close>

definition strict_bus :: bus_kernel where
  "strict_bus = good_bus\<lparr>device_register := \<lambda>l p. (case ledger l of None \<Rightarrow> 0 | Some R \<Rightarrow> if Device_reg p \<in># R then - 17 else 0)\<rparr>"

definition two_clients :: bus_session where
  "two_clients = \<lparr>client_dev = (\<lambda>i. sample_ldd_device\<lparr>dev_title := if i = 0 then ''first'' else ''second''\<rparr>),
     loaded_clients = {}, bus_log = []\<rparr>"

theorem bus_holds_one_device_witness:
  "loaded_clients (fold (bus_step strict_bus) [Load_client 0, Load_client 1] two_clients) = {0} \<and>
   1 \<notin> loaded_clients (bus_step strict_bus (Load_client 1) (fold (bus_step strict_bus) [Load_client 0, Load_client 1] two_clients))"
proof -
  let ?S = "fold (bus_step strict_bus) [Load_client 0, Load_client 1] two_clients"
  have K: "distinct_paths strict_bus"
    by (simp add: distinct_paths_def strict_bus_def)
  have l: "ledger (bus_log two_clients) = Some {#}" and e: "loaded_clients two_clients = {}"
    by (simp_all add: two_clients_def)
  have "0 \<in> loaded_clients (bus_step strict_bus (Load_client 0) two_clients)"
    by (simp add: two_clients_def strict_bus_def good_bus_def kernel.defs ldd_device_module_init_def
        ldd_register_device_def Let_def bus_step.simps)
  then have z: "0 \<in> loaded_clients ?S" by (simp add: load_keeps)
  have s: "card (loaded_clients ?S) \<le> 1"
    and n: "\<forall>i j. i \<in> loaded_clients ?S \<longrightarrow> j \<noteq> i \<longrightarrow> j \<notin> loaded_clients (bus_step strict_bus (Load_client j) ?S)"
    using bus_holds_one_device [OF K l e refl, of "[Load_client 0, Load_client 1]"] by blast+
  have "1 \<notin> loaded_clients (bus_step strict_bus (Load_client 1) ?S)" using n z by auto
  moreover have "loaded_clients ?S = {0}"
  proof -
    have "finite (loaded_clients ?S)"
      by (simp add: bus_step.simps two_clients_def split: prod.splits)
    then show ?thesis using s z by (auto simp: card_le_Suc0_iff_eq)
  qed
  ultimately show ?thesis by simp
qed

end
