(* ===== verification/Char_Ioctl.thy ===== *)
theory Char_Ioctl
  imports Lock_Concurrency
begin

text \<open>
  The driver with an \<open>ioctl\<close> of day 4 (\<open>ex11.c\<close>, \<open>driver_ioctl_const.h\<close>): read and write
  under the semaphore as in \<open>ex7.c\<close>, and two commands that fill the buffer without it. The
  last part interleaves the fill with the locked reads, byte by byte.
\<close>

section \<open>Commands\<close>

text \<open>The encoding of command numbers (\<open>asm/ioctl.h\<close>) and of access kinds is the kernel's.\<close>

record ioctl_abi =
  IOC_TYPE :: "c_uint \<Rightarrow> c_uint"
  IOC_NR :: "c_uint \<Rightarrow> c_uint"
  IOC_DIR :: "c_uint \<Rightarrow> c_uint"
  IOC_SIZE :: "c_uint \<Rightarrow> c_uint"
  IOC_READ :: c_uint
  IOC_WRITE :: c_uint
  VERIFY_READ :: c_int
  VERIFY_WRITE :: c_int

definition linux_ioc :: ioctl_abi where
  "linux_ioc = \<lparr>IOC_TYPE = (\<lambda>c. drop_bit 8 c AND 0xFF), IOC_NR = (\<lambda>c. c AND 0xFF),
     IOC_DIR = (\<lambda>c. drop_bit 30 c), IOC_SIZE = (\<lambda>c. drop_bit 16 c AND 0x3FFF),
     IOC_READ = 2, IOC_WRITE = 1, VERIFY_READ = 0, VERIFY_WRITE = 1\<rparr>"

definition MAGIC_NUM :: c_uint where "MAGIC_NUM = 109"
definition IOCTL_NUMS :: c_uint where "IOCTL_NUMS = 3"

text \<open>\<open>_IO(MAGIC_NUM,1)\<close> and \<open>_IOW(MAGIC_NUM,2,char)\<close> in the encoding of \<open>linux_ioc\<close>.\<close>

definition CLEAR_BUFFER :: c_uint where "CLEAR_BUFFER = 0x6D01"
definition FILL_BUFFFER :: c_uint where "FILL_BUFFFER = 0x40016D02"

section \<open>The driver\<close>

definition ex11_open :: "('l, 'a) chr_sem_scheme \<Rightarrow> c_int \<times> ('l, 'a) chr_sem_scheme" where
  "ex11_open s = (0, s)"

definition ex11_release :: "('l, 'a) chr_sem_scheme \<Rightarrow> c_int \<times> ('l, 'a) chr_sem_scheme" where
  "ex11_release s = (0, s)"

definition ex11_read ::
    "'l lockops \<Rightarrow> uaccess \<Rightarrow> ptr \<Rightarrow> size_t \<Rightarrow> ('l, 'a) chr_sem_scheme \<Rightarrow>
      (ssize_t \<times> byte list \<times> ('l, 'a) chr_sem_scheme) outcome" where
  "ex11_read = locked_read"

definition ex11_write ::
    "'l lockops \<Rightarrow> uaccess \<Rightarrow> ptr \<Rightarrow> size_t \<Rightarrow> ('l, 'a) chr_sem_scheme \<Rightarrow>
      (ssize_t \<times> ('l, 'a) chr_sem_scheme) outcome" where
  "ex11_write = locked_write"

definition memset_buffer :: "byte \<Rightarrow> ('l, 'a) chr_sem_scheme \<Rightarrow> (ssize_t \<times> ('l, 'a) chr_sem_scheme) outcome" where
  "memset_buffer c s =
     obind (fill_obj (buffer s) (bufmem s) c (scast buffer_len)) (\<lambda>m. Ret (0, s\<lparr>bufmem := m\<rparr>))"

definition ex11_ioctl ::
    "ioctl_abi \<Rightarrow> uaccess \<Rightarrow> c_uint \<Rightarrow> c_ulong \<Rightarrow> ('l, 'a) chr_sem_scheme \<Rightarrow>
      (ssize_t \<times> ('l, 'a) chr_sem_scheme) outcome" where
  "ex11_ioctl A U cmd arg s =
     (let ch = ucast arg :: byte
      in if IOC_TYPE A cmd \<noteq> MAGIC_NUM then Ret (- ENOTTY, s)
         else if IOCTL_NUMS < IOC_NR A cmd then Ret (- ENOTTY, s)
         else if IOC_DIR A cmd AND IOC_READ A \<noteq> 0 \<and> \<not> access_ok U (VERIFY_WRITE A) arg (IOC_SIZE A cmd)
         then Ret (- EFAULT, s)
         else if IOC_DIR A cmd AND IOC_WRITE A \<noteq> 0 \<and> \<not> access_ok U (VERIFY_READ A) arg (IOC_SIZE A cmd)
         then Ret (- EFAULT, s)
         else let num = IOC_NR A cmd
              in if num = 1 then memset_buffer 0 s
                 else if num = 2
                 then let ch = snd (copy_from_user U arg 1) ! 0 in memset_buffer ch s
                 else Ret (- ENOTTY, s))"

definition ex11_module_init :: "'l lockops \<Rightarrow> kernel \<Rightarrow> 'l chr_sem \<Rightarrow> klog \<Rightarrow> c_int \<times> 'l chr_sem \<times> klog" where
  "ex11_module_init L = dynamic_init (sem_setup L)"

definition ex11_module_exit :: "'l chr_sem \<Rightarrow> klog \<Rightarrow> 'l chr_sem \<times> klog" where
  "ex11_module_exit = chr_exit"

interpretation ex11_mod: loadable_module "ex11_module_init L" ex11_module_exit chr_owns for L :: "'l lockops"
  unfolding ex11_module_init_def ex11_module_exit_def by (rule dynamic_module [OF plain_sem_setup])

sublocale kernel_lock \<subseteq> ex11_dev: char_device "ex11_read L" "ex11_write L" "chr_obj :: 'l chr_sem \<Rightarrow> byte list"
    "\<lambda>s. lk_free L (sem s)" "\<lambda>s. lk_free L (sem s)"
  unfolding ex11_read_def ex11_write_def by (rule locked_device)

section \<open>The fill without the semaphore\<close>

text \<open>
  Threads in read and write as in \<open>lk_step\<close>, and threads in the ioctl: \<open>fills i\<close> is the
  byte and the offset of the \<open>memset\<close> of thread \<open>i\<close>, which no lock holds back.
  \<open>held\<close> is a ghost: every contents the buffer has had.
\<close>

record 'l io_sys =
  locked_part :: "'l sys"
  fills :: "nat \<Rightarrow> (byte \<times> nat) option"
  held :: "byte list list"

definition io_start :: "'l lockops \<Rightarrow> byte list \<Rightarrow> 'l io_sys \<Rightarrow> bool" where
  "io_start L m s \<longleftrightarrow> lk_start L m (locked_part s) \<and> fills s = (\<lambda>_. None) \<and> held s = [m]"

inductive io_step :: "'l lockops \<Rightarrow> 'l io_sys \<Rightarrow> 'l io_sys \<Rightarrow> bool" for L :: "'l lockops" where
  locked_call: "lk_step L (locked_part s) p \<Longrightarrow>
    io_step L s (s\<lparr>locked_part := p, held := held s @ [smem p]\<rparr>)"
| fill_call: "fills s i = None \<Longrightarrow> io_step L s (s\<lparr>fills := (fills s)(i := Some (c, 0))\<rparr>)"
| fill_byte: "fills s i = Some (c, k) \<Longrightarrow> k < length (smem (locked_part s)) \<Longrightarrow>
    io_step L s (s\<lparr>locked_part := (locked_part s)\<lparr>smem := (smem (locked_part s))[k := c]\<rparr>,
                   fills := (fills s)(i := Some (c, Suc k)),
                   held := held s @ [(smem (locked_part s))[k := c]]\<rparr>)"
| fill_ret: "fills s i = Some (c, k) \<Longrightarrow> k = length (smem (locked_part s)) \<Longrightarrow>
    io_step L s (s\<lparr>fills := (fills s)(i := None)\<rparr>)"

text \<open>One thread in the ioctl (0) and one reader (1).\<close>

definition io_pair :: "'l \<Rightarrow> byte list \<Rightarrow> pc \<Rightarrow> (byte \<times> nat) option \<Rightarrow> byte list list \<Rightarrow> byte list list \<Rightarrow> 'l io_sys" where
  "io_pair x m p f cs h = \<lparr>locked_part = \<lparr>slock = x, smem = m, spc = duo Idle Idle p, commits = cs\<rparr>,
     fills = duo None f None, held = h\<rparr>"

lemma io_locked:
  assumes "lk_step L \<lparr>slock = x, smem = m, spc = duo Idle Idle p, commits = cs\<rparr>
      \<lparr>slock = x', smem = m, spc = duo Idle Idle p', commits = cs\<rparr>"
  shows "io_step L (io_pair x m p f cs h) (io_pair x' m p' f cs (h @ [m]))"
  using locked_call [of L "io_pair x m p f cs h" "\<lparr>slock = x', smem = m, spc = duo Idle Idle p', commits = cs\<rparr>"] assms
  by (simp add: io_pair_def)

lemma torn_fill:
  assumes "lock_laws V L"
  shows "\<exists>s. reaches (io_start L [0, 0]) (io_step L) s \<and>
    spc (locked_part s) 1 = Finished (Read_task 2) [0, 1] \<and> (\<forall>b \<in> set (held s). take 2 b \<noteq> [0, 1])"
proof -
  let ?x = "lk_init L"
  obtain y where y: "lk_acquire L ?x = Some y"
    using assms by (auto simp: lock_laws_def lk_free_def)
  let ?S = "\<lambda>x m p. \<lparr>slock = x, smem = m, spc = duo Idle Idle p, commits = [[0, 0 :: byte]]\<rparr>"
  let ?P = "\<lambda>x m p f. io_pair x m p f [[0, 0 :: byte]]"
  let ?Z = "[0, 0 :: byte]" and ?O = "[1, 1 :: byte]" and ?H = "[1, 0 :: byte]"
  let ?R = "reaches (io_start L ?Z) (io_step L)"
  have 0: "?R (?P ?x ?Z Idle None [?Z])"
    by (rule reaches_start) (simp add: io_start_def io_pair_def lk_start_def duo_idle)
  have "lk_step L (?S ?x ?Z Idle) (?S ?x ?Z (At_lock (Read_task 2)))"
    using call [of "?S ?x ?Z Idle" 1 "Read_task 2"] by simp
  note 1 = reaches_step [OF 0 io_locked [OF this]]
  have "lk_step L (?S ?x ?Z (At_lock (Read_task 2))) (?S y ?Z (Copying (Read_task 2) 0 []))"
    using down [of "?S ?x ?Z (At_lock (Read_task 2))" 1 "Read_task 2" L y] y by simp
  note 2 = reaches_step [OF 1 io_locked [OF this]]
  have "lk_step L (?S y ?Z (Copying (Read_task 2) 0 [])) (?S y ?Z (Copying (Read_task 2) 1 [0]))"
    using copy_out [of "?S y ?Z (Copying (Read_task 2) 0 [])" 1 2 0 "[]"] by simp
  note 3 = reaches_step [OF 2 io_locked [OF this]]
  let ?h = "[?Z, ?Z, ?Z, ?Z]"
  have 3: "?R (?P y ?Z (Copying (Read_task 2) 1 [0]) None ?h)" using 3 by simp
  have 4: "?R (?P y ?Z (Copying (Read_task 2) 1 [0]) (Some (1, 0)) ?h)"
    by (rule reaches_step_eq [OF 3 fill_call [where i = 0 and c = 1]]) (simp_all add: io_pair_def)
  have 5: "?R (?P y ?H (Copying (Read_task 2) 1 [0]) (Some (1, 1)) (?h @ [?H]))"
    by (rule reaches_step_eq [OF 4 fill_byte [where i = 0 and c = 1 and k = 0]]) (simp_all add: io_pair_def)
  have 6: "?R (?P y ?O (Copying (Read_task 2) 1 [0]) (Some (1, 2)) (?h @ [?H, ?O]))"
    by (rule reaches_step_eq [OF 5 fill_byte [where i = 0 and c = 1 and k = 1]]) (simp_all add: io_pair_def numeral_2_eq_2)
  have "lk_step L (?S y ?O (Copying (Read_task 2) 1 [0])) (?S y ?O (Copying (Read_task 2) 2 [0, 1]))"
    using copy_out [of "?S y ?O (Copying (Read_task 2) 1 [0])" 1 2 1 "[0]"] by (simp add: numeral_2_eq_2)
  note 7 = reaches_step [OF 6 io_locked [OF this]]
  have "lk_step L (?S y ?O (Copying (Read_task 2) 2 [0, 1])) (?S (lk_release L y) ?O (Finished (Read_task 2) [0, 1]))"
    using up_read [of "?S y ?O (Copying (Read_task 2) 2 [0, 1])" 1 2 2 "[0, 1]" L] by simp
  note 8 = reaches_step [OF 7 io_locked [OF this]]
  then show ?thesis
    by (intro exI [of _ "?P (lk_release L y) ?O (Finished (Read_task 2) [0, 1]) (Some (1, 2))
        (?h @ [?H, ?O] @ [?O, ?O])"]) (simp add: io_pair_def)
qed

section \<open>Properties\<close>

text \<open>The ioctl does not take the semaphore that guards the buffer: with one reader inside
  \<open>down\<close>/\<open>up\<close> and one ioctl filling the buffer, a run is reachable in which the read of two
  bytes returns a pair that no contents the buffer ever had starts with.\<close>

lemma ex11_fill_tears_read:
  assumes "lock_laws V L"
  shows "\<exists>s. reaches (io_start L [0, 0]) (io_step L) s \<and>
    spc (locked_part s) 1 = Finished (Read_task 2) [0, 1] \<and> (\<forall>b \<in> set (held s). take 2 b \<noteq> [0, 1])"
  by (rule torn_fill [OF assms])

lemma ex11_fill_tears_read_witness:
  "\<exists>s. reaches (io_start flag_lock [0, 0]) (io_step flag_lock) s \<and>
    spc (locked_part s) 1 = Finished (Read_task 2) [0, 1]"
  using ex11_fill_tears_read [OF flag_lock_laws] by blast

text \<open>The two refusals of the guards.\<close>

definition bad_command :: "ioctl_abi \<Rightarrow> c_uint \<Rightarrow> bool" where
  "bad_command A cmd \<longleftrightarrow> IOC_TYPE A cmd \<noteq> MAGIC_NUM \<or> IOCTL_NUMS < IOC_NR A cmd"

definition bad_address :: "ioctl_abi \<Rightarrow> uaccess \<Rightarrow> c_uint \<Rightarrow> c_ulong \<Rightarrow> bool" where
  "bad_address A U cmd arg \<longleftrightarrow>
     IOC_DIR A cmd AND IOC_READ A \<noteq> 0 \<and> \<not> access_ok U (VERIFY_WRITE A) arg (IOC_SIZE A cmd) \<or>
     IOC_DIR A cmd AND IOC_WRITE A \<noteq> 0 \<and> \<not> access_ok U (VERIFY_READ A) arg (IOC_SIZE A cmd)"

definition fill_value :: "ioctl_abi \<Rightarrow> uaccess \<Rightarrow> c_uint \<Rightarrow> c_ulong \<Rightarrow> byte" where
  "fill_value A U cmd arg =
     (if IOC_NR A cmd = 1 then 0 else if fst (copy_from_user U arg 1) = 0 then user_mem U arg else 0)"

lemma ex11_init_buffer:
  assumes "kernel_ok K" and "ex11_module_init L K g [] = (0, s, l')"
  shows "buffer s \<noteq> 0" and "length (bufmem s) = unat (GFP_KERNEL K)"
proof -
  have "dynamic_init (sem_setup L) K g [] = (0, s, l')"
    using assms(2) by (simp add: ex11_module_init_def)
  from dynamic_init_success(2) [OF plain_sem_setup this ledger_Nil] have "buffer_from_kmalloc K s" .
  then show "buffer s \<noteq> 0" and "length (bufmem s) = unat (GFP_KERNEL K)"
    using buffer_from_kmalloc_length [OF assms(1)] by (auto simp: buffer_from_kmalloc_def)
qed

lemma fill_char:
  assumes "uaccess_ok U"
  shows "snd (copy_from_user U arg 1) ! 0 = (if fst (copy_from_user U arg 1) = 0 then user_mem U arg else 0)"
proof -
  have le: "unat (fst (copy_from_user U arg 1)) \<le> 1" using copy_from_user_le [OF assms, of arg 1] by simp
  show ?thesis
  proof (cases "fst (copy_from_user U arg 1) = 0")
    case True
    then show ?thesis using copy_from_user_data [OF assms, of arg 1] by (simp add: user_bytes_def)
  next
    case False
    then have "unat (fst (copy_from_user U arg 1)) = 1" using le by (simp add: unat_eq_zero le_Suc_eq)
    then show ?thesis using copy_from_user_data [OF assms, of arg 1] False by (simp add: user_bytes_def)
  qed
qed

lemma memset_result:
  assumes "buffer s \<noteq> 0"
  shows "memset_buffer c s = (if length (bufmem s) < 4000 then Fault OutOfBounds
     else Ret (0, s\<lparr>bufmem := put_at 0 (replicate 4000 c) (bufmem s)\<rparr>))"
  using assms by (auto simp: memset_buffer_def fill_obj_def obj_check_def)

text \<open>The ioctl of a loaded \<open>ex11\<close> on every branch. A foreign or too large number is
  \<open>-ENOTTY\<close>, an address the access check refuses \<open>-EFAULT\<close>, a number in range that is not
  a command \<open>-ENOTTY\<close>. The two commands set 4000 bytes to zero or to the user's character
  (zero when it cannot be read, which is not reported) and return 0, unless the object,
  whose size is \<open>GFP_KERNEL\<close>, is shorter: then they run past its end.\<close>

lemma ex11_ioctl_result:
  assumes "kernel_ok K" and "ex11_module_init L K g [] = (0, s, l')" and "uaccess_ok U"
  shows "ex11_ioctl A U cmd arg s =
    (if bad_command A cmd then Ret (- ENOTTY, s)
     else if bad_address A U cmd arg then Ret (- EFAULT, s)
     else if IOC_NR A cmd \<noteq> 1 \<and> IOC_NR A cmd \<noteq> 2 then Ret (- ENOTTY, s)
     else if unat (GFP_KERNEL K) < 4000 then Fault OutOfBounds
     else Ret (0, s\<lparr>bufmem := replicate 4000 (fill_value A U cmd arg) @ drop 4000 (bufmem s)\<rparr>))"
  using ex11_init_buffer [OF assms(1,2)] fill_char [OF assms(3), of arg]
  by (auto simp: ex11_ioctl_def bad_command_def bad_address_def fill_value_def memset_result put_at_def Let_def)

definition ex11_loaded :: "nat chr_sem" where
  "ex11_loaded = fst (snd (ex11_module_init counting_lock good_kernel (sem_image 0) []))"

lemma ex11_loads: "\<exists>l'. ex11_module_init counting_lock good_kernel (sem_image 0) [] = (0, ex11_loaded, l')"
proof -
  have "fst (ex11_module_init counting_lock good_kernel (sem_image 0) []) = 0"
    by (simp add: ex11_module_init_def init_defs sem_setup_def sem_image_def chr.defs)
  then show ?thesis by (metis ex11_loaded_def prod.collapse)
qed

lemma ex11_ioctl_result_witness:
  "ex11_ioctl linux_ioc sevens CLEAR_BUFFER 0 ex11_loaded = Fault OutOfBounds \<and>
   ex11_ioctl linux_ioc sevens 0x6D03 0 ex11_loaded = Ret (- ENOTTY, ex11_loaded)"
proof -
  obtain l' where i: "ex11_module_init counting_lock good_kernel (sem_image 0) [] = (0, ex11_loaded, l')"
    using ex11_loads by blast
  show ?thesis
    using ex11_ioctl_result [OF good_kernel_ok i mapped_uaccess_ok, of linux_ioc "\<lambda>_. 7" CLEAR_BUFFER 0]
      ex11_ioctl_result [OF good_kernel_ok i mapped_uaccess_ok, of linux_ioc "\<lambda>_. 7" "0x6D03" 0]
    by (simp add: bad_command_def bad_address_def linux_ioc_def CLEAR_BUFFER_def MAGIC_NUM_def IOCTL_NUMS_def
        good_GFP mapped_uaccess_def)
qed

end
