(* ===== verification/Char_Wait.thy ===== *)
theory Char_Wait
  imports Char_Locks
begin

text \<open>
  The drivers whose read waits for a write on a wait queue: \<open>day_04/ex12.c\<close>,
  \<open>day_05/ex13.c\<close> (with poll) and \<open>day_05/ex14.c\<close> (with seek). One flag, \<open>condition\<close>,
  says that a write has happened. First one call at a time, then the statements of several
  calls interleaved.
\<close>

section \<open>State and operations\<close>

record 'l chr_wait = "'l chr_sem" +
  condition :: c_int

text \<open>
  \<open>wait_event_interruptible(wt_queue, condition==1)\<close> returns when the condition holds or a
  signal is pending; its result is dropped. \<open>sig\<close> is whether a signal is.
\<close>

definition wait_read ::
    "bool \<Rightarrow> uaccess \<Rightarrow> ptr \<Rightarrow> size_t \<Rightarrow> ('l, 'a) chr_wait_scheme \<Rightarrow>
      (ssize_t \<times> byte list \<times> ('l, 'a) chr_wait_scheme) outcome" where
  "wait_read sig U user_ptr cnt s =
     (if condition s = 1 \<or> sig
      then obind (xfer_read U user_ptr cnt (buffer s) (bufmem s))
             (\<lambda>(ret, out). Ret (ret, out, s\<lparr>condition := 0\<rparr>))
      else Block)"

definition wait_write ::
    "'l lockops \<Rightarrow> uaccess \<Rightarrow> ptr \<Rightarrow> size_t \<Rightarrow> ('l, 'a) chr_wait_scheme \<Rightarrow>
      (ssize_t \<times> ('l, 'a) chr_wait_scheme) outcome" where
  "wait_write L U user_ptr cnt s =
     obind (locked_write L U user_ptr cnt s) (\<lambda>(ret, s). Ret (ret, s\<lparr>condition := 1\<rparr>))"

text \<open>\<open>sema_init(&sem,1); init_waitqueue_head(&wt_queue);\<close>\<close>

definition wait_setup ::
    "'l lockops \<Rightarrow> 'l chr_wait \<Rightarrow> klog \<Rightarrow> c_int \<times> 'l chr_wait \<times> klog" where
  "wait_setup L s l = (0, s\<lparr>sem := lk_init L\<rparr>, l @ [Sync (Sema_init 1), Sync Init_waitqueue_head])"

definition wait_image :: "'l \<Rightarrow> 'l chr_wait" where
  "wait_image x = chr_sem.extend (sem_image x) \<lparr>condition = 0\<rparr>"

section \<open>ex12.c\<close>

definition ex12_open :: "'l chr_wait \<Rightarrow> c_int \<times> 'l chr_wait" where "ex12_open s = (0, s)"
definition ex12_release :: "'l chr_wait \<Rightarrow> c_int \<times> 'l chr_wait" where "ex12_release s = (0, s)"

definition ex12_read ::
    "bool \<Rightarrow> uaccess \<Rightarrow> ptr \<Rightarrow> size_t \<Rightarrow> 'l chr_wait \<Rightarrow> (ssize_t \<times> byte list \<times> 'l chr_wait) outcome" where
  "ex12_read = wait_read"

definition ex12_write ::
    "'l lockops \<Rightarrow> uaccess \<Rightarrow> ptr \<Rightarrow> size_t \<Rightarrow> 'l chr_wait \<Rightarrow> (ssize_t \<times> 'l chr_wait) outcome" where
  "ex12_write = wait_write"

definition ex12_module_init :: "'l lockops \<Rightarrow> kernel \<Rightarrow> 'l chr_wait \<Rightarrow> klog \<Rightarrow> c_int \<times> 'l chr_wait \<times> klog" where
  "ex12_module_init L = dynamic_init (wait_setup L)"

definition ex12_module_exit :: "'l chr_wait \<Rightarrow> klog \<Rightarrow> 'l chr_wait \<times> klog" where
  "ex12_module_exit = chr_exit"

section \<open>ex13.c: poll\<close>

definition ex13_open :: "'l chr_wait \<Rightarrow> c_int \<times> 'l chr_wait" where "ex13_open s = (0, s)"
definition ex13_release :: "'l chr_wait \<Rightarrow> c_int \<times> 'l chr_wait" where "ex13_release s = (0, s)"

definition ex13_read ::
    "bool \<Rightarrow> uaccess \<Rightarrow> ptr \<Rightarrow> size_t \<Rightarrow> 'l chr_wait \<Rightarrow> (ssize_t \<times> byte list \<times> 'l chr_wait) outcome" where
  "ex13_read = wait_read"

definition ex13_write ::
    "'l lockops \<Rightarrow> uaccess \<Rightarrow> ptr \<Rightarrow> size_t \<Rightarrow> 'l chr_wait \<Rightarrow> (ssize_t \<times> 'l chr_wait) outcome" where
  "ex13_write = wait_write"

text \<open>The event bits of \<open>linux/poll.h\<close>; \<open>poll_wait\<close> only registers the caller.\<close>

record poll_abi =
  POLLIN :: c_uint
  POLLRDNORM :: c_uint

definition linux_poll :: poll_abi where
  "linux_poll = \<lparr>POLLIN = 1, POLLRDNORM = 0x40\<rparr>"

definition ex13_poll :: "poll_abi \<Rightarrow> 'l chr_wait \<Rightarrow> c_uint" where
  "ex13_poll A s = (if condition s = 1 then POLLIN A OR POLLRDNORM A else 0)"

definition ex13_module_init :: "'l lockops \<Rightarrow> kernel \<Rightarrow> 'l chr_wait \<Rightarrow> klog \<Rightarrow> c_int \<times> 'l chr_wait \<times> klog" where
  "ex13_module_init L = dynamic_init (wait_setup L)"

definition ex13_module_exit :: "'l chr_wait \<Rightarrow> klog \<Rightarrow> 'l chr_wait \<times> klog" where
  "ex13_module_exit = chr_exit"

section \<open>ex14.c: seek\<close>

definition ex14_open :: "'l chr_wait \<Rightarrow> c_int \<times> 'l chr_wait" where "ex14_open s = (0, s)"
definition ex14_release :: "'l chr_wait \<Rightarrow> c_int \<times> 'l chr_wait" where "ex14_release s = (0, s)"

definition ex14_read ::
    "bool \<Rightarrow> uaccess \<Rightarrow> ptr \<Rightarrow> size_t \<Rightarrow> 'l chr_wait \<Rightarrow> (ssize_t \<times> byte list \<times> 'l chr_wait) outcome" where
  "ex14_read = wait_read"

definition ex14_write ::
    "'l lockops \<Rightarrow> uaccess \<Rightarrow> ptr \<Rightarrow> size_t \<Rightarrow> 'l chr_wait \<Rightarrow> (ssize_t \<times> 'l chr_wait) outcome" where
  "ex14_write = wait_write"

text \<open>
  The result and the new \<open>f_pos\<close>. \<open>uninit\<close> is what \<open>new_pos\<close> holds when no case sets it.
  The body of \<open>if(new_pos > buffer_len);\<close> is the empty statement, so the assignment below
  it is unconditional.
\<close>

definition ex14_seek :: "loff_t \<Rightarrow> loff_t \<Rightarrow> loff_t \<Rightarrow> c_int \<Rightarrow> loff_t \<times> loff_t" where
  "ex14_seek uninit f_pos off whence =
     (let new_pos = (if whence = 0 then off
                     else if whence = 1 then f_pos + off
                     else if whence = 2 then scast buffer_len + off
                     else uninit);
          new_pos = (if sint (scast buffer_len :: loff_t) < sint new_pos then new_pos else new_pos);
          new_pos = scast buffer_len;
          new_pos = (if sint new_pos < 0 then 0 else new_pos)
      in (new_pos, new_pos))"

definition ex14_module_init :: "'l lockops \<Rightarrow> kernel \<Rightarrow> 'l chr_wait \<Rightarrow> klog \<Rightarrow> c_int \<times> 'l chr_wait \<times> klog" where
  "ex14_module_init L = dynamic_init (wait_setup L)"

definition ex14_module_exit :: "'l chr_wait \<Rightarrow> klog \<Rightarrow> 'l chr_wait \<times> klog" where
  "ex14_module_exit = chr_exit"

section \<open>Contracts\<close>

lemma plain_wait_setup: "plain_setup (wait_setup L)"
  by (simp add: plain_setup_def wait_setup_def)

interpretation ex12_mod: loadable_module "ex12_module_init L" ex12_module_exit chr_owns for L :: "'l lockops"
  unfolding ex12_module_init_def ex12_module_exit_def by (rule dynamic_module [OF plain_wait_setup])

interpretation ex13_mod: loadable_module "ex13_module_init L" ex13_module_exit chr_owns for L :: "'l lockops"
  unfolding ex13_module_init_def ex13_module_exit_def by (rule dynamic_module [OF plain_wait_setup])

interpretation ex14_mod: loadable_module "ex14_module_init L" ex14_module_exit chr_owns for L :: "'l lockops"
  unfolding ex14_module_init_def ex14_module_exit_def by (rule dynamic_module [OF plain_wait_setup])

lemma chr_obj_wait [simp]: "chr_obj (s\<lparr>condition := x\<rparr>) = chr_obj s"
  by (simp add: chr_obj_def)

context kernel_lock
begin

lemma wait_device:
  "char_device (wait_read False) (wait_write L) (chr_obj :: ('l, 'a) chr_wait_scheme \<Rightarrow> byte list)
     (\<lambda>s. condition s = 1) (\<lambda>s. lk_free L (sem s))"
proof (unfold_locales, goal_cases)
  case (1 U s n p)
  then show ?case by (simp add: wait_read_def xfer_obj)
next
  case (2 U s n p)
  then show ?case
    by (auto simp: wait_write_def locked_defs xfer_obj chr_obj_write release_free dest!: free_acquire)
next
  case (3 s U p n)
  then show ?case by (simp add: wait_read_def)
next
  case (4 s U p n)
  then show ?case by (simp add: wait_write_def locked_defs lk_free_def)
next
  case (5 s n U p)
  then show ?case using xfer_obj(3) [of s n U p] by (auto simp: wait_read_def)
next
  case (6 s n U p)
  then show ?case using xfer_obj(4) [of s n U p] by (auto simp: wait_write_def locked_defs dest!: free_acquire)
qed

end

sublocale kernel_lock \<subseteq> ex12_dev: char_device "ex12_read False" "ex12_write L" "chr_obj :: 'l chr_wait \<Rightarrow> byte list"
    "\<lambda>s. condition s = 1" "\<lambda>s. lk_free L (sem s)"
  unfolding ex12_read_def ex12_write_def by (rule wait_device)

sublocale kernel_lock \<subseteq> ex13_dev: char_device "ex13_read False" "ex13_write L" "chr_obj :: 'l chr_wait \<Rightarrow> byte list"
    "\<lambda>s. condition s = 1" "\<lambda>s. lk_free L (sem s)"
  unfolding ex13_read_def ex13_write_def by (rule wait_device)

sublocale kernel_lock \<subseteq> ex14_dev: char_device "ex14_read False" "ex14_write L" "chr_obj :: 'l chr_wait \<Rightarrow> byte list"
    "\<lambda>s. condition s = 1" "\<lambda>s. lk_free L (sem s)"
  unfolding ex14_read_def ex14_write_def by (rule wait_device)

section \<open>Sequences of calls\<close>

text \<open>
  Calls made one after the other on \<open>ex13\<close>, without signals; a waiting call leaves no
  effect and a fault ends the run. The trace has \<open>True\<close> for a write that returned and
  \<open>False\<close> for a read that did.
\<close>

fun wait_run :: "'l lockops \<Rightarrow> call list \<Rightarrow> 'l chr_wait \<Rightarrow> bool list \<times> 'l chr_wait" where
  "wait_run L [] s = ([], s)"
| "wait_run L (Rd U p n # cs) s =
     (case ex13_read False U p n s of
        Ret (ret, out, s') \<Rightarrow> (case wait_run L cs s' of (tr, t) \<Rightarrow> (False # tr, t))
      | Block \<Rightarrow> wait_run L cs s
      | Fault f \<Rightarrow> ([], s))"
| "wait_run L (Wr U p n # cs) s =
     (case ex13_write L U p n s of
        Ret (ret, s') \<Rightarrow> (case wait_run L cs s' of (tr, t) \<Rightarrow> (True # tr, t))
      | Block \<Rightarrow> wait_run L cs s
      | Fault f \<Rightarrow> ([], s))"

lemma wait_read_returns:
  "ex13_read False U p n s = Ret (ret, out, s') \<Longrightarrow> condition s = 1 \<and> condition s' = 0"
  by (auto simp: ex13_read_def wait_read_def obind_Ret_iff split: if_splits)

lemma wait_write_returns: "ex13_write L U p n s = Ret (ret, s') \<Longrightarrow> condition s' = 1"
  by (auto simp: ex13_write_def wait_write_def obind_Ret_iff)

text \<open>With \<open>b\<close> for whether a write came last, a trace that no read follows a read in.\<close>

fun alternates :: "bool \<Rightarrow> bool list \<Rightarrow> bool" where
  "alternates b [] = True"
| "alternates b (True # tr) = alternates True tr"
| "alternates b (False # tr) = (b \<and> alternates False tr)"

lemma wait_run_alternates:
  "wait_run L cs s = (tr, t) \<Longrightarrow> (condition s = 1 \<longleftrightarrow> b) \<Longrightarrow>
   alternates b tr \<and> (condition t = 1 \<longleftrightarrow> last (b # tr))"
proof (induction L cs s arbitrary: b tr t rule: wait_run.induct)
  case (1 L s)
  then show ?case by auto
next
  case (2 L U p n cs s)
  show ?case
  proof (cases "ex13_read False U p n s")
    case (Ret x)
    obtain ret out s' where x: "x = (ret, out, s')" by (cases x)
    obtain tr' where "wait_run L cs s' = (tr', t)" "tr = False # tr'"
      using 2(3) Ret x by (auto split: prod.splits)
    with 2(1) [OF Ret x [symmetric] refl, of tr' t False] wait_read_returns [of U p n s ret out s'] Ret x 2(4) show ?thesis
      by auto
  next
    case Block
    then show ?thesis using 2(2) [OF Block] 2(3,4) by auto
  next
    case (Fault f)
    then show ?thesis using 2(3,4) by auto
  qed
next
  case (3 L U p n cs s)
  show ?case
  proof (cases "ex13_write L U p n s")
    case (Ret x)
    obtain ret s' where x: "x = (ret, s')" by (cases x)
    obtain tr' where "wait_run L cs s' = (tr', t)" "tr = True # tr'"
      using 3(3) Ret x by (auto split: prod.splits)
    with 3(1) [OF Ret x [symmetric], of tr' t True] wait_write_returns [of L U p n s ret s'] Ret x show ?thesis
      by auto
  next
    case Block
    then show ?thesis using 3(2) [OF Block] 3(3,4) by auto
  next
    case (Fault f)
    then show ?thesis using 3(3,4) by auto
  qed
qed

lemma alternates_count: "alternates b tr \<Longrightarrow> count_list tr False \<le> count_list tr True + (if b then 1 else 0)"
  by (induction b tr rule: alternates.induct) auto

lemma wait_init_condition:
  assumes "ex13_module_init L K g l = (0, s, l')"
  shows "condition s = condition g"
  using assms
  by (auto simp: ex13_module_init_def dynamic_init_def chr_init_rest_def wait_setup_def fail0_def
      fail1_def fail2_def Let_def split: if_splits prod.splits)

section \<open>Interleaved calls\<close>

text \<open>
  The statements of \<open>read\<close> and \<open>write\<close> of \<open>ex12.c\<close> between any number of threads, a copy as
  one statement. \<open>got\<close> and \<open>wrote\<close> are ghosts: what the reads returned and what was
  written, in order of completion.
\<close>

datatype wpc =
    W_idle
  | R_waiting
  | R_woken
  | R_copied "byte list"
  | Wr_down "byte list"
  | Wr_inside "byte list"
  | Wr_copied "byte list"
  | Wr_after_up "byte list"

record 'l wsys =
  wlock :: 'l
  wmem :: "byte list"
  wcond :: c_int
  wpc :: "nat \<Rightarrow> wpc"
  got :: "byte list list"
  wrote :: "byte list list"

definition wait_start :: "'l lockops \<Rightarrow> byte list \<Rightarrow> 'l wsys \<Rightarrow> bool" where
  "wait_start L m s \<longleftrightarrow>
     s = \<lparr>wlock = lk_init L, wmem = m, wcond = 0, wpc = (\<lambda>_. W_idle), got = [], wrote = []\<rparr>"

inductive wait_step :: "'l lockops \<Rightarrow> 'l wsys \<Rightarrow> 'l wsys \<Rightarrow> bool" for L :: "'l lockops" where
  wr_call: "wpc s i = W_idle \<Longrightarrow> length d \<le> length (wmem s) \<Longrightarrow>
    wait_step L s (s\<lparr>wpc := (wpc s)(i := Wr_down d)\<rparr>)"
| wr_down: "wpc s i = Wr_down d \<Longrightarrow> lk_acquire L (wlock s) = Some x \<Longrightarrow>
    wait_step L s (s\<lparr>wlock := x, wpc := (wpc s)(i := Wr_inside d)\<rparr>)"
| wr_copy: "wpc s i = Wr_inside d \<Longrightarrow>
    wait_step L s (s\<lparr>wmem := put_at 0 d (wmem s), wpc := (wpc s)(i := Wr_copied d)\<rparr>)"
| wr_up: "wpc s i = Wr_copied d \<Longrightarrow>
    wait_step L s (s\<lparr>wlock := lk_release L (wlock s), wpc := (wpc s)(i := Wr_after_up d)\<rparr>)"
| wr_signal: "wpc s i = Wr_after_up d \<Longrightarrow>
    wait_step L s (s\<lparr>wcond := 1, wpc := (wpc s)(i := W_idle), wrote := wrote s @ [d]\<rparr>)"
| rd_call: "wpc s i = W_idle \<Longrightarrow> wait_step L s (s\<lparr>wpc := (wpc s)(i := R_waiting)\<rparr>)"
| rd_woken: "wpc s i = R_waiting \<Longrightarrow> wcond s = 1 \<Longrightarrow>
    wait_step L s (s\<lparr>wpc := (wpc s)(i := R_woken)\<rparr>)"
| rd_copy: "wpc s i = R_woken \<Longrightarrow> wait_step L s (s\<lparr>wpc := (wpc s)(i := R_copied (wmem s))\<rparr>)"
| rd_clear: "wpc s i = R_copied b \<Longrightarrow>
    wait_step L s (s\<lparr>wcond := 0, wpc := (wpc s)(i := W_idle), got := got s @ [b]\<rparr>)"

definition wpair :: "'l \<Rightarrow> byte list \<Rightarrow> c_int \<Rightarrow> wpc \<Rightarrow> wpc \<Rightarrow> byte list list \<Rightarrow> byte list list \<Rightarrow> 'l wsys" where
  "wpair x m c a b g w = \<lparr>wlock = x, wmem = m, wcond = c, wpc = duo W_idle a b, got = g, wrote = w\<rparr>"

lemma wpair_sel [simp]:
  "wlock (wpair x m c a b g w) = x" "wmem (wpair x m c a b g w) = m" "wcond (wpair x m c a b g w) = c"
  "wpc (wpair x m c a b g w) = duo W_idle a b" "got (wpair x m c a b g w) = g" "wrote (wpair x m c a b g w) = w"
  by (simp_all add: wpair_def)

lemma wpair_upd [simp]:
  "(wpair x m c a b g w)\<lparr>wlock := x'\<rparr> = wpair x' m c a b g w"
  "(wpair x m c a b g w)\<lparr>wmem := m'\<rparr> = wpair x m' c a b g w"
  "(wpair x m c a b g w)\<lparr>wcond := c'\<rparr> = wpair x m c' a b g w"
  "(wpair x m c a b g w)\<lparr>wpc := duo W_idle a' b'\<rparr> = wpair x m c a' b' g w"
  "(wpair x m c a b g w)\<lparr>got := g'\<rparr> = wpair x m c a b g' w"
  "(wpair x m c a b g w)\<lparr>wrote := w'\<rparr> = wpair x m c a b g w'"
  by (simp_all add: wpair_def)

text \<open>A whole write by thread 0.\<close>

lemma wpair_write:
  assumes "lk_acquire L x = Some y" and "length d \<le> length m"
    and "reaches start (wait_step L) (wpair x m c W_idle b g w)"
  shows "reaches start (wait_step L) (wpair (lk_release L y) (put_at 0 d m) 1 W_idle b g (w @ [d]))"
proof -
  let ?R = "reaches start (wait_step L)"
  have 1: "?R (wpair x m c (Wr_down d) b g w)"
    by (rule reaches_step_eq [OF assms(3) wr_call [where i = 0 and d = d]]) (simp_all add: assms)
  have 2: "?R (wpair y m c (Wr_inside d) b g w)"
    by (rule reaches_step_eq [OF 1 wr_down [where i = 0 and d = d]]) (simp_all add: assms)
  have 3: "?R (wpair y (put_at 0 d m) c (Wr_copied d) b g w)"
    by (rule reaches_step_eq [OF 2 wr_copy [where i = 0 and d = d]]) simp_all
  have 4: "?R (wpair (lk_release L y) (put_at 0 d m) c (Wr_after_up d) b g w)"
    by (rule reaches_step_eq [OF 3 wr_up [where i = 0 and d = d]]) simp_all
  show ?thesis
    by (rule reaches_step_eq [OF 4 wr_signal [where i = 0 and d = d]]) simp_all
qed

lemma wpair_read_to_copy:
  assumes "reaches start (wait_step L) (wpair x m 1 a W_idle g w)"
  shows "reaches start (wait_step L) (wpair x m 1 a (R_copied m) g w)"
proof -
  let ?R = "reaches start (wait_step L)"
  have 1: "?R (wpair x m 1 a R_waiting g w)"
    by (rule reaches_step_eq [OF assms rd_call [where i = 1]]) simp_all
  have 2: "?R (wpair x m 1 a R_woken g w)"
    by (rule reaches_step_eq [OF 1 rd_woken [where i = 1]]) simp_all
  show ?thesis by (rule reaches_step_eq [OF 2 rd_copy [where i = 1]]) simp_all
qed

lemma wpair_clear:
  assumes "reaches start (wait_step L) (wpair x m c a (R_copied v) g w)"
  shows "reaches start (wait_step L) (wpair x m 0 a W_idle (g @ [v]) w)"
  by (rule reaches_step_eq [OF assms rd_clear [where i = 1 and b = v]]) simp_all

lemma wpair_start:
  "reaches (wait_start L m) (wait_step L) (wpair (lk_init L) m 0 W_idle W_idle [] [])"
  by (rule reaches_start) (simp add: wait_start_def wpair_def duo_idle)

lemma wpair_two_writes:
  assumes "lock_laws V L"
  shows "\<exists>x. lk_free L x \<and> reaches (wait_start L [0]) (wait_step L) (wpair x [2] 0 W_idle W_idle [[1]] [[1], [2]])"
proof -
  obtain y where y: "lk_acquire L (lk_init L) = Some y" "lk_free L (lk_release L y)"
    using assms by (auto simp: lock_laws_def lk_free_def)
  then obtain z where z: "lk_acquire L (lk_release L y) = Some z" by (auto simp: lk_free_def)
  then have f: "lk_free L (lk_release L z)" using assms by (auto simp: lock_laws_def)
  have "reaches (wait_start L [0]) (wait_step L) (wpair (lk_release L y) [1] 1 W_idle (R_copied [1]) [] [[1]])"
    using wpair_read_to_copy [OF wpair_write [OF y(1) _ wpair_start [of L "[0]"], where d = "[1]"]]
    by (simp add: put_at_def)
  from wpair_clear [OF wpair_write [OF z _ this, where d = "[2]"]] f show ?thesis
    by (auto simp: put_at_def)
qed

text \<open>Two readers past the wait: thread 0 comes back to read as well.\<close>

lemma wpair_two_reads:
  assumes "lock_laws V L"
  shows "\<exists>x. reaches (wait_start L [0]) (wait_step L) (wpair x [1] 0 W_idle W_idle [[1], [1]] [[1]])"
proof -
  obtain y where y: "lk_acquire L (lk_init L) = Some y"
    using assms by (auto simp: lock_laws_def lk_free_def)
  let ?R = "reaches (wait_start L [0]) (wait_step L)" and ?x = "lk_release L y"
  have 0: "?R (wpair ?x [1] 1 W_idle (R_copied [1]) [] [[1]])"
    using wpair_read_to_copy [OF wpair_write [OF y _ wpair_start [of L "[0]"], where d = "[1]"]]
    by (simp add: put_at_def)
  have 1: "?R (wpair ?x [1] 1 R_waiting (R_copied [1]) [] [[1]])"
    by (rule reaches_step_eq [OF 0 rd_call [where i = 0]]) simp_all
  have 2: "?R (wpair ?x [1] 1 R_woken (R_copied [1]) [] [[1]])"
    by (rule reaches_step_eq [OF 1 rd_woken [where i = 0]]) simp_all
  have 3: "?R (wpair ?x [1] 0 R_woken W_idle [[1]] [[1]])"
    using wpair_clear [OF 2] by simp
  have 4: "?R (wpair ?x [1] 0 (R_copied [1]) W_idle [[1]] [[1]])"
    by (rule reaches_step_eq [OF 3 rd_copy [where i = 0]]) simp_all
  have "?R (wpair ?x [1] 0 W_idle W_idle [[1], [1]] [[1]])"
    by (rule reaches_step_eq [OF 4 rd_clear [where i = 0 and b = "[1]"]]) simp_all
  then show ?thesis by blast
qed

text \<open>While the flag is clear and no reader is past its wait, only a write lets a read end.\<close>

definition no_reader :: "'l wsys \<Rightarrow> bool" where
  "no_reader s \<longleftrightarrow> wcond s = 0 \<and> (\<forall>i. wpc s i \<noteq> R_woken) \<and> (\<forall>i b. wpc s i \<noteq> R_copied b)"

definition stuck_since :: "nat \<Rightarrow> byte list list \<Rightarrow> 'l wsys \<Rightarrow> bool" where
  "stuck_since n g s \<longleftrightarrow> n < length (wrote s) \<or> n = length (wrote s) \<and> no_reader s \<and> got s = g"

lemma stuck_since_step: "wait_step L s t \<Longrightarrow> stuck_since n g s \<Longrightarrow> stuck_since n g t"
  by (induction rule: wait_step.induct) (auto simp: stuck_since_def no_reader_def)

lemma stuck_since_steps:
  assumes "(wait_step L)\<^sup>*\<^sup>* s t" and "no_reader s" and "wrote t = wrote s"
  shows "got t = got s"
proof -
  have "stuck_since (length (wrote s)) (got s) t"
    using assms(1)
  proof (induction rule: rtranclp_induct)
    case base
    then show ?case using assms(2) by (simp add: stuck_since_def)
  next
    case (step y z)
    then show ?case by (auto intro: stuck_since_step)
  qed
  with assms(3) show ?thesis by (simp add: stuck_since_def)
qed

section \<open>Properties\<close>


definition ex13_loaded :: "nat chr_wait" where
  "ex13_loaded = fst (snd (ex13_module_init counting_lock good_kernel (wait_image 0) []))"

lemma ex13_loads: "\<exists>l'. ex13_module_init counting_lock good_kernel (wait_image 0) [] = (0, ex13_loaded, l')"
proof -
  have "fst (ex13_module_init counting_lock good_kernel (wait_image 0) []) = 0"
    by (simp add: ex13_module_init_def init_defs wait_setup_def wait_image_def sem_image_def chr.defs chr_sem.defs)
  then show ?thesis by (metis ex13_loaded_def prod.collapse)
qed




text \<open>A signal does not interrupt a read of \<open>ex12\<close>, it makes it stop waiting: with no write
  pending an interrupted read returns exactly what a read after a write would, never
  \<open>-ERESTARTSYS\<close>, and uses up a later write's flag.\<close>

lemma ex12_interrupted_read:
  assumes "uaccess_ok U" and "ex12_read True U p n s = Ret (r, out, s')"
  shows "ex12_read False U p n (s\<lparr>condition := 1\<rparr>) = Ret (r, out, s') \<and> unat r \<le> 4000 \<and>
    r \<noteq> - ERESTARTSYS \<and> condition s' = 0"
proof -
  have x: "xfer_read U p n (buffer s) (bufmem s) = Ret (r, out)" and s': "s' = s\<lparr>condition := 0\<rparr>"
    using assms(2) by (auto simp: ex12_read_def wait_read_def obind_Ret_iff)
  have len: "unat (xfer_len n) \<le> length (chr_obj s)"
    using x xfer_obj(3) [of s n U p] by (cases "unat (xfer_len n) \<le> length (chr_obj s)") auto
  have r: "r = xfer_len n - fst (copy_to_user U p (take (unat (xfer_len n)) (chr_obj s)))"
    using x xfer_obj(1) [OF len, of U p] by simp
  have "unat r \<le> unat (xfer_len n)"
    using copy_to_user_le [OF assms(1), of p "take (unat (xfer_len n)) (chr_obj s)"] len
    by (simp add: r unat_diff_le)
  then have le: "unat r \<le> 4000" by (simp add: xfer_len_unat)
  then have "r \<noteq> - ERESTARTSYS" by auto
  with x s' le show ?thesis by (simp add: ex12_read_def wait_read_def)
qed

definition ex12_loaded :: "nat chr_wait" where
  "ex12_loaded = (wait_image 1)\<lparr>buffer := 8192, bufmem := [5, 6]\<rparr>"

lemma ex12_interrupted_read_witness:
  "\<exists>s'. ex12_read True sevens 1 2 ex12_loaded = Ret (2, [5, 6], s') \<and> condition s' = 0"
proof -
  have "ex12_read True sevens 1 2 ex12_loaded = Ret (2, [5, 6], ex12_loaded\<lparr>condition := 0\<rparr>)"
    by (simp add: ex12_read_def wait_read_def xfer_read_def xfer_len_def copy_out_def ex12_loaded_def
        get_at_def mapped_uaccess_def obj_check_def Let_def)
  with ex12_interrupted_read [OF mapped_uaccess_ok this] show ?thesis by blast
qed

text \<open>Because of the stray semicolon, \<open>lseek\<close> on \<open>ex14\<close> always moves to byte 4000 and returns
  4000, for every offset, position and origin, also one that is not defined.\<close>

lemma ex14_seek_goes_to_end:
  "ex14_seek uninit f_pos off whence = (4000, 4000)"
  by (simp add: ex14_seek_def Let_def)

end
