(* ===== verification/C_Text.thy ===== *)
theory C_Text
  imports Prelude
begin

text \<open>
  The text conversions of the C library that the drivers use, on byte buffers: \<open>%d\<close> for
  printing and scanning, and \<open>strlen\<close>. A scan or a \<open>strlen\<close> that comes to the end of the
  buffer without a NUL leaves it: that is \<open>None\<close>.
\<close>

definition bytes_of :: "string \<Rightarrow> byte list" where
  "bytes_of s = map of_char s"

section \<open>Printing\<close>

definition digit_char :: "nat \<Rightarrow> byte" where
  "digit_char d = of_nat (48 + d)"

fun dec :: "nat \<Rightarrow> byte list" where
  "dec n = (if n < 10 then [digit_char n] else dec (n div 10) @ [digit_char (n mod 10)])"

declare dec.simps [simp del]

definition dec_int :: "int \<Rightarrow> byte list" where
  "dec_int i = (if i < 0 then 45 # dec (nat (- i)) else dec (nat i))"

section \<open>Scanning\<close>

definition is_digit :: "byte \<Rightarrow> bool" where
  "is_digit b \<longleftrightarrow> 48 \<le> unat b \<and> unat b \<le> 57"

text \<open>\<open>isspace\<close>: blank and the five characters from tab to carriage return.\<close>

definition is_space :: "byte \<Rightarrow> bool" where
  "is_space b \<longleftrightarrow> b = 32 \<or> 9 \<le> unat b \<and> unat b \<le> 13"

definition digit_value :: "byte \<Rightarrow> int" where
  "digit_value b = int (unat b) - 48"

definition digits_value :: "byte list \<Rightarrow> int" where
  "digits_value ds = foldl (\<lambda>a d. 10 * a + digit_value d) 0 ds"

text \<open>
  \<open>%d\<close>: white space, an optional sign, digits. \<open>Some None\<close> is no match; a match yields the
  number and the rest of the text.
\<close>

definition scan_int :: "byte list \<Rightarrow> (int \<times> byte list) option option" where
  "scan_int xs =
     (case dropWhile is_space xs of
        [] \<Rightarrow> None
      | c # cs \<Rightarrow>
          (let ds = (if c = 45 \<or> c = 43 then cs else c # cs);
               digits = takeWhile is_digit ds;
               rest = dropWhile is_digit ds;
               v = digits_value digits
           in if digits = [] then (if ds = [] then None else Some None)
              else if rest = [] then None
              else Some (Some (if c = 45 then - v else v, rest))))"

definition c_strlen :: "byte list \<Rightarrow> nat option" where
  "c_strlen xs = (let n = length (takeWhile (\<lambda>b. b \<noteq> 0) xs) in if n = length xs then None else Some n)"

section \<open>Scanning what was printed\<close>

lemma unat_digit: "d < 10 \<Longrightarrow> unat (digit_char d) = 48 + d"
  unfolding digit_char_def by (subst unat_of_nat) simp

lemma digit_value_char: "d < 10 \<Longrightarrow> digit_value (digit_char d) = int d"
  by (simp only: digit_value_def unat_digit)

lemma is_digit_digit: "d < 10 \<Longrightarrow> is_digit (digit_char d)"
  unfolding is_digit_def by (simp add: unat_digit)

lemma dec_digits: "\<forall>b \<in> set (dec n). is_digit b"
proof (induction n rule: dec.induct)
  case (1 n)
  show ?case
  proof (cases "n < 10")
    case True
    then show ?thesis using is_digit_digit [of n] by (simp add: dec.simps [of n])
  next
    case False
    then show ?thesis using 1 is_digit_digit [of "n mod 10"] by (simp add: dec.simps [of n])
  qed
qed

lemma dec_not_Nil [simp]: "dec n \<noteq> []"
  by (simp add: dec.simps [of n])

lemma digits_value_snoc: "digits_value (ds @ [d]) = 10 * digits_value ds + digit_value d"
  by (simp add: digits_value_def)

lemma digits_value_dec: "digits_value (dec n) = int n"
proof (induction n rule: dec.induct)
  case (1 n)
  show ?case
  proof (cases "n < 10")
    case True
    then show ?thesis by (simp add: dec.simps [of n] digits_value_def digit_value_char)
  next
    case False
    with 1 have "digits_value (dec n) = 10 * int (n div 10) + int (n mod 10)"
      by (simp add: dec.simps [of n] digits_value_snoc digit_value_char)
    also have "\<dots> = int n" by presburger
    finally show ?thesis .
  qed
qed

lemma length_dec: "n < 10 ^ Suc k \<Longrightarrow> length (dec n) \<le> Suc k"
proof (induction k arbitrary: n)
  case 0
  then show ?case by (simp add: dec.simps [of n])
next
  case (Suc k)
  show ?case
  proof (cases "n < 10")
    case True
    then show ?thesis by (simp add: dec.simps [of n])
  next
    case False
    have "n div 10 < 10 ^ Suc k" using Suc.prems by (simp add: less_mult_imp_div_less)
    then show ?thesis using Suc.IH False by (simp add: dec.simps [of n])
  qed
qed

lemma length_dec_c_int: "length (dec_int (sint (i :: c_int))) \<le> 11"
proof -
  have "- (2 ^ 31) \<le> sint i" "sint i < 2 ^ 31"
    using sint_greater_eq [of i] sint_lt [of i] by simp_all
  then have "nat (sint i) < 10 ^ Suc 9" "nat (- sint i) < 10 ^ Suc 9" by simp_all
  from this [THEN length_dec] show ?thesis by (simp add: dec_int_def)
qed

lemma digit_not: "is_digit b \<Longrightarrow> \<not> is_space b \<and> b \<noteq> 45 \<and> b \<noteq> 43 \<and> b \<noteq> 0"
  by (auto simp: is_digit_def is_space_def)

lemma takeWhile_digits:
  "\<forall>b \<in> set ds. is_digit b \<Longrightarrow> \<not> is_digit c \<Longrightarrow>
   takeWhile is_digit (ds @ c # xs) = ds \<and> dropWhile is_digit (ds @ c # xs) = c # xs"
  by (induction ds) auto

text \<open>After white space, a printed number scans to itself and the scan stops at what follows.\<close>

lemma scan_dec_int:
  assumes "\<not> is_digit c"
  shows "scan_int (dec_int i @ c # xs) = Some (Some (i, c # xs))"
    and "scan_int (32 # dec_int i @ c # xs) = Some (Some (i, c # xs))"
proof -
  have sp: "is_space 32" by (simp add: is_space_def)
  have "scan_int (dec_int i @ c # xs) = Some (Some (i, c # xs))"
  proof (cases "i < 0")
    case True
    have "\<not> is_space 45" by (simp add: is_space_def)
    then show ?thesis
      using True takeWhile_digits [OF dec_digits assms, of "nat (- i)" xs]
      by (simp add: scan_int_def dec_int_def Let_def digits_value_dec)
  next
    case False
    obtain b bs where d: "dec (nat i) = b # bs" by (cases "dec (nat i)") auto
    then have "is_digit b" using dec_digits [of "nat i"] by simp
    then have b: "\<not> is_space b" "b \<noteq> 45" "b \<noteq> 43" using digit_not by auto
    have drop: "dropWhile is_space (dec (nat i) @ c # xs) = b # bs @ c # xs"
      using b by (simp add: d)
    have "takeWhile is_digit (b # bs @ c # xs) = dec (nat i)" "dropWhile is_digit (b # bs @ c # xs) = c # xs"
      using takeWhile_digits [OF dec_digits assms, of "nat i" xs] by (simp_all only: d append_Cons)
    then show ?thesis
      using False b
      by (simp add: scan_int_def dec_int_def Let_def drop digits_value_dec del: takeWhile.simps dropWhile.simps)
  qed
  moreover have "scan_int (32 # ys) = scan_int ys" for ys
    by (simp add: scan_int_def sp)
  ultimately show "scan_int (dec_int i @ c # xs) = Some (Some (i, c # xs))"
    and "scan_int (32 # dec_int i @ c # xs) = Some (Some (i, c # xs))"
    by simp_all
qed

lemma dec_int_nonzero: "\<forall>b \<in> set (dec_int i). b \<noteq> 0"
  using dec_digits digit_not by (auto simp: dec_int_def)

lemma c_strlen_terminated: "\<forall>b \<in> set xs. b \<noteq> 0 \<Longrightarrow> c_strlen (xs @ 0 # ys) = Some (length xs)"
  by (simp add: c_strlen_def takeWhile_tail Let_def)

end
