(* ===== verification/Proc_Entry.thy ===== *)
theory Proc_Entry
  imports Module_Lifecycle C_Text
begin

text \<open>
  The two proc entries of day 3: \<open>ex5.c\<close>, whose write parses two numbers and whose read
  prints them, and \<open>ex6.c\<close>, a sequence file over one counter. The buffer on the stack of
  \<open>ex5\<close> holds whatever was there before: its first contents are an argument.
\<close>

section \<open>ex5.c\<close>

definition BUFSIZE :: nat where "BUFSIZE = 100"

record proc5 =
  irq :: c_int
  mode :: c_int
  ent :: ptr

definition proc5_image :: proc5 where
  "proc5_image = \<lparr>irq = 20, mode = 1, ent = 0\<rparr>"

text \<open>
  \<open>sscanf(buf,"%d %d",&i,&m)\<close>: the numbers it stored. The blank of the format and the
  second \<open>%d\<close> skip the same white space. \<open>None\<close> is a scan that leaves the buffer.
\<close>

definition sscanf_d_d :: "byte list \<Rightarrow> int list option" where
  "sscanf_d_d buf =
     (case scan_int buf of
        None \<Rightarrow> None
      | Some None \<Rightarrow> Some []
      | Some (Some (i, rest)) \<Rightarrow>
          (case scan_int rest of
             None \<Rightarrow> None
           | Some None \<Rightarrow> Some [i]
           | Some (Some (m, _)) \<Rightarrow> Some [i, m]))"

text \<open>The result of a call, the new \<open>*ppos\<close> and the new globals.\<close>

definition mywrite ::
    "uaccess \<Rightarrow> ptr \<Rightarrow> size_t \<Rightarrow> loff_t \<Rightarrow> byte list \<Rightarrow> proc5 \<Rightarrow> (ssize_t \<times> loff_t \<times> proc5) outcome" where
  "mywrite U ubuf cnt ppos stack s =
     (if 0 < sint ppos \<or> of_nat BUFSIZE < cnt then Ret (- EFAULT, ppos, s)
      else let (left, bytes) = copy_from_user U ubuf cnt;
               buf = put_at 0 bytes stack
           in if left \<noteq> 0 then Ret (- EFAULT, ppos, s)
              else case sscanf_d_d buf of
                     None \<Rightarrow> Fault OutOfBounds
                   | Some [i, m] \<Rightarrow>
                       (let s = s\<lparr>irq := of_int i, mode := of_int m\<rparr>
                        in case c_strlen buf of
                             None \<Rightarrow> Fault OutOfBounds
                           | Some c \<Rightarrow> Ret (of_nat c, of_nat c, s))
                   | Some _ \<Rightarrow> Ret (- EFAULT, ppos, s))"

definition myread_text :: "proc5 \<Rightarrow> byte list" where
  "myread_text s =
     bytes_of ''irq = '' @ dec_int (sint (irq s)) @ bytes_of ''\<newline>'' @
     bytes_of ''mode = '' @ dec_int (sint (mode s)) @ bytes_of ''\<newline>''"

text \<open>The two \<open>sprintf\<close> also store a NUL: a text of 100 bytes or more overruns \<open>buf\<close>.\<close>

definition myread ::
    "uaccess \<Rightarrow> ptr \<Rightarrow> size_t \<Rightarrow> loff_t \<Rightarrow> proc5 \<Rightarrow> (ssize_t \<times> byte list \<times> loff_t \<times> proc5) outcome" where
  "myread U ubuf cnt ppos s =
     (if 0 < sint ppos \<or> cnt < of_nat BUFSIZE then Ret (0, [], ppos, s)
      else let buf = myread_text s; len = length buf
           in if BUFSIZE \<le> len then Fault OutOfBounds
              else let (left, out) = copy_to_user U ubuf buf
                   in if left \<noteq> 0 then Ret (- EFAULT, out, ppos, s)
                      else Ret (of_nat len, out, of_nat len, s))"

definition ex5_init :: "kernel \<Rightarrow> proc5 \<Rightarrow> klog \<Rightarrow> c_int \<times> proc5 \<times> klog" where
  "ex5_init K s l =
     (let p = proc_create K l ''mydev'' 0x1B6 in (0, s\<lparr>ent := p\<rparr>, l @ [Dev (Proc_create ''mydev'' 0x1B6 p)]))"

definition ex5_cleanup :: "proc5 \<Rightarrow> klog \<Rightarrow> proc5 \<times> klog" where
  "ex5_cleanup s l = (s, l @ [Dev (Proc_remove (ent s))])"

section \<open>ex6.c\<close>

record seq6 =
  counter :: c_ulong
  seq_ent :: ptr

text \<open>\<open>start\<close> yields whether it returned \<open>&counter\<close>, and the new \<open>*pos\<close>.\<close>

definition my_seq_start :: "loff_t \<Rightarrow> bool \<times> loff_t" where
  "my_seq_start pos = (if pos = 0 then (True, pos) else (False, 0))"

text \<open>\<open>next\<close> always returns NULL; it counts through the pointer it is given.\<close>

definition my_seq_next :: "seq6 \<Rightarrow> loff_t \<Rightarrow> bool \<times> loff_t \<times> seq6" where
  "my_seq_next s pos = (False, pos + 1, s\<lparr>counter := counter s + 1\<rparr>)"

definition my_seq_stop :: "seq6 \<Rightarrow> seq6" where
  "my_seq_stop s = s"

text \<open>\<open>show\<close> reads the counter as a \<open>loff_t\<close>.\<close>

definition my_seq_show :: "seq6 \<Rightarrow> byte list" where
  "my_seq_show s = dec_int (sint (counter s)) @ bytes_of ''\<newline>''"

text \<open>The table of the four functions, and what opening the entry does with it.\<close>

record 's seq_operations =
  op_start :: "loff_t \<Rightarrow> bool \<times> loff_t"
  op_next :: "'s \<Rightarrow> loff_t \<Rightarrow> bool \<times> loff_t \<times> 's"
  op_stop :: "'s \<Rightarrow> 's"
  op_show :: "'s \<Rightarrow> byte list"

definition my_seq_ops :: "seq6 seq_operations" where
  "my_seq_ops = \<lparr>op_start = my_seq_start, op_next = my_seq_next, op_stop = my_seq_stop, op_show = my_seq_show\<rparr>"

definition my_open :: "(seq6 seq_operations \<Rightarrow> c_int) \<Rightarrow> c_int" where
  "my_open seq_open = seq_open my_seq_ops"

text \<open>
  One traversal as \<open>seq_read\<close> makes it with any table (\<open>Documentation/filesystems/seq_file.txt\<close>):
  \<open>start\<close>, then \<open>show\<close> and \<open>next\<close> while there is an element, then \<open>stop\<close>. \<open>None\<close> is a
  traversal that never ends.
\<close>

partial_function (option) seq_elements ::
    "'s seq_operations \<Rightarrow> loff_t \<Rightarrow> 's \<Rightarrow> (byte list \<times> loff_t \<times> 's) option" where
  "seq_elements T pos s =
     (case op_next T s pos of (again, pos, s') \<Rightarrow>
        if again then Option.bind (seq_elements T pos s') (\<lambda>(out, pos, s''). Some (op_show T s @ out, pos, s''))
        else Some (op_show T s, pos, s'))"

definition seq_traverse :: "'s seq_operations \<Rightarrow> loff_t \<Rightarrow> 's \<Rightarrow> (byte list \<times> loff_t \<times> 's) option" where
  "seq_traverse T pos s =
     (case op_start T pos of
        (False, pos) \<Rightarrow> Some ([], pos, op_stop T s)
      | (True, pos) \<Rightarrow> map_option (\<lambda>(out, pos, s). (out, pos, op_stop T s)) (seq_elements T pos s))"

text \<open>With this table \<open>next\<close> never yields an element, so there is at most one turn.\<close>

definition traverse :: "loff_t \<Rightarrow> seq6 \<Rightarrow> byte list \<times> loff_t \<times> seq6" where
  "traverse pos s =
     (case my_seq_start pos of
        (False, pos) \<Rightarrow> ([], pos, my_seq_stop s)
      | (True, pos) \<Rightarrow>
          (let out = my_seq_show s; (more, pos, s) = my_seq_next s pos in (out, pos, my_seq_stop s)))"

fun traversals :: "nat \<Rightarrow> loff_t \<Rightarrow> seq6 \<Rightarrow> byte list list \<times> loff_t \<times> seq6" where
  "traversals 0 pos s = ([], pos, s)"
| "traversals (Suc n) pos s =
     (let (out, pos, s) = traverse pos s; (outs, pos, s) = traversals n pos s in (out # outs, pos, s))"

definition ex6_init :: "kernel \<Rightarrow> seq6 \<Rightarrow> klog \<Rightarrow> c_int \<times> seq6 \<times> klog" where
  "ex6_init K s l =
     (let p = proc_create K l ''mydev'' 0x1B6 in (0, s\<lparr>seq_ent := p\<rparr>, l @ [Dev (Proc_create ''mydev'' 0x1B6 p)]))"

definition ex6_cleanup :: "seq6 \<Rightarrow> klog \<Rightarrow> seq6 \<times> klog" where
  "ex6_cleanup s l = (s, l @ [Dev (Proc_remove (seq_ent s))])"

section \<open>Loading and unloading\<close>

definition entry_at :: "ptr \<Rightarrow> resource multiset" where
  "entry_at p = (if p = 0 then {#} else {#Proc_entry p#})"

interpretation ex5_mod: loadable_module ex5_init ex5_cleanup "\<lambda>s. entry_at (ent s)"
  by unfold_locales (auto simp: ex5_init_def ex5_cleanup_def entry_at_def Let_def effect_simps split: if_splits)

interpretation ex6_mod: loadable_module ex6_init ex6_cleanup "\<lambda>s. entry_at (seq_ent s)"
  by unfold_locales (auto simp: ex6_init_def ex6_cleanup_def entry_at_def Let_def effect_simps split: if_splits)

section \<open>The text of ex5\<close>

lemma myread_text_fits: "length (myread_text s) < BUFSIZE"
  using length_dec_c_int [of "irq s"] length_dec_c_int [of "mode s"]
  by (simp add: myread_text_def bytes_of_def BUFSIZE_def)

text \<open>What a user writes for two numbers, without a terminator.\<close>

definition numbers_text :: "int \<Rightarrow> int \<Rightarrow> byte list" where
  "numbers_text i m = dec_int i @ 32 # dec_int m"

lemma not_digit_0_32: "\<not> is_digit 0" "\<not> is_digit 32"
  by (simp_all add: is_digit_def)

lemma sscanf_numbers: "\<not> is_digit c \<Longrightarrow> sscanf_d_d (numbers_text i m @ c # xs) = Some [i, m]"
  using scan_dec_int(1) [OF not_digit_0_32(2), of i "dec_int m @ c # xs"] scan_dec_int(2) [of c m xs]
  by (simp add: sscanf_d_d_def numbers_text_def)

lemma strlen_numbers: "c_strlen (numbers_text i m @ 0 # xs) = Some (length (numbers_text i m))"
  using dec_int_nonzero by (intro c_strlen_terminated) (auto simp: numbers_text_def)

lemma put_at_0: "length bs \<le> length xs \<Longrightarrow> put_at 0 bs xs = bs @ drop (length bs) xs"
  by (simp add: put_at_def)

text \<open>A write whose text ends inside the buffer, in the user's bytes or in the stack after them.\<close>

lemma mywrite_numbers:
  assumes "uaccess_ok U" and "\<not> 0 < sint ppos" and "unat cnt \<le> BUFSIZE" and "fst (copy_from_user U p cnt) = 0"
    and "user_bytes U p (unat cnt) @ drop (unat cnt) stack = numbers_text i m @ 0 # tail"
    and "length stack = BUFSIZE"
  shows "mywrite U p cnt ppos stack s =
    Ret (of_nat (length (numbers_text i m)), of_nat (length (numbers_text i m)), s\<lparr>irq := of_int i, mode := of_int m\<rparr>)"
proof -
  have c: "\<not> of_nat BUFSIZE < cnt" using assms(3) by (simp add: word_less_nat_alt BUFSIZE_def)
  have "snd (copy_from_user U p cnt) = user_bytes U p (unat cnt)"
    using copy_from_user_data [OF assms(1), of p cnt] assms(4) by simp
  then have buf: "put_at 0 (snd (copy_from_user U p cnt)) stack = numbers_text i m @ 0 # tail"
    using assms(3,5,6) by (simp add: put_at_0)
  show ?thesis
    using assms(2,4) c sscanf_numbers [OF not_digit_0_32(1), of i m tail] strlen_numbers [of i m tail]
    by (simp add: mywrite_def case_prod_unfold buf)
qed

section \<open>Properties\<close>

text \<open>C29: what is written to the proc entry can be read back: a write of the decimal text of two
  numbers with its NUL stores the two numbers and reports the length of the text, and the
  next complete read prints them.\<close>

theorem ex5_numbers_roundtrip:
  assumes "uaccess_ok U" and "uaccess_ok U'" and "fst (copy_from_user U p cnt) = 0" and "unat cnt \<le> BUFSIZE"
    and "user_bytes U p (unat cnt) = numbers_text (sint i) (sint m) @ 0 # tail" and "length stack = BUFSIZE"
    and "BUFSIZE \<le> unat cnt'" and "\<forall>bs. fst (copy_to_user U' q bs) = 0"
  shows "\<exists>s' len text. mywrite U p cnt 0 stack s =
      Ret (of_nat (length (numbers_text (sint i) (sint m))), of_nat (length (numbers_text (sint i) (sint m))), s') \<and>
    irq s' = i \<and> mode s' = m \<and>
    text = bytes_of ''irq = '' @ dec_int (sint i) @ bytes_of ''\<newline>'' @ bytes_of ''mode = '' @ dec_int (sint m) @ bytes_of ''\<newline>'' \<and>
    myread U' q cnt' 0 s' = Ret (of_nat (length text), text, of_nat (length text), s')"
proof -
  let ?s = "s\<lparr>irq := i, mode := m\<rparr>"
  have w: "mywrite U p cnt 0 stack s =
      Ret (of_nat (length (numbers_text (sint i) (sint m))), of_nat (length (numbers_text (sint i) (sint m))), ?s)"
    using mywrite_numbers [OF assms(1) _ assms(4,3) _ assms(6), of 0 "sint i" "sint m" "tail @ drop (unat cnt) stack" s]
      assms(5) by simp
  have c: "\<not> cnt' < of_nat BUFSIZE" using assms(7) by (simp add: word_less_nat_alt BUFSIZE_def)
  have out: "copy_to_user U' q bs = (0, bs)" for bs
    using copy_to_user_data [OF assms(2), of q bs] assms(8) by (simp add: prod_eq_iff)
  have "myread U' q cnt' 0 ?s = Ret (of_nat (length (myread_text ?s)), myread_text ?s, of_nat (length (myread_text ?s)), ?s)"
    using c myread_text_fits [of ?s] by (simp add: myread_def out Let_def)
  with w show ?thesis by (auto simp: myread_text_def)
qed

text \<open>A user space that holds one text at address 1000 and zeros elsewhere.\<close>

definition text_user :: "byte list \<Rightarrow> uaccess" where
  "text_user t = mapped_uaccess (\<lambda>a. if unat (a - 1000) < length t then t ! unat (a - 1000) else 0)"

lemma text_user_bytes:
  assumes "n = length t" and "n < 2 ^ 64"
  shows "user_bytes (text_user t) 1000 n = t"
proof (rule nth_equalityI)
  fix k
  assume "k < length (user_bytes (text_user t) 1000 n)"
  then have k: "k < n" by simp
  then have "unat (of_nat k :: ptr) = k" using assms(2) by (subst unat_of_nat) simp
  with k assms(1) show "user_bytes (text_user t) 1000 n ! k = t ! k"
    by (simp add: user_bytes_def text_user_def mapped_uaccess_def)
qed (simp add: assms(1))

lemma text_user_ok: "uaccess_ok (text_user t)"
  by (simp add: text_user_def mapped_uaccess_ok)

lemma text_user_copies: "fst (copy_from_user (text_user t) p n) = 0" "fst (copy_to_user (text_user t) p bs) = 0"
  by (simp_all add: text_user_def mapped_uaccess_def)

lemma digits_7_25: "numbers_text 7 25 = [55, 32, 50, 53]"
  by (simp add: numbers_text_def dec_int_def dec.simps digit_char_def)

theorem ex5_numbers_roundtrip_witness:
  "\<exists>s'. mywrite (text_user [55, 32, 50, 53, 0]) 1000 5 0 (replicate BUFSIZE 0) proc5_image = Ret (4, 4, s') \<and>
     irq s' = 7 \<and> mode s' = 25"
  using ex5_numbers_roundtrip [OF text_user_ok text_user_ok text_user_copies(1), of 5 "[55, 32, 50, 53, 0]" 1000 7 25 "[]"
      "replicate BUFSIZE 0" 100 "[]" 0 proc5_image] text_user_bytes [of 5 "[55, 32, 50, 53, 0]"]
  by (auto simp: digits_7_25 text_user_copies BUFSIZE_def)

text \<open>Without the NUL, as \<open>echo\<close> writes, the scan runs on into the stack: when the byte
  that happens to follow is a digit, the second number stored is ten times the one written
  plus that digit, and the call reports one byte more than it was given.\<close>

lemma ex5_scans_stack:
  assumes "uaccess_ok U" and "fst (copy_from_user U p cnt) = 0" and "unat cnt < BUFSIZE - 1"
    and "user_bytes U p (unat cnt) = numbers_text i m" and "0 < m" and "d < 10"
    and "length stack = BUFSIZE" and "stack ! unat cnt = digit_char d" and "stack ! Suc (unat cnt) = 0"
  shows "mywrite U p cnt 0 stack s =
    Ret (of_nat (Suc (unat cnt)), of_nat (Suc (unat cnt)), s\<lparr>irq := of_int i, mode := of_int (10 * m + int d)\<rparr>)"
proof -
  have "nat (10 * m + int d) = 10 * nat m + d" using assms(5) by (simp add: nat_add_distrib nat_mult_distrib)
  then have "dec (nat (10 * m + int d)) = dec (nat m) @ [digit_char d]"
    using assms(5,6) by (simp add: dec.simps [of "10 * nat m + d"])
  then have longer: "numbers_text i (10 * m + int d) = numbers_text i m @ [digit_char d]"
    using assms(5) by (simp add: numbers_text_def dec_int_def)
  have len: "length (numbers_text i m) = unat cnt" by (metis assms(4) length_user_bytes)
  have "drop (unat cnt) stack = digit_char d # 0 # drop (Suc (Suc (unat cnt))) stack"
    using assms(3,7-9) by (simp add: Cons_nth_drop_Suc [symmetric])
  then have "user_bytes U p (unat cnt) @ drop (unat cnt) stack =
      numbers_text i (10 * m + int d) @ 0 # drop (Suc (Suc (unat cnt))) stack"
    by (simp add: assms(4) longer)
  from mywrite_numbers [OF assms(1) _ _ assms(2) this assms(7), of 0 s] assms(3) show ?thesis
    by (simp add: longer len)
qed

lemma ex5_scans_stack_witness:
  "mywrite (text_user [55, 32, 50, 53]) 1000 4 0 (replicate 4 0 @ 57 # replicate 95 0) proc5_image =
     Ret (5, 5, proc5_image\<lparr>irq := 7, mode := 259\<rparr>)"
  using ex5_scans_stack [OF text_user_ok text_user_copies(1), of 4 "[55, 32, 50, 53]" 1000 7 25 9
      "replicate 4 0 @ 57 # replicate 95 0" proc5_image] text_user_bytes [of 4 "[55, 32, 50, 53]"]
  by (simp add: digits_7_25 BUFSIZE_def digit_char_def nth_append)

lemma seq_traverse_ends: "seq_traverse my_seq_ops pos s = Some (traverse pos s)"
  by (simp add: seq_traverse_def traverse_def my_seq_ops_def my_seq_next_def seq_elements.simps my_seq_start_def)

lemma traverse_0: "traverse 0 s = (my_seq_show s, 1, s\<lparr>counter := counter s + 1\<rparr>)"
  by (simp add: traverse_def my_seq_start_def my_seq_next_def my_seq_stop_def)

lemma traverse_1: "traverse 1 s = ([], 0, s)"
  by (simp add: traverse_def my_seq_start_def my_seq_stop_def)

text \<open>The line for a counter value.\<close>

definition counter_line :: "c_ulong \<Rightarrow> byte list" where
  "counter_line c = dec_int (sint c) @ bytes_of ''\<newline>''"

text \<open>Reading \<open>ex6\<close> again and again counts: of \<open>2n\<close> traversals from position 0 each odd one
  shows one line, the counter, and each even one is the end of the sequence; the counter
  has then gone up by \<open>n\<close> and the position is 0 again.\<close>

lemma ex6_counts_traversals:
  "traversals (2 * n) 0 s =
    (concat (map (\<lambda>k. [counter_line (counter s + of_nat k), []]) [0..<n]), 0, s\<lparr>counter := counter s + of_nat n\<rparr>)"
proof (induction n arbitrary: s)
  case 0
  then show ?case by simp
next
  case (Suc n)
  have "traversals (2 * Suc n) 0 s =
      (let (outs, pos, t) = traversals (2 * n) 0 (s\<lparr>counter := counter s + 1\<rparr>) in (my_seq_show s # [] # outs, pos, t))"
    by (simp add: traverse_0 traverse_1 Let_def split: prod.splits)
  also have "\<dots> = (concat (map (\<lambda>k. [counter_line (counter s + of_nat k), []]) [0..<Suc n]), 0,
      s\<lparr>counter := counter s + of_nat (Suc n)\<rparr>)"
    unfolding Suc.IH
    by (simp add: my_seq_show_def counter_line_def upt_conv_Cons map_Suc_upt [symmetric] o_def ac_simps
        del: upt_Suc map_Suc_upt)
  finally show ?case .
qed


section \<open>Many files on ex6\<close>

text \<open>
  Reads through any number of open files: the position belongs to the file, the counter to
  the module. \<open>None\<close> would be a traversal that never ends.
\<close>

fun file_reads :: "nat list \<Rightarrow> (nat \<Rightarrow> loff_t) \<Rightarrow> seq6 \<Rightarrow> (byte list list \<times> seq6) option" where
  "file_reads [] pos s = Some ([], s)"
| "file_reads (f # fs) pos s =
     Option.bind (seq_traverse my_seq_ops (pos f) s) (\<lambda>(out, p, s).
       map_option (\<lambda>(outs, s). (out # outs, s)) (file_reads fs (pos(f := p)) s))"

text \<open>
  The read with index \<open>i\<close> shows a line when its file, not at its end at first, was read an
  even number of times before.
\<close>

definition shows_line :: "(nat \<Rightarrow> bool) \<Rightarrow> nat list \<Rightarrow> nat \<Rightarrow> bool" where
  "shows_line at_end fs i \<longleftrightarrow> even (count_list (take i fs) (fs ! i)) \<noteq> at_end (fs ! i)"

definition lines_before :: "(nat \<Rightarrow> bool) \<Rightarrow> nat list \<Rightarrow> nat \<Rightarrow> nat" where
  "lines_before at_end fs i = length (filter (shows_line at_end fs) [0..<i])"

lemma shows_line_Cons:
  "shows_line E (f # fs) 0 = (\<not> E f)"
  "shows_line E (f # fs) (Suc i) = shows_line (E(f := \<not> E f)) fs i"
  by (auto simp: shows_line_def)

lemma lines_before_Cons:
  "lines_before E fs 0 = 0"
  "lines_before E (f # fs) (Suc i) = (if E f then 0 else 1) + lines_before (E(f := \<not> E f)) fs i"
proof -
  have "filter (shows_line E (f # fs)) [0..<Suc i] =
      (if E f then [] else [0]) @ map Suc (filter (shows_line (E(f := \<not> E f)) fs) [0..<i])"
    by (simp add: upt_conv_Cons map_Suc_upt [symmetric] filter_map o_def shows_line_Cons del: upt_Suc map_Suc_upt)
  then show "lines_before E (f # fs) (Suc i) = (if E f then 0 else 1) + lines_before (E(f := \<not> E f)) fs i"
    by (simp add: lines_before_def del: upt_Suc)
qed (simp add: lines_before_def)

lemma file_reads_from:
  assumes "\<And>f. pos f = (if E f then 1 else 0)"
  shows "file_reads fs pos s =
    Some (map (\<lambda>i. if shows_line E fs i then counter_line (counter s + of_nat (lines_before E fs i)) else []) [0..<length fs],
      s\<lparr>counter := counter s + of_nat (lines_before E fs (length fs))\<rparr>)"
  using assms
proof (induction fs arbitrary: E pos s)
  case Nil
  then show ?case by (simp add: lines_before_Cons)
next
  case (Cons f fs)
  let ?E = "E(f := \<not> E f)"
  obtain out t where t: "traverse (pos f) s = (out, if E f then 0 else 1, t)"
    and out: "out = (if E f then [] else counter_line (counter s))"
    and c: "t = s\<lparr>counter := counter s + (if E f then 0 else 1)\<rparr>"
    using Cons.prems [of f] by (auto simp: traverse_0 traverse_1 my_seq_show_def counter_line_def)
  have "(pos(f := if E f then 0 else 1)) g = (if ?E g then 1 else 0)" for g using Cons.prems [of g] by simp
  note IH = Cons.IH [where E = ?E and s = t, OF this]
  have upt: "[0..<length (f # fs)] = 0 # map Suc [0..<length fs]"
    by (simp add: upt_conv_Cons map_Suc_upt del: upt_Suc)
  have "file_reads (f # fs) pos s =
      map_option (\<lambda>(outs, s). (out # outs, s)) (file_reads fs (pos(f := if E f then 0 else 1)) t)"
    by (simp add: seq_traverse_ends t)
  then show ?case
    unfolding IH upt by (simp add: out c shows_line_Cons lines_before_Cons ac_simps)
qed


end
