(* ===== verification/Adc_Driver.thy ===== *)
theory Adc_Driver
  imports Char_Locks C_Text
begin

text \<open>
  The ADC driver of \<open>day_14/ex31.c\<close>. The hardware is a parameter: \<open>con k\<close> is what the
  \<open>k\<close>-th read of the control register yields, \<open>dat\<close> the data register. A call that loops
  for ever has its own outcome, with the state in which it does so.
\<close>

section \<open>State\<close>

record 'l adc = "'l chr_sem" +
  adc_virtual_address :: ptr
  written :: "(ptr \<times> c_uint) list"

definition adc_image :: "'l \<Rightarrow> 'l adc" where
  "adc_image x = chr_sem.extend (sem_image x) \<lparr>adc_virtual_address = 0, written = []\<rparr>"

definition ADC_BASE_ADDRESS :: c_ulong where "ADC_BASE_ADDRESS = 0x58000000"
definition ADC_ADDRESS_LEN :: c_ulong where "ADC_ADDRESS_LEN = 0x20"
definition ADCCON :: ptr where "ADCCON = 0"
definition ADC_CON_EN_START :: c_uint where "ADC_CON_EN_START = 1"

definition ADC_CON_SELMUX :: "c_uint \<Rightarrow> c_uint" where
  "ADC_CON_SELMUX x = push_bit 3 (x AND 7)"

datatype 'a progress = Returns 'a | Sleeps | Spins 'a | Crashes fault

section \<open>Operations\<close>

definition adc_open :: "'l adc \<Rightarrow> c_int \<times> 'l adc" where "adc_open s = (0, s)"
definition adc_release :: "'l adc \<Rightarrow> c_int \<times> 'l adc" where "adc_release s = (0, s)"

text \<open>
  \<open>while((readl(adc_virtual_address + ADCCON) & (1<<15)) !=1);\<close> from the \<open>k\<close>-th read on:
  the number of the read that ends it, \<open>None\<close> when none does.
\<close>

partial_function (option) adc_wait :: "(nat \<Rightarrow> c_uint) \<Rightarrow> nat \<Rightarrow> nat option" where
  "adc_wait con k = (if con k AND push_bit 15 1 \<noteq> 1 then adc_wait con (Suc k) else Some k)"

text \<open>What follows the loop: print the value, hand it out, release the semaphore.\<close>

definition adc_finish ::
    "'l lockops \<Rightarrow> c_uint \<Rightarrow> uaccess \<Rightarrow> ptr \<Rightarrow> size_t \<Rightarrow> 'l adc \<Rightarrow> (ssize_t \<times> byte list \<times> 'l adc) progress" where
  "adc_finish L dat U user_ptr cnt s =
     (let adc_value = dat AND 0x3FF;
          text = bytes_of ''adc value='' @ dec_int (sint adc_value) @ bytes_of ''\<newline>''
      in case obj_check (buffer s) (bufmem s) 0 (length text + 1) of
           Some f \<Rightarrow> Crashes f
         | None \<Rightarrow>
             (let s = s\<lparr>bufmem := put_at 0 (text @ [0]) (bufmem s)\<rparr>;
                  (ret_len, out) = copy_to_user U user_ptr text
              in Returns (of_nat (length text) - ret_len, out, s\<lparr>sem := lk_release L (sem s)\<rparr>)))"

text \<open>\<open>intr\<close>: a signal interrupts the wait for the semaphore.\<close>

definition adc_read ::
    "'l lockops \<Rightarrow> (nat \<Rightarrow> c_uint) \<Rightarrow> c_uint \<Rightarrow> bool \<Rightarrow> uaccess \<Rightarrow> ptr \<Rightarrow> size_t \<Rightarrow> 'l adc \<Rightarrow>
      (ssize_t \<times> byte list \<times> 'l adc) progress" where
  "adc_read L con dat intr U user_ptr cnt s =
     (case lk_acquire L (sem s) of
        None \<Rightarrow> if intr then Returns (- ERESTARTSYS, [], s) else Sleeps
      | Some x \<Rightarrow>
          (let s = s\<lparr>sem := x\<rparr>;
               adc_control_value = ADC_CON_SELMUX 1 OR ADC_CON_EN_START;
               s = s\<lparr>written := written s @ [(adc_virtual_address s + ADCCON, adc_control_value)]\<rparr>
           in case adc_wait con 0 of
                None \<Rightarrow> Spins (0, [], s)
              | Some k \<Rightarrow> adc_finish L dat U user_ptr cnt s))"

section \<open>Init and exit\<close>

text \<open>\<open>sema_init\<close> and \<open>ioremap\<close> after the part that all character drivers share; \<open>fail3\<close> is \<open>fail2\<close>.\<close>

definition adc_setup :: "'l lockops \<Rightarrow> kernel \<Rightarrow> 'l adc \<Rightarrow> klog \<Rightarrow> c_int \<times> 'l adc \<times> klog" where
  "adc_setup L K s l =
     (let s = s\<lparr>sem := lk_init L\<rparr>;
          l = l @ [Sync (Sema_init 1)];
          v = ioremap K l ADC_BASE_ADDRESS ADC_ADDRESS_LEN;
          s = s\<lparr>adc_virtual_address := v\<rparr>;
          l = l @ [Mem (Ioremap ADC_BASE_ADDRESS ADC_ADDRESS_LEN v)]
      in if v = 0 then fail2 s l else (0, s, l))"

definition adc_drv_module_init :: "'l lockops \<Rightarrow> kernel \<Rightarrow> 'l adc \<Rightarrow> klog \<Rightarrow> c_int \<times> 'l adc \<times> klog" where
  "adc_drv_module_init L K = dynamic_init (adc_setup L K) K"

definition adc_drv_module_exit :: "'l adc \<Rightarrow> klog \<Rightarrow> 'l adc \<times> klog" where
  "adc_drv_module_exit s l = chr_exit s (l @ [Mem (Iounmap (adc_virtual_address s))])"

section \<open>The polling loop\<close>

text \<open>The masked value is 0 or \<open>1 << 15\<close>, never 1.\<close>

lemma adc_done_bit: "w AND 32768 \<noteq> 1" for w :: c_uint
proof
  assume "w AND 32768 = 1"
  then have "bit (w AND 32768) 0 = bit (1 :: c_uint) 0" by simp
  then show False by (simp add: bit_simps)
qed

lemma adc_wait_None: "adc_wait con k = None"
proof -
  have "adc_wait con k = Some n \<Longrightarrow> False" for n
    by (rule adc_wait.raw_induct [where P = "\<lambda>con k n. False"]) (auto simp: adc_done_bit)
  then show ?thesis by (cases "adc_wait con k") auto
qed

section \<open>Properties\<close>

text \<open>C40: no read of the ADC ever delivers a value, whatever the hardware shows: the first read
  that gets the semaphore polls for ever and keeps it, and every other read then waits for
  the semaphore until a signal makes it return \<open>-ERESTARTSYS\<close>.\<close>

theorem adc_read_never_delivers:
  assumes "lock_laws V L" and "V (sem s)"
  shows "if lk_free L (sem s)
    then \<exists>t. adc_read L con dat intr U p n s = Spins (0, [], t) \<and> written t = written s @ [(adc_virtual_address s, 9)] \<and>
      (\<forall>con' dat' intr' U' p' n'. adc_read L con' dat' intr' U' p' n' t =
         (if intr' then Returns (- ERESTARTSYS, [], t) else Sleeps))
    else adc_read L con dat intr U p n s = (if intr then Returns (- ERESTARTSYS, [], s) else Sleeps)"
proof (cases "lk_free L (sem s)")
  case False
  then show ?thesis by (simp add: adc_read_def lk_free_def)
next
  case True
  then obtain x where x: "lk_acquire L (sem s) = Some x" by (auto simp: lk_free_def)
  have "\<not> lk_free L x"
    using kernel_lock.acquire_taken [OF kernel_lock.intro [OF assms(1)] assms(2) x] by simp
  then have "lk_acquire L x = None" by (simp add: lk_free_def)
  then have later: "adc_read L con' dat' intr' U' p' n' t =
      (if intr' then Returns (- ERESTARTSYS, [], t) else Sleeps)" if "sem t = x"
    for con' dat' intr' U' p' n' and t :: "'a adc"
    by (simp add: adc_read_def that)
  have control: "ADC_CON_SELMUX 1 OR ADC_CON_EN_START = 9"
    by (simp add: ADC_CON_SELMUX_def ADC_CON_EN_START_def)
  let ?t = "s\<lparr>sem := x, written := written s @ [(adc_virtual_address s, 9)]\<rparr>"
  have "adc_read L con dat intr U p n s = Spins (0, [], ?t)"
    using x by (simp add: adc_read_def adc_wait_None control ADCCON_def)
  moreover have "sem ?t = x" "written ?t = written s @ [(adc_virtual_address s, 9)]" by simp_all
  ultimately show ?thesis using True later [of ?t] by auto
qed

theorem adc_read_never_delivers_witness:
  "\<exists>t. adc_read flag_lock (\<lambda>k. 0x8000) 512 False sevens 1 4 (adc_image False) = Spins (0, [], t)"
proof -
  have "lk_free flag_lock (sem (adc_image False))"
    by (simp add: lk_free_def flag_lock_def adc_image_def sem_image_def chr.defs chr_sem.defs)
  then show ?thesis
    using adc_read_never_delivers [OF flag_lock_laws TrueI, of "adc_image False" "\<lambda>k. 0x8000" 512 False sevens 1 4]
    by auto
qed

text \<open>Loading and unloading. A successful init and exit are balanced; a failed init leaks
  the buffer exactly when it had been allocated, since \<open>fail3\<close> does not free it.\<close>

lemma adc_init_leaks_buffer:
  assumes "adc_drv_module_init L K (adc_image x) l = (ret, s, l')" and "ledger l = Some R"
  shows "if ret = 0 then ledger (snd (adc_drv_module_exit s l')) = Some R
    else ret = - 1 \<and> ledger l' = Some (R + (if buffer s = 0 then {#} else {#Kmem (buffer s)#}))"
  using assms
  by (auto simp: adc_drv_module_init_def adc_drv_module_exit_def dynamic_init_def chr_init_rest_def chr_exit_def
      adc_setup_def fail0_def fail1_def fail2_def adc_image_def sem_image_def chr_image_def chr.defs chr_sem.defs
      Let_def effect_simps split: if_splits prod.splits)

definition no_ioremap :: kernel where
  "no_ioremap = good_kernel\<lparr>ioremap := (\<lambda>l a n. 0)\<rparr>"

lemma adc_init_leaks_buffer_witness:
  "ledger (snd (snd (adc_drv_module_init flag_lock no_ioremap (adc_image False) []))) = Some {#Kmem 8192#}"
proof -
  let ?i = "adc_drv_module_init flag_lock no_ioremap (adc_image False) []"
  have "fst ?i = - 1" and b: "buffer (fst (snd ?i)) = 8192"
    by (simp_all add: adc_drv_module_init_def init_defs adc_setup_def no_ioremap_def adc_image_def sem_image_def
        chr.defs chr_sem.defs)
  then have i: "?i = (- 1, fst (snd ?i), snd (snd ?i))" by (simp add: prod_eq_iff)
  show ?thesis using adc_init_leaks_buffer [OF i ledger_Nil] b by simp
qed

end
