(* ===== verification/Mmap_Driver.thy ===== *)
theory Mmap_Driver
  imports Module_Lifecycle
begin

text \<open>
  The character driver with a file position and \<open>mmap\<close> of \<open>day_11/ex27.c\<close>. Positions are
  64 bits wide, the byte counts inside the calls 32 bits, and the comparison of the two
  with the user's count is unsigned: all three are kept.
\<close>

section \<open>State\<close>

definition MAX_LENGTH :: nat where "MAX_LENGTH = 4000"

record cdev27 =
  char_device_buf :: ptr
  dev_mem :: "byte list"
  sample_cdev :: ptr
  mydev :: dev_t
  sample_class :: ptr
  addr :: c_ulong
  counter :: c_int

definition cdev27_image :: cdev27 where
  "cdev27_image = \<lparr>char_device_buf = 0, dev_mem = [], sample_cdev = 0, mydev = 0, sample_class = 0,
     addr = 0, counter = 0\<rparr>"

datatype vm_operations = No_vm_ops | Char_vm_ops

record vm_area_struct =
  vm_start :: c_ulong
  vm_page_prot :: c_ulong
  vm_ops :: vm_operations

record mmap_kernel = kernel +
  GFP_ATOMIC :: c_uint
  class_create :: "klog \<Rightarrow> ptr"
  virt_to_pa :: "ptr \<Rightarrow> c_ulong"
  PAGE_SHIFT :: nat
  remap_pfn_range :: "vm_area_struct \<Rightarrow> c_ulong \<Rightarrow> c_ulong \<Rightarrow> c_ulong \<Rightarrow> c_ulong \<Rightarrow> c_int"

section \<open>File operations\<close>

definition char_dev_open :: "cdev27 \<Rightarrow> c_int \<times> cdev27" where
  "char_dev_open s = (0, s\<lparr>counter := counter s + 1\<rparr>)"

definition char_dev_release :: "cdev27 \<Rightarrow> c_int \<times> cdev27" where
  "char_dev_release s = (0, s)"

text \<open>
  \<open>maxbytes = MAX_LENGTH - *ppos\<close> cuts the 64-bit difference to an \<open>int\<close>;
  \<open>maxbytes > lbuf\<close> compares it, sign-extended, with \<open>lbuf\<close> as unsigned numbers.
\<close>

definition bytes_to_do :: "loff_t \<Rightarrow> size_t \<Rightarrow> c_int" where
  "bytes_to_do ppos lbuf =
     (let maxbytes = ucast (of_nat MAX_LENGTH - ppos) :: c_int
      in if lbuf < scast maxbytes then ucast lbuf else maxbytes)"

definition char_dev_read ::
    "uaccess \<Rightarrow> ptr \<Rightarrow> size_t \<Rightarrow> loff_t \<Rightarrow> cdev27 \<Rightarrow> (ssize_t \<times> byte list \<times> loff_t \<times> cdev27) outcome" where
  "char_dev_read U buf lbuf ppos s =
     (let n = bytes_to_do ppos lbuf
      in if n = 0 then Ret (- ENOSPC, [], ppos, s)
         else obind (copy_out U buf (char_device_buf s) (dev_mem s) (unat ppos) (scast n))
           (\<lambda>(left, out). let nbytes = ucast (scast n - left) :: c_int
                          in Ret (scast nbytes, out, ppos + scast nbytes, s)))"

definition char_dev_write ::
    "uaccess \<Rightarrow> ptr \<Rightarrow> size_t \<Rightarrow> loff_t \<Rightarrow> cdev27 \<Rightarrow> (ssize_t \<times> loff_t \<times> cdev27) outcome" where
  "char_dev_write U buf lbuf ppos s =
     (let n = bytes_to_do ppos lbuf
      in if n = 0 then Ret (- ENOSPC, ppos, s)
         else obind (copy_in U buf (char_device_buf s) (dev_mem s) (unat ppos) (scast n))
           (\<lambda>(left, m). let nbytes = ucast (scast n - left) :: c_int
                        in Ret (scast nbytes, ppos + scast nbytes, s\<lparr>dev_mem := m\<rparr>)))"

text \<open>\<open>PAGE_ALIGN\<close> rounds up to whole pages.\<close>

definition PAGE_ALIGN :: "mmap_kernel \<Rightarrow> c_ulong \<Rightarrow> c_ulong" where
  "PAGE_ALIGN K n = (n + (push_bit (PAGE_SHIFT K) 1 - 1)) AND NOT (push_bit (PAGE_SHIFT K) 1 - 1)"

text \<open>The operations of the memory area do nothing.\<close>

definition char_vm_open :: "vm_area_struct \<Rightarrow> vm_area_struct" where
  "char_vm_open vma = vma"

definition char_vm_close :: "vm_area_struct \<Rightarrow> vm_area_struct" where
  "char_vm_close vma = vma"

definition char_dev_mmap :: "mmap_kernel \<Rightarrow> vm_area_struct \<Rightarrow> cdev27 \<Rightarrow> c_int \<times> vm_area_struct \<times> cdev27" where
  "char_dev_mmap K vma s =
     (let s = s\<lparr>addr := char_device_buf s\<rparr>;
          s = s\<lparr>addr := virt_to_pa K (addr s)\<rparr>
      in if remap_pfn_range K vma (vm_start vma) (drop_bit (PAGE_SHIFT K) (addr s))
              (PAGE_ALIGN K (of_nat MAX_LENGTH)) (vm_page_prot vma) \<noteq> 0
         then (- EAGAIN, vma, s)
         else (0, vma\<lparr>vm_ops := Char_vm_ops\<rparr>, s))"

section \<open>Init and exit\<close>

definition char_dev_init :: "mmap_kernel \<Rightarrow> cdev27 \<Rightarrow> klog \<Rightarrow> c_int \<times> cdev27 \<times> klog" where
  "char_dev_init K s l =
     (let (ret, d) = alloc_chrdev_region K l 0 1;
          s = s\<lparr>mydev := d\<rparr>;
          l = l @ [Chr (Alloc_chrdev_region 0 1 ret d)]
      in if sint ret < 0 then (- 1, s, l)
         else let cd = cdev_alloc K l;
                  s = s\<lparr>sample_cdev := cd\<rparr>;
                  l = l @ [Chr (Cdev_alloc cd)]
              in if cd = 0 then (- 1, s, l @ [Chr (Unregister_chrdev_region d 1)])
                 else let l = l @ [Chr (Cdev_init cd)];
                          ret = cdev_add K l cd d 1;
                          l = l @ [Chr (Cdev_add cd d 1 ret)]
                      in if sint ret < 0 then (- 1, s, l @ [Chr (Cdev_del cd), Chr (Unregister_chrdev_region d 1)])
                         else let c = class_create K l;
                                  l = l @ [Dev (Class_create c), Dev (Device_create c d)];
                                  (p, m) = kmalloc K l (of_nat MAX_LENGTH) (GFP_ATOMIC K);
                                  l = l @ [Mem (Kmalloc (of_nat MAX_LENGTH) (GFP_ATOMIC K) p)]
                              in (0, s\<lparr>sample_class := c, char_device_buf := p, dev_mem := m\<rparr>, l))"

definition char_dev_exit :: "cdev27 \<Rightarrow> klog \<Rightarrow> cdev27 \<times> klog" where
  "char_dev_exit s l =
     (s, l @ [Dev (Device_destroy (sample_class s) (mydev s)), Dev (Class_destroy (sample_class s)),
              Chr (Cdev_del (sample_cdev s)), Chr (Unregister_chrdev_region (mydev s) 1),
              Mem (Kfree (char_device_buf s))])"

definition cdev27_owns :: "cdev27 \<Rightarrow> resource multiset" where
  "cdev27_owns s = {#Chrdev_region (mydev s) 1, Cdev_obj (sample_cdev s), Dev_node (sample_class s) (mydev s)#} +
     (if sample_class s = 0 then {#} else {#Dev_class (sample_class s)#}) +
     (if char_device_buf s = 0 then {#} else {#Kmem (char_device_buf s)#})"

interpretation ex27_mod: loadable_module char_dev_init char_dev_exit cdev27_owns
  by unfold_locales
    (auto simp: char_dev_init_def char_dev_exit_def cdev27_owns_def Let_def effect_simps
      split: if_splits prod.splits)

section \<open>Byte counts\<close>

lemma max_minus_ppos: "of_nat MAX_LENGTH - ppos = (word_of_int (4000 - uint ppos) :: loff_t)"
  by (simp add: MAX_LENGTH_def)

lemma bytes_inside:
  assumes "unat ppos \<le> MAX_LENGTH"
  shows "unat (bytes_to_do ppos lbuf) = min (unat lbuf) (MAX_LENGTH - unat ppos)"
proof -
  let ?x = "of_nat MAX_LENGTH - ppos :: loff_t"
  have p: "unat ppos \<le> 4000" using assms by (simp add: MAX_LENGTH_def)
  have x: "unat ?x = 4000 - unat ppos"
    using p unat_sub [of ppos "of_nat MAX_LENGTH"] by (simp add: MAX_LENGTH_def word_le_nat_alt)
  have w: "scast (ucast ?x :: c_int) = ?x"
    unfolding max_minus_ppos
  proof (rule narrow_wide)
    have "uint ppos \<le> 4000" using p uint_le_iff_unat [of ppos 4000] by simp
    then show "- (2 ^ 31) \<le> 4000 - uint ppos" by simp
    have "4000 - uint ppos \<le> 4000" using uint_ge_0 [of ppos] by linarith
    also have "\<dots> < 2 ^ 31" by simp
    finally show "4000 - uint ppos < 2 ^ 31" .
  qed
  have b: "bytes_to_do ppos lbuf = (if lbuf < ?x then ucast lbuf else ucast ?x)"
    by (simp only: bytes_to_do_def Let_def w)
  have u: "unat (ucast ?x :: c_int) = 4000 - unat ppos" using x by (simp add: unat_ucast_64_32)
  show ?thesis
  proof (cases "lbuf < ?x")
    case True
    then have "unat lbuf < 4000 - unat ppos" using x by (simp add: word_less_nat_alt)
    then show ?thesis
      unfolding b if_P [OF True] by (simp add: unat_ucast_64_32 MAX_LENGTH_def)
  next
    case False
    then have "4000 - unat ppos \<le> unat lbuf" using x by (simp add: word_less_nat_alt)
    then show ?thesis unfolding b if_not_P [OF False] u by (simp add: MAX_LENGTH_def)
  qed
qed

lemma bytes_beyond:
  assumes "MAX_LENGTH < unat ppos" and "unat ppos < 2 ^ 31" and "unat lbuf < 2 ^ 31"
  shows "unat (bytes_to_do ppos lbuf) = unat lbuf"
proof -
  define i where "i = 4000 - uint ppos"
  have "4000 < uint ppos" "uint ppos < 2 ^ 31"
    using assms(1,2) uint_le_iff_unat [of ppos 4000] uint_less_iff_unat [of ppos "2 ^ 31"]
    by (simp_all add: MAX_LENGTH_def not_le [symmetric])
  then have i: "- (2 ^ 31) \<le> i" "i < 0" unfolding i_def by linarith+
  have w: "scast (ucast (of_nat MAX_LENGTH - ppos :: loff_t) :: c_int) = (word_of_int i :: loff_t)"
    unfolding max_minus_ppos i_def [symmetric] by (rule narrow_wide) (use i in linarith)+
  have "uint (word_of_int i :: loff_t) = i mod 2 ^ 64" by (simp add: uint_word_of_int)
  also have "\<dots> = (i + 2 ^ 64) mod 2 ^ 64" by simp
  also have "\<dots> = i + 2 ^ 64" using i by (intro mod_pos_pos_trivial) simp_all
  finally have u: "uint (word_of_int i :: loff_t) = i + 2 ^ 64" .
  have "uint lbuf < 2 ^ 31" using assms(3) uint_less_iff_unat [of lbuf "2 ^ 31"] by simp
  also have "\<dots> \<le> i + 2 ^ 64" using i(1) by simp
  finally have "uint lbuf < uint (word_of_int i :: loff_t)" unfolding u .
  then have "lbuf < word_of_int i" by (simp add: word_less_def)
  then have "bytes_to_do ppos lbuf = ucast lbuf" by (simp only: bytes_to_do_def Let_def w if_True)
  then show ?thesis using assms(3) by (simp add: unat_ucast_64_32)
qed

section \<open>Reading through the device\<close>

lemma read_inside:
  assumes "\<forall>bs. copy_to_user U buf bs = (0, bs)" and "char_device_buf s \<noteq> 0" and "length (dev_mem s) = MAX_LENGTH"
    and "unat ppos \<le> MAX_LENGTH" and "k = min (unat lbuf) (MAX_LENGTH - unat ppos)"
  shows "char_dev_read U buf lbuf ppos s =
    (if k = 0 then Ret (- ENOSPC, [], ppos, s)
     else Ret (of_nat k, get_at (unat ppos) k (dev_mem s), ppos + of_nat k, s))"
proof -
  let ?n = "bytes_to_do ppos lbuf"
  have n: "unat ?n = k" using bytes_inside [OF assms(4)] assms(5) by simp
  have k: "k \<le> 4000" using assms(5) by (simp add: MAX_LENGTH_def)
  have zero: "?n = 0 \<longleftrightarrow> k = 0" using n by (auto simp: unat_eq_0)
  have sn: "unat (scast ?n :: 64 word) = k" using scast_nat_pos [of ?n] n k by simp
  then have sk: "(scast ?n :: 64 word) = of_nat k" by (rule word_of_unat_eq)
  then have w: "scast (ucast (of_nat k :: 64 word) :: c_int) = (of_nat k :: 64 word)"
    using narrow_wide [of "int k"] k by simp
  have uk: "unat (of_nat k :: 64 word) = k" using k by (subst unat_of_nat) simp
  have "unat ppos + k \<le> length (dev_mem s)" using assms(3-5) by simp
  then show ?thesis
    using assms(1,2) by (simp add: char_dev_read_def Let_def zero sk copy_out_def obj_check_def uk w)
qed

text \<open>
  A user who reads in chunks until a result that is not positive: what arrived, and that
  result. The fuel is enough when it exceeds the number of bytes left.
\<close>

fun cat_device :: "nat \<Rightarrow> uaccess \<Rightarrow> ptr \<Rightarrow> size_t \<Rightarrow> loff_t \<Rightarrow> cdev27 \<Rightarrow> (byte list \<times> ssize_t) option" where
  "cat_device 0 U buf c ppos s = None"
| "cat_device (Suc fuel) U buf c ppos s =
     (case char_dev_read U buf c ppos s of
        Ret (r, out, ppos, s) \<Rightarrow>
          if sint r \<le> 0 then Some ([], r)
          else map_option (\<lambda>(rest, r). (out @ rest, r)) (cat_device fuel U buf c ppos s)
      | _ \<Rightarrow> None)"

lemma get_at_drop: "get_at off k xs @ drop (off + k) xs = drop off xs"
  by (simp add: get_at_def add.commute flip: drop_drop)

lemma cat_device_rest:
  assumes "\<forall>bs. copy_to_user U buf bs = (0, bs)" and "char_device_buf s \<noteq> 0" and "length (dev_mem s) = MAX_LENGTH"
    and "c \<noteq> 0"
  shows "unat ppos \<le> MAX_LENGTH \<Longrightarrow> MAX_LENGTH - unat ppos < fuel \<Longrightarrow>
    cat_device fuel U buf c ppos s = Some (drop (unat ppos) (dev_mem s), - ENOSPC)"
proof (induction fuel arbitrary: ppos)
  case 0
  then show ?case by simp
next
  case (Suc fuel)
  let ?k = "min (unat c) (MAX_LENGTH - unat ppos)"
  note rd = read_inside [OF assms(1-3) Suc.prems(1) refl, of c]
  have c: "0 < unat c" using assms(4) by (simp add: unat_gt_0)
  show ?case
  proof (cases "MAX_LENGTH - unat ppos = 0")
    case True
    then have "drop (unat ppos) (dev_mem s) = []" using assms(3) by simp
    then show ?thesis using rd True by simp
  next
    case False
    then have k: "0 < ?k" "?k \<le> 4000" using c by (simp_all add: MAX_LENGTH_def)
    have s: "sint (of_nat ?k :: 64 word) = int ?k"
      using k(2) by (simp only: signed_of_nat) (simp add: signed_take_bit_int_eq_self_iff)
    have "unat (of_nat ?k :: 64 word) = ?k" using k(2) by (subst unat_of_nat) simp
    then have p: "unat (ppos + of_nat ?k) = unat ppos + ?k"
      using Suc.prems(1) unat_add_lem [THEN iffD1, of ppos "of_nat ?k"] k(2) by (simp add: MAX_LENGTH_def)
    have "cat_device fuel U buf c (ppos + of_nat ?k) s = Some (drop (unat ppos + ?k) (dev_mem s), - ENOSPC)"
    proof -
      have "unat (ppos + of_nat ?k) \<le> MAX_LENGTH" "MAX_LENGTH - unat (ppos + of_nat ?k) < fuel"
        unfolding p using Suc.prems k(1) by (simp_all add: min_def split: if_splits)
      from Suc.IH [OF this] show ?thesis unfolding p .
    qed
    moreover have "get_at (unat ppos) ?k (dev_mem s) @ drop (unat ppos + ?k) (dev_mem s) = drop (unat ppos) (dev_mem s)"
      by (rule get_at_drop)
    moreover have "char_dev_read U buf c ppos s = Ret (of_nat ?k, get_at (unat ppos) ?k (dev_mem s), ppos + of_nat ?k, s)"
      using rd k(1) by (simp only: if_False less_not_refl2)
    moreover have "\<not> sint (of_nat ?k :: 64 word) \<le> 0" using k(1) unfolding s by simp
    ultimately show ?thesis
      by (simp only: cat_device.simps outcome.case prod.case if_False option.map)
  qed
qed

lemma init_buffer27:
  assumes "kernel_ok (kernel.truncate K)" and "char_dev_init K cdev27_image l = (0, s, l')"
    and "char_device_buf s \<noteq> 0"
  shows "length (dev_mem s) = MAX_LENGTH"
proof -
  obtain m where "kmalloc K m (of_nat MAX_LENGTH) (GFP_ATOMIC K) = (char_device_buf s, dev_mem s)"
    using assms(2) by (auto simp: char_dev_init_def Let_def split: if_splits prod.splits)
  with kmalloc_length [OF assms(1), of m "of_nat MAX_LENGTH" "GFP_ATOMIC K"] assms(3) show ?thesis
    by (simp add: MAX_LENGTH_def kernel.defs)
qed

text \<open>C25: Reading the loaded device of ex27.c in chunks of any size but zero, from position 0 and
  from mapped user memory, delivers exactly the 4000 bytes of the buffer and stops with
  \<open>-ENOSPC\<close>. The comment in the code says that this value makes \<open>read\<close> return end of
  file, which is 0.\<close>

theorem char_dev_cat:
  assumes "kernel_ok (kernel.truncate K)" and "char_dev_init K cdev27_image l = (0, s, l')"
    and "char_device_buf s \<noteq> 0" and "\<forall>p bs. copy_to_user U p bs = (0, bs)" and "c \<noteq> 0"
  shows "cat_device (Suc MAX_LENGTH) U buf c 0 s = Some (dev_mem s, - ENOSPC) \<and>
    length (dev_mem s) = 4000 \<and> sint (- ENOSPC :: ssize_t) = - 28"
proof -
  have len: "length (dev_mem s) = MAX_LENGTH" by (rule init_buffer27 [OF assms(1-3)])
  have "cat_device (Suc MAX_LENGTH) U buf c 0 s = Some (dev_mem s, - ENOSPC)"
    using cat_device_rest [OF _ assms(3) len assms(5), where ppos = 0 and fuel = "Suc MAX_LENGTH" and U = U and buf = buf] assms(4) by simp
  with len show ?thesis by (simp add: MAX_LENGTH_def)
qed

definition good_mmap_kernel :: mmap_kernel where
  "good_mmap_kernel = kernel.extend good_kernel
     \<lparr>GFP_ATOMIC = 32, class_create = (\<lambda>_. 5), virt_to_pa = (\<lambda>p. p), PAGE_SHIFT = 12,
      remap_pfn_range = (\<lambda>_ _ _ _ _. 0)\<rparr>"

lemma good_mmap_kernel_ok: "kernel_ok (kernel.truncate good_mmap_kernel)"
  using good_kernel_ok by (simp add: good_mmap_kernel_def kernel.defs good_kernel_def)

definition loaded27 :: cdev27 where
  "loaded27 = cdev27_image\<lparr>char_device_buf := 8192, dev_mem := replicate 4000 0, sample_cdev := 4096,
     mydev := 262144000, sample_class := 5\<rparr>"

lemma ex27_loads: "\<exists>l'. char_dev_init good_mmap_kernel cdev27_image [] = (0, loaded27, l')"
  by (simp add: char_dev_init_def good_mmap_kernel_def good_kernel_def kernel.defs Let_def loaded27_def
      cdev27_image_def MAX_LENGTH_def)

theorem char_dev_cat_witness:
  "\<exists>l'. char_dev_init good_mmap_kernel cdev27_image [] = (0, loaded27, l') \<and>
     cat_device 4001 (mapped_uaccess (\<lambda>_. 0)) 0 7 0 loaded27 = Some (replicate 4000 0, - ENOSPC)"
proof -
  obtain l' where l: "char_dev_init good_mmap_kernel cdev27_image [] = (0, loaded27, l')"
    using ex27_loads by blast
  have "char_device_buf loaded27 \<noteq> 0" "dev_mem loaded27 = replicate 4000 0" by (simp_all add: loaded27_def)
  with char_dev_cat [OF good_mmap_kernel_ok l, of "mapped_uaccess (\<lambda>_. 0)" 7 0] l show ?thesis
    by (simp add: mapped_uaccess_def MAX_LENGTH_def)
qed

text \<open>C36: Between the end of the 4000 bytes and position \<open>2^31\<close> nothing stops a transfer: the
  count left is negative, and the comparison with the unsigned \<open>lbuf\<close> takes it for a huge
  one. A read or a write of \<open>lbuf\<close> bytes there runs outside the buffer, and dereferences
  \<open>NULL\<close> when the allocation, which init does not check, has failed.\<close>

theorem char_dev_beyond_end:
  assumes "kernel_ok (kernel.truncate K)" and "char_dev_init K cdev27_image l = (0, s, l')"
    and "4000 < unat ppos" and "unat ppos < 2 ^ 31" and "0 < unat lbuf" and "unat lbuf < 2 ^ 31"
  shows "char_dev_read U buf lbuf ppos s = Fault (if char_device_buf s = 0 then NullDeref else OutOfBounds) \<and>
    char_dev_write U buf lbuf ppos s = Fault (if char_device_buf s = 0 then NullDeref else OutOfBounds)"
proof -
  let ?n = "bytes_to_do ppos lbuf"
  have n: "unat ?n = unat lbuf" using bytes_beyond [of ppos lbuf] assms(3,4,6) by (simp add: MAX_LENGTH_def)
  then have sn: "unat (scast ?n :: 64 word) = unat lbuf" using scast_nat_pos [of ?n] assms(6) by simp
  have nz: "?n \<noteq> 0" using n assms(5) by auto
  have "obj_check (char_device_buf s) (dev_mem s) (unat ppos) (unat lbuf) =
    Some (if char_device_buf s = 0 then NullDeref else OutOfBounds)"
    using init_buffer27 [OF assms(1,2)] assms(3,5) by (auto simp: obj_check_def MAX_LENGTH_def)
  then show ?thesis
    by (simp only: char_dev_read_def char_dev_write_def Let_def nz if_False copy_out_def copy_in_def sn
        option.case obind.simps simp_thms)
qed

theorem char_dev_beyond_end_witness:
  "\<exists>l'. char_dev_init good_mmap_kernel cdev27_image [] = (0, loaded27, l') \<and>
     char_dev_read (mapped_uaccess (\<lambda>_. 0)) 0 10 5000 loaded27 = Fault OutOfBounds"
proof -
  obtain l' where l: "char_dev_init good_mmap_kernel cdev27_image [] = (0, loaded27, l')"
    using ex27_loads by blast
  have "char_device_buf loaded27 \<noteq> 0" by (simp add: loaded27_def)
  with char_dev_beyond_end [OF good_mmap_kernel_ok l, of 5000 10 "mapped_uaccess (\<lambda>_. 0)" 0] l show ?thesis
    by simp
qed

end
