(* ===== verification/Pci_Driver.thy ===== *)
theory Pci_Driver
  imports Module_Lifecycle
begin

text \<open>
  The PCI driver of \<open>day_08/ex22.c\<close>. A device is a number; what the PCI core answers for it
  (its BARs, and whether enabling it and claiming a BAR succeed) is a parameter. The three
  arrays of the driver are global, one set for all the devices it is bound to.
\<close>

section \<open>State\<close>

type_synonym pci_dev = nat

datatype pci_message = No_IO nat | No_MEM nat | Request_failed nat

record pci_state =
  iobase :: "c_ulong list"
  iosize :: "c_ulong list"
  VirtualBaseAddr :: "ptr list"
  messages :: "pci_message list"

definition pci_image :: pci_state where
  "pci_image = \<lparr>iobase = replicate 6 0, iosize = replicate 6 0, VirtualBaseAddr = replicate 6 0, messages = []\<rparr>"

record pci_kernel = kernel +
  IORESOURCE_IO :: c_ulong
  IORESOURCE_MEM :: c_ulong
  pci_enable_device :: "pci_dev \<Rightarrow> c_int"
  pci_resource_start :: "pci_dev \<Rightarrow> nat \<Rightarrow> c_ulong"
  pci_resource_len :: "pci_dev \<Rightarrow> nat \<Rightarrow> c_ulong"
  pci_resource_flags :: "pci_dev \<Rightarrow> nat \<Rightarrow> c_ulong"
  pci_request_region :: "pci_dev \<Rightarrow> nat \<Rightarrow> c_int"
  pci_register_driver :: "klog \<Rightarrow> c_int"

section \<open>Probe and remove\<close>

definition pci_printk :: "pci_message \<Rightarrow> pci_state \<Rightarrow> pci_state" where
  "pci_printk m s = s\<lparr>messages := messages s @ [m]\<rparr>"

definition probe_bar :: "pci_kernel \<Rightarrow> pci_dev \<Rightarrow> nat \<Rightarrow> pci_state \<times> klog \<Rightarrow> pci_state \<times> klog" where
  "probe_bar K dev i sl =
     (let (s, l) = sl;
          s = s\<lparr>iobase := (iobase s)[i := pci_resource_start K dev i]\<rparr>;
          s = s\<lparr>iosize := (iosize s)[i := pci_resource_len K dev i]\<rparr>;
          s = (if iobase s ! i = 0 \<or> pci_resource_flags K dev i AND IORESOURCE_IO K = 0
               then pci_printk (No_IO i) s else s);
          s = (if iobase s ! i = 0 \<or> pci_resource_flags K dev i AND IORESOURCE_MEM K = 0
               then pci_printk (No_MEM i) s else s);
          ret = pci_request_region K dev i;
          l = l @ [Pci (Pci_request_region dev i (pci_resource_len K dev i) ret)]
      in if ret \<noteq> 0 then (pci_printk (Request_failed i) s, l)
         else let v = ioremap K l (iobase s ! i) (iosize s ! i)
              in (s\<lparr>VirtualBaseAddr := (VirtualBaseAddr s)[i := v]\<rparr>,
                  l @ [Mem (Ioremap (iobase s ! i) (iosize s ! i) v)]))"

definition sample_pci_driver_probe ::
    "pci_kernel \<Rightarrow> pci_dev \<Rightarrow> pci_state \<Rightarrow> klog \<Rightarrow> c_int \<times> pci_state \<times> klog" where
  "sample_pci_driver_probe K dev s l =
     (let l = l @ [Pci (Pci_enable_device dev (pci_enable_device K dev))];
          (s, l) = fold (probe_bar K dev) [0..<6] (s, l)
      in (0, s, l))"

definition remove_bar :: "pci_kernel \<Rightarrow> pci_dev \<Rightarrow> pci_state \<Rightarrow> nat \<Rightarrow> klog \<Rightarrow> klog" where
  "remove_bar K dev s i l =
     (if iobase s ! i \<noteq> 0 then l @ [Pci (Pci_release_region dev i (pci_resource_len K dev i))] else l)"

definition sample_pci_driver_remove :: "pci_kernel \<Rightarrow> pci_dev \<Rightarrow> pci_state \<Rightarrow> klog \<Rightarrow> pci_state \<times> klog" where
  "sample_pci_driver_remove K dev s l =
     (s, fold (remove_bar K dev s) [0..<6] l @ [Pci (Pci_disable_device dev)])"

section \<open>The module\<close>

definition pci_driver_name :: string where "pci_driver_name = ''pci sample driver''"

definition pci_driver_module_init :: "pci_kernel \<Rightarrow> pci_state \<Rightarrow> klog \<Rightarrow> c_int \<times> pci_state \<times> klog" where
  "pci_driver_module_init K s l =
     (let ret = pci_register_driver K l in (ret, s, l @ [Bus (Driver_register pci_driver_name ret)]))"

definition pci_driver_module_exit :: "pci_state \<Rightarrow> klog \<Rightarrow> pci_state \<times> klog" where
  "pci_driver_module_exit s l = (s, l @ [Bus (Driver_unregister pci_driver_name)])"

interpretation ex22_mod: loadable_module pci_driver_module_init pci_driver_module_exit
    "\<lambda>_. {#Driver_reg pci_driver_name#}"
  by unfold_locales (auto simp: pci_driver_module_init_def pci_driver_module_exit_def Let_def effect_simps)

section \<open>What a probe acquires and a remove releases\<close>

text \<open>A state whose arrays have their six elements.\<close>

definition pci_ok :: "pci_state \<Rightarrow> bool" where
  "pci_ok s \<longleftrightarrow> length (iobase s) = 6 \<and> length (iosize s) = 6 \<and> length (VirtualBaseAddr s) = 6"

lemma pci_ok_image [simp]: "pci_ok pci_image"
  by (simp add: pci_ok_def pci_image_def)

lemma printk_fields [simp]:
  "iobase (pci_printk m s) = iobase s" "iosize (pci_printk m s) = iosize s"
  "VirtualBaseAddr (pci_printk m s) = VirtualBaseAddr s" "pci_ok (pci_printk m s) = pci_ok s"
  by (simp_all add: pci_printk_def pci_ok_def)

text \<open>The bars whose region the device gets, and the mappings made for them.\<close>

definition granted :: "pci_kernel \<Rightarrow> pci_dev \<Rightarrow> nat \<Rightarrow> bool" where
  "granted K dev i \<longleftrightarrow> pci_request_region K dev i = 0"

definition present :: "pci_kernel \<Rightarrow> pci_dev \<Rightarrow> nat \<Rightarrow> bool" where
  "present K dev i \<longleftrightarrow> pci_resource_len K dev i \<noteq> 0"

definition regions :: "pci_dev \<Rightarrow> (nat \<Rightarrow> bool) \<Rightarrow> nat list \<Rightarrow> resource multiset" where
  "regions dev P is = mset (map (Pci_region dev) (filter P is))"

definition mappings :: "pci_kernel \<Rightarrow> pci_dev \<Rightarrow> pci_state \<Rightarrow> nat list \<Rightarrow> resource multiset" where
  "mappings K dev s is =
     mset (map Io_mapping (filter (\<lambda>v. v \<noteq> 0) (map ((!) (VirtualBaseAddr s)) (filter (granted K dev) is))))"

lemma probe_bar_step:
  assumes "probe_bar K dev i (s, l) = (s', l')" and "pci_ok s" and "i < 6" and "ledger l = Some R"
  shows "pci_ok s'" and "iobase s' ! i = pci_resource_start K dev i"
    and "j \<noteq> i \<Longrightarrow> iobase s' ! j = iobase s ! j \<and> VirtualBaseAddr s' ! j = VirtualBaseAddr s ! j"
    and "ledger l' = Some (R + regions dev (\<lambda>i. granted K dev i \<and> present K dev i) [i] + mappings K dev s' [i])"
  using assms
  by (auto simp: probe_bar_def Let_def pci_ok_def regions_def mappings_def granted_def present_def effect_simps
      split: if_splits)

lemma mappings_cong:
  "(\<And>j. j \<in> set is \<Longrightarrow> VirtualBaseAddr s ! j = VirtualBaseAddr t ! j) \<Longrightarrow> mappings K dev s is = mappings K dev t is"
  unfolding mappings_def by (metis (no_types, lifting) filter_is_subset map_eq_conv subsetD)

lemma mappings_Cons: "mappings K dev s (i # is) = mappings K dev s [i] + mappings K dev s is"
  by (simp add: mappings_def)

lemma regions_Cons: "regions dev P (i # is) = regions dev P [i] + regions dev P is"
  by (simp add: regions_def)

lemma probe_bars:
  assumes "distinct is" and "set is \<subseteq> {..<6}" and "pci_ok s" and "ledger l = Some R"
    and "fold (probe_bar K dev) is (s, l) = (s', l')"
  shows "pci_ok s' \<and> (\<forall>j. j \<notin> set is \<longrightarrow> iobase s' ! j = iobase s ! j \<and> VirtualBaseAddr s' ! j = VirtualBaseAddr s ! j) \<and>
    (\<forall>i\<in>set is. iobase s' ! i = pci_resource_start K dev i) \<and>
    ledger l' = Some (R + regions dev (\<lambda>i. granted K dev i \<and> present K dev i) is + mappings K dev s' is)"
  using assms
proof (induction "is" arbitrary: s l R)
  case Nil
  then show ?case by (simp add: regions_def mappings_def)
next
  case (Cons i "is")
  obtain s1 l1 where one: "probe_bar K dev i (s, l) = (s1, l1)" by fastforce
  have i: "i < 6" "i \<notin> set is" using Cons.prems by auto
  note step = probe_bar_step [OF one Cons.prems(3) i(1) Cons.prems(4)]
  have rest: "fold (probe_bar K dev) is (s1, l1) = (s', l')" using Cons.prems(5) one by simp
  note IH = Cons.IH [OF _ _ step(1) step(4) rest]
  have "mappings K dev s1 [i] = mappings K dev s' [i]"
    by (rule mappings_cong) (use IH Cons.prems(1,2) i(2) in auto)
  then show ?case
    using IH Cons.prems(1,2) i(2) step(2,3) by (auto simp: mappings_Cons [of _ _ _ i "is"] regions_Cons [of _ _ i "is"] ac_simps)
qed

lemma pci_probe_acquires:
  assumes "sample_pci_driver_probe K dev s l = (ret, s', l')" and "pci_ok s" and "ledger l = Some R"
  shows "ret = 0 \<and> pci_ok s' \<and> (\<forall>i<6. iobase s' ! i = pci_resource_start K dev i) \<and>
    ledger l' = Some (R + (if pci_enable_device K dev = 0 then {#Pci_enabled dev#} else {#}) +
      regions dev (\<lambda>i. granted K dev i \<and> present K dev i) [0..<6] + mappings K dev s' [0..<6])"
proof -
  let ?l = "l @ [Pci (Pci_enable_device dev (pci_enable_device K dev))]"
  have f: "fold (probe_bar K dev) [0..<6] (s, ?l) = (s', l')" and r: "ret = 0"
    using assms(1) by (auto simp: sample_pci_driver_probe_def Let_def split: prod.splits)
  have "ledger ?l = Some (R + (if pci_enable_device K dev = 0 then {#Pci_enabled dev#} else {#}))"
    using assms(3) by (simp add: effect_simps)
  note probed = probe_bars [OF _ _ assms(2) this f]
  have six: "set [0..<6::nat] \<subseteq> {..<6}" by auto
  from probed [OF distinct_upt six] show ?thesis using r by auto
qed

lemma remove_bars_None: "ledger l = None \<Longrightarrow> ledger (fold (remove_bar K dev s) is l) = None"
  by (induction "is" arbitrary: l) (simp_all add: remove_bar_def)

lemma remove_bars:
  assumes "distinct is" and "\<forall>i\<in>set is. Pci_region dev i \<notin># R" and "ledger l = Some (R + regions dev H is)"
  shows "ledger (fold (remove_bar K dev s) is l) =
    (if \<forall>i\<in>set is. iobase s ! i \<noteq> 0 \<and> present K dev i \<longrightarrow> H i
     then Some (R + regions dev (\<lambda>i. H i \<and> \<not> (iobase s ! i \<noteq> 0 \<and> present K dev i)) is) else None)"
  using assms
proof (induction "is" arbitrary: l R)
  case Nil
  then show ?case by (simp add: regions_def)
next
  case (Cons i "is")
  let ?rel = "iobase s ! i \<noteq> 0 \<and> present K dev i"
  let ?l = "remove_bar K dev s i l"
  have i: "i \<notin> set is" "Pci_region dev i \<notin># R" using Cons.prems(1,2) by auto
  have other: "Pci_region dev i \<notin># regions dev H is" using i(1) by (auto simp: regions_def)
  have l: "ledger l = Some (R + regions dev H [i] + regions dev H is)"
    using Cons.prems(3) by (simp add: regions_Cons [of _ _ i "is"] ac_simps)
  show ?case
  proof (cases "?rel \<and> \<not> H i")
    case True
    then have "ledger ?l = None"
      using l i(2) other by (auto simp: remove_bar_def present_def regions_def [of _ _ "[i]"])
    then show ?thesis using True by (auto simp: remove_bars_None)
  next
    case False
    let ?R = "R + regions dev (\<lambda>i. H i \<and> \<not> (iobase s ! i \<noteq> 0 \<and> present K dev i)) [i]"
    have "ledger ?l = Some (?R + regions dev H is)"
      using l False by (auto simp: remove_bar_def present_def regions_def [of _ _ "[i]"])
    moreover have "\<forall>j\<in>set is. Pci_region dev j \<notin># ?R"
      using Cons.prems(2) i(1) by (auto simp: regions_def)
    ultimately have "ledger (fold (remove_bar K dev s) is ?l) =
      (if \<forall>i\<in>set is. iobase s ! i \<noteq> 0 \<and> present K dev i \<longrightarrow> H i
       then Some (?R + regions dev (\<lambda>i. H i \<and> \<not> (iobase s ! i \<noteq> 0 \<and> present K dev i)) is) else None)"
      using Cons.IH Cons.prems(1) by simp
    then show ?thesis using False by (auto simp: regions_Cons [of _ _ i "is"] ac_simps)
  qed
qed

definition enabled :: "pci_kernel \<Rightarrow> pci_dev \<Rightarrow> resource multiset" where
  "enabled K dev = (if pci_enable_device K dev = 0 then {#Pci_enabled dev#} else {#})"

text \<open>What a probe leaves held for the device.\<close>

definition probed :: "pci_kernel \<Rightarrow> pci_dev \<Rightarrow> pci_state \<Rightarrow> resource multiset" where
  "probed K dev s = enabled K dev +
     regions dev (\<lambda>i. granted K dev i \<and> present K dev i) [0..<6] + mappings K dev s [0..<6]"

definition none_of :: "pci_dev \<Rightarrow> resource multiset \<Rightarrow> bool" where
  "none_of dev R \<longleftrightarrow> Pci_enabled dev \<notin># R \<and> (\<forall>i. Pci_region dev i \<notin># R)"

lemma none_of_mappings [simp]: "none_of dev (mappings K dev' s is)"
  by (auto simp: none_of_def mappings_def)

lemma none_of_other [simp]: "dev \<noteq> dev' \<Longrightarrow> none_of dev (probed K dev' s)"
  by (auto simp: none_of_def probed_def enabled_def regions_def mappings_def)

lemma none_of_plus [simp]: "none_of dev (R + S) \<longleftrightarrow> none_of dev R \<and> none_of dev S"
  by (auto simp: none_of_def)

lemma pci_remove_ledger:
  assumes "ledger l = Some (R + enabled K dev + regions dev H [0..<6])" and "none_of dev R"
  shows "ledger (snd (sample_pci_driver_remove K dev s l)) =
    (if pci_enable_device K dev = 0 \<and> (\<forall>i<6. iobase s ! i \<noteq> 0 \<and> present K dev i \<longrightarrow> H i)
     then Some (R + regions dev (\<lambda>i. H i \<and> \<not> (iobase s ! i \<noteq> 0 \<and> present K dev i)) [0..<6]) else None)"
proof -
  have none: "\<forall>i\<in>set [0..<6::nat]. Pci_region dev i \<notin># R + enabled K dev"
    using assms(2) by (auto simp: none_of_def enabled_def)
  have "Pci_enabled dev \<notin># R + regions dev P [0..<6]" for P
    using assms(2) by (auto simp: none_of_def regions_def)
  then show ?thesis
    using remove_bars [OF distinct_upt none assms(1)]
    by (auto simp: sample_pci_driver_remove_def enabled_def)
qed

text \<open>C33: Binding the PCI driver to a device and taking it away again. The remove is free of
  wrong releases exactly when the device could be enabled and every BAR with a base and a
  length was granted, two results the probe ignores or only prints. When it is, what stays
  behind are the mappings, all of them, and the regions of BARs with base 0.\<close>

theorem pci_probe_remove:
  assumes "sample_pci_driver_probe K dev s l = (ret, s', l')" and "pci_ok s"
    and "ledger l = Some R" and "none_of dev R"
  shows "ret = 0 \<and> ledger l' = Some (R + probed K dev s') \<and>
    ledger (snd (sample_pci_driver_remove K dev s' l')) =
      (if pci_enable_device K dev = 0 \<and> (\<forall>i<6. pci_resource_start K dev i \<noteq> 0 \<and> present K dev i \<longrightarrow> granted K dev i)
       then Some (R + mappings K dev s' [0..<6] +
         regions dev (\<lambda>i. granted K dev i \<and> present K dev i \<and> pci_resource_start K dev i = 0) [0..<6])
       else None)"
proof -
  let ?H = "\<lambda>i. granted K dev i \<and> present K dev i"
  note acq = pci_probe_acquires [OF assms(1-3)]
  have l': "ledger l' = Some (R + mappings K dev s' [0..<6] + enabled K dev + regions dev ?H [0..<6])"
    using acq by (simp add: enabled_def ac_simps)
  have none: "none_of dev (R + mappings K dev s' [0..<6])" using assms(4) by simp
  have kept: "regions dev (\<lambda>i. ?H i \<and> \<not> (iobase s' ! i \<noteq> 0 \<and> present K dev i)) [0..<6] =
    regions dev (\<lambda>i. granted K dev i \<and> present K dev i \<and> pci_resource_start K dev i = 0) [0..<6]"
    unfolding regions_def using acq by (intro arg_cong [where f = mset] map_cong filter_cong) auto
  have ok: "(\<forall>i<6. iobase s' ! i \<noteq> 0 \<and> present K dev i \<longrightarrow> ?H i) \<longleftrightarrow>
    (\<forall>i<6. pci_resource_start K dev i \<noteq> 0 \<and> present K dev i \<longrightarrow> granted K dev i)"
    using acq by auto
  have "ledger l' = Some (R + probed K dev s')" using l' by (simp only: probed_def ac_simps)
  with pci_remove_ledger [OF l' none, of s'] acq show ?thesis unfolding kept ok by simp
qed

text \<open>
  A machine with two devices of the driver's id: device 1 has only BAR 0, device 2 only
  BAR 1. Requests succeed, absent BARs included, as \<open>pci_request_region\<close> has it.
\<close>

definition two_cards :: pci_kernel where
  "two_cards = kernel.extend (good_kernel\<lparr>ioremap := (\<lambda>l a n. if n = 0 then 0 else a + 0x1000)\<rparr>)
     \<lparr>IORESOURCE_IO = 0x100, IORESOURCE_MEM = 0x200, pci_enable_device = (\<lambda>d. 0),
      pci_resource_start = (\<lambda>d i. if d = Suc i then 0xF0000000 else 0),
      pci_resource_len = (\<lambda>d i. if d = Suc i then 4096 else 0),
      pci_resource_flags = (\<lambda>d i. if d = Suc i then 0x200 else 0),
      pci_request_region = (\<lambda>d i. 0), pci_register_driver = (\<lambda>l. 0)\<rparr>"

lemma upt6: "[0..<6] = [0, 1, 2, 3, 4, 5::nat]"
  by (simp add: upt_conv_Cons)

lemmas pci_defs = sample_pci_driver_probe_def probe_bar_def Let_def pci_printk_def

theorem pci_probe_remove_witness:
  "\<exists>s' l'. sample_pci_driver_probe two_cards 1 pci_image [] = (0, s', l') \<and>
     ledger (snd (sample_pci_driver_remove two_cards 1 s' l')) = Some {#Io_mapping 0xF0001000#}"
proof -
  obtain r s' l' where p: "sample_pci_driver_probe two_cards 1 pci_image [] = (r, s', l')" by (metis prod_cases3)
  have m: "mappings two_cards 1 s' [0..<6] = {#Io_mapping 0xF0001000#}"
    using p [symmetric]
    by (simp add: pci_defs upt6 pci_image_def two_cards_def good_kernel_def kernel.defs mappings_def granted_def)
  have "none_of 1 {#}" by (simp add: none_of_def)
  with pci_probe_remove [OF p pci_ok_image ledger_Nil] m p show ?thesis
    by (simp add: upt6 regions_def granted_def present_def two_cards_def kernel.defs)
qed

text \<open>The arrays are shared between devices. When two devices are bound and the first is taken
  away, what is released of it is decided by the bases of the second: regions of the first
  whose BAR number has base 0 in the second stay claimed, and a BAR of the first that was not
  granted is released wrongly when the second has a base there.\<close>

lemma pci_remove_uses_last_probe:
  assumes "sample_pci_driver_probe K d1 s l = (r1, s1, l1)" and "sample_pci_driver_probe K d2 s1 l1 = (r2, s2, l2)"
    and "d1 \<noteq> d2" and "pci_ok s" and "ledger l = Some R" and "none_of d1 R"
  shows "ledger (snd (sample_pci_driver_remove K d1 s2 l2)) =
    (if pci_enable_device K d1 = 0 \<and> (\<forall>i<6. pci_resource_start K d2 i \<noteq> 0 \<and> present K d1 i \<longrightarrow> granted K d1 i)
     then Some (R + probed K d2 s2 + mappings K d1 s1 [0..<6] +
       regions d1 (\<lambda>i. granted K d1 i \<and> present K d1 i \<and> pci_resource_start K d2 i = 0) [0..<6])
     else None)"
proof -
  let ?H = "\<lambda>i. granted K d1 i \<and> present K d1 i"
  let ?R = "R + probed K d2 s2 + mappings K d1 s1 [0..<6]"
  have ok1: "pci_ok s1" using pci_probe_acquires [OF assms(1,4,5)] by blast
  have l1: "ledger l1 = Some (R + probed K d1 s1)" using pci_probe_remove [OF assms(1,4,5,6)] by blast
  note acq = pci_probe_acquires [OF assms(2) ok1 l1]
  have l2: "ledger l2 = Some (?R + enabled K d1 + regions d1 ?H [0..<6])"
    using acq by (simp add: probed_def enabled_def ac_simps)
  have none: "none_of d1 ?R" using assms(3,6) by simp
  have kept: "regions d1 (\<lambda>i. ?H i \<and> \<not> (iobase s2 ! i \<noteq> 0 \<and> present K d1 i)) [0..<6] =
    regions d1 (\<lambda>i. granted K d1 i \<and> present K d1 i \<and> pci_resource_start K d2 i = 0) [0..<6]"
    unfolding regions_def using acq by (intro arg_cong [where f = mset] map_cong filter_cong) auto
  have ok: "(\<forall>i<6. iobase s2 ! i \<noteq> 0 \<and> present K d1 i \<longrightarrow> ?H i) \<longleftrightarrow>
    (\<forall>i<6. pci_resource_start K d2 i \<noteq> 0 \<and> present K d1 i \<longrightarrow> granted K d1 i)"
    using acq by auto
  show ?thesis using pci_remove_ledger [OF l2 none, of s2] unfolding kept ok .
qed

lemma pci_remove_uses_last_probe_witness:
  "\<exists>s1 l1 s2 l2. sample_pci_driver_probe two_cards 1 pci_image [] = (0, s1, l1) \<and>
     sample_pci_driver_probe two_cards 2 s1 l1 = (0, s2, l2) \<and>
     (\<exists>R. ledger (snd (sample_pci_driver_remove two_cards 1 s2 l2)) = Some R \<and> Pci_region 1 0 \<in># R)"
proof -
  obtain r1 s1 l1 where p1: "sample_pci_driver_probe two_cards 1 pci_image [] = (r1, s1, l1)" by (metis prod_cases3)
  obtain r2 s2 l2 where p2: "sample_pci_driver_probe two_cards 2 s1 l1 = (r2, s2, l2)" by (metis prod_cases3)
  have r: "r1 = 0" "r2 = 0"
    using p1 p2 by (auto simp: sample_pci_driver_probe_def Let_def split: prod.splits)
  have "none_of 1 {#}" by (simp add: none_of_def)
  note last = pci_remove_uses_last_probe [OF p1 p2 _ pci_ok_image ledger_Nil this]
  have "Pci_region 1 0 \<in># regions 1 (\<lambda>i. granted two_cards 1 i \<and> present two_cards 1 i \<and>
      pci_resource_start two_cards 2 i = 0) [0..<6]"
    by (simp add: upt6 regions_def granted_def present_def two_cards_def kernel.defs)
  then show ?thesis
    using last p1 p2 r by (simp add: granted_def two_cards_def kernel.defs)
qed

end
