(* ===== verification/Pci_Session.thy ===== *)
theory Pci_Session
  imports Pci_Driver
begin

text \<open>
  Sessions with the PCI driver of \<open>day_08/ex22.c\<close>: cards come and go in any order while the
  driver is loaded, and at the end it is unloaded with some of them still bound. The PCI core
  probes a card when the id table matches it, a parameter, and removes it when it goes or
  when the driver is unregistered. The specification keeps the bases of the last card that
  was probed and the set of regions claimed.
\<close>

section \<open>The tables\<close>

text \<open>\<open>PCI_DEVICE\<close> sets vendor and device, and lets the other fields match anything.\<close>

definition pci_VID :: c_uint where "pci_VID = 0xABCD"

definition pci_PID :: c_uint where "pci_PID = 0xABCD"

record pci_device_id =
  vendor :: c_uint
  device_id :: c_uint

definition pci_ids :: "pci_device_id list" where
  "pci_ids = [\<lparr>vendor = pci_VID, device_id = pci_PID\<rparr>, \<lparr>vendor = 0, device_id = 0\<rparr>]"

record pci_driver =
  pci_name :: string
  pci_probe :: "pci_kernel \<Rightarrow> pci_dev \<Rightarrow> pci_state \<Rightarrow> klog \<Rightarrow> c_int \<times> pci_state \<times> klog"
  pci_remove :: "pci_kernel \<Rightarrow> pci_dev \<Rightarrow> pci_state \<Rightarrow> klog \<Rightarrow> pci_state \<times> klog"
  pci_id_table :: "pci_device_id list"

definition sample_pci_driver :: pci_driver where
  "sample_pci_driver = \<lparr>pci_name = pci_driver_name, pci_probe = sample_pci_driver_probe,
     pci_remove = sample_pci_driver_remove, pci_id_table = pci_ids\<rparr>"

section \<open>Sessions\<close>

text \<open>
  The \<open>n\<close>-th card inserted is device \<open>n\<close>; a card that comes back is a new device. \<open>slots\<close>
  says of each whether it is bound to the driver.
\<close>

datatype pci_event = Insert_card | Eject_card pci_dev

record pci_session =
  arrays :: pci_state
  pci_log :: klog
  slots :: "bool list"

type_synonym id_match = "pci_device_id list \<Rightarrow> pci_dev \<Rightarrow> bool"

fun pci_event_step :: "id_match \<Rightarrow> pci_kernel \<Rightarrow> pci_event \<Rightarrow> pci_session \<Rightarrow> pci_session" where
  "pci_event_step M K Insert_card S =
     (let dev = length (slots S)
      in if M (pci_id_table sample_pci_driver) dev
         then let (ret, s, l) = pci_probe sample_pci_driver K dev (arrays S) (pci_log S)
              in S\<lparr>arrays := s, pci_log := l, slots := slots S @ [0 \<le> sint ret]\<rparr>
         else S\<lparr>slots := slots S @ [False]\<rparr>)"
| "pci_event_step M K (Eject_card dev) S =
     (if dev < length (slots S) \<and> slots S ! dev
      then let (s, l) = pci_remove sample_pci_driver K dev (arrays S) (pci_log S)
           in S\<lparr>arrays := s, pci_log := l, slots := (slots S)[dev := False]\<rparr>
      else S)"

definition pci_run :: "id_match \<Rightarrow> pci_kernel \<Rightarrow> pci_event list \<Rightarrow> pci_session \<Rightarrow> pci_session" where
  "pci_run M K = fold (pci_event_step M K)"

definition pci_load :: "pci_kernel \<Rightarrow> pci_session" where
  "pci_load K = (let (ret, s, l) = pci_driver_module_init K pci_image [] in \<lparr>arrays = s, pci_log = l, slots = []\<rparr>)"

text \<open>\<open>pci_unregister_driver\<close> takes the driver off every card that is still bound, the last one first.\<close>

definition pci_unload :: "id_match \<Rightarrow> pci_kernel \<Rightarrow> pci_session \<Rightarrow> pci_session" where
  "pci_unload M K S =
     (let S = pci_run M K (map Eject_card (rev [0..<length (slots S)])) S;
          (s, l) = pci_driver_module_exit (arrays S) (pci_log S)
      in S\<lparr>arrays := s, pci_log := l\<rparr>)"

section \<open>The specification\<close>

text \<open>
  \<open>bases\<close> are those of the last card probed, zero at first. An ejected card gives back the
  regions of the bars that have a base there, and it is an error to give back one that was
  not granted or to disable a card that could not be enabled. No mapping is ever given back.
\<close>

record claims =
  inserted :: nat
  bound :: "pci_dev set"
  bases :: "nat \<Rightarrow> c_ulong"
  claimed :: "(pci_dev \<times> nat) set"

definition no_claims :: claims where
  "no_claims = \<lparr>inserted = 0, bound = {}, bases = (\<lambda>_. 0), claimed = {}\<rparr>"

definition bars :: "(nat \<Rightarrow> bool) \<Rightarrow> nat set" where
  "bars P = set (filter P [0..<6])"

fun pci_spec_event :: "id_match \<Rightarrow> pci_kernel \<Rightarrow> pci_event \<Rightarrow> claims \<Rightarrow> claims option" where
  "pci_spec_event M K Insert_card C =
     (let dev = inserted C
      in Some (if M pci_ids dev
               then \<lparr>inserted = Suc dev, bound = insert dev (bound C), bases = pci_resource_start K dev,
                     claimed = claimed C \<union> Pair dev ` bars (\<lambda>i. granted K dev i \<and> present K dev i)\<rparr>
               else C\<lparr>inserted := Suc dev\<rparr>))"
| "pci_spec_event M K (Eject_card dev) C =
     (if dev \<notin> bound C then Some C
      else if pci_enable_device K dev = 0 \<and>
          bars (\<lambda>i. bases C i \<noteq> 0 \<and> present K dev i) \<subseteq> bars (granted K dev)
      then Some (C\<lparr>bound := bound C - {dev},
                   claimed := claimed C - Pair dev ` bars (\<lambda>i. bases C i \<noteq> 0)\<rparr>)
      else None)"

fun pci_spec :: "id_match \<Rightarrow> pci_kernel \<Rightarrow> pci_event list \<Rightarrow> claims \<Rightarrow> claims option" where
  "pci_spec M K [] C = Some C"
| "pci_spec M K (e # es) C = Option.bind (pci_spec_event M K e C) (pci_spec M K es)"

text \<open>What the claims hold, and all mappings made in a log.\<close>

definition claim_resources :: "pci_kernel \<Rightarrow> claims \<Rightarrow> resource multiset" where
  "claim_resources K C = image_mset (case_prod Pci_region) (mset_set (claimed C)) +
     image_mset Pci_enabled (mset_set {dev \<in> bound C. pci_enable_device K dev = 0})"

definition mappings_made :: "klog \<Rightarrow> resource multiset" where
  "mappings_made l = mset (concat (map (\<lambda>c. case c of Mem (Ioremap a n p) \<Rightarrow> (if p = 0 then [] else [Io_mapping p]) | _ \<Rightarrow> []) l))"


section \<open>Logs\<close>

lemma ledger_None_append: "ledger l = None \<Longrightarrow> ledger (l @ m) = None"
proof -
  have "ledger_from None m = None" by (induction m) simp_all
  then show "ledger l = None \<Longrightarrow> ledger (l @ m) = None" by (simp add: ledger_append)
qed

lemma mappings_made_append [simp]: "mappings_made (l @ m) = mappings_made l + mappings_made m"
  by (simp add: mappings_made_def)

lemma mappings_made_simps [simp]:
  "mappings_made [] = {#}" "mappings_made (Pci c # l) = mappings_made l"
  "mappings_made (Bus b # l) = mappings_made l"
  "mappings_made (Mem (Ioremap a n p) # l) = (if p = 0 then {#} else {#Io_mapping p#}) + mappings_made l"
  by (simp_all add: mappings_made_def)

lemma probe_bar_extends:
  assumes "probe_bar K dev i (s, l) = (s', l')" and "pci_ok s" and "i < 6"
  shows "pci_ok s' \<and> (\<exists>m. l' = l @ m) \<and> mappings_made l' = mappings_made l + mappings K dev s' [i] \<and>
    (\<forall>j. j \<noteq> i \<longrightarrow> VirtualBaseAddr s' ! j = VirtualBaseAddr s ! j)"
  using assms
  by (auto simp: probe_bar_def Let_def pci_ok_def mappings_def granted_def split: if_splits)

lemma probe_bars_extend:
  assumes "distinct is" and "set is \<subseteq> {..<6}" and "pci_ok s"
    and "fold (probe_bar K dev) is (s, l) = (s', l')"
  shows "(\<exists>m. l' = l @ m) \<and> mappings_made l' = mappings_made l + mappings K dev s' is \<and>
    (\<forall>j. j \<notin> set is \<longrightarrow> VirtualBaseAddr s' ! j = VirtualBaseAddr s ! j)"
  using assms
proof (induction "is" arbitrary: s l)
  case Nil
  then show ?case by (simp add: mappings_def)
next
  case (Cons i "is")
  obtain s1 l1 where one: "probe_bar K dev i (s, l) = (s1, l1)" by fastforce
  have i: "i < 6" "i \<notin> set is" using Cons.prems by auto
  note step = probe_bar_extends [OF one Cons.prems(3) i(1)]
  have "fold (probe_bar K dev) is (s1, l1) = (s', l')" using Cons.prems(4) one by simp
  note IH = Cons.IH [OF _ _ _ this]
  have rest: "(\<exists>m. l' = l1 @ m) \<and> mappings_made l' = mappings_made l1 + mappings K dev s' is \<and>
      (\<forall>j. j \<notin> set is \<longrightarrow> VirtualBaseAddr s' ! j = VirtualBaseAddr s1 ! j)"
    by (rule IH) (use Cons.prems(1,2) step in auto)
  have "mappings K dev s1 [i] = mappings K dev s' [i]"
    by (rule mappings_cong) (use rest i(2) in simp)
  then show ?case
    using step rest by (auto simp: mappings_Cons [of _ _ _ i "is"] ac_simps)
qed

lemma probe_log:
  assumes "sample_pci_driver_probe K dev s l = (ret, s', l')" and "pci_ok s"
  shows "(\<exists>m. l' = l @ m) \<and> mappings_made l' = mappings_made l + mappings K dev s' [0..<6]"
proof -
  have "fold (probe_bar K dev) [0..<6] (s, l @ [Pci (Pci_enable_device dev (pci_enable_device K dev))]) = (s', l')"
    using assms(1) by (auto simp: sample_pci_driver_probe_def Let_def split: prod.splits)
  note bars = probe_bars_extend [OF _ _ assms(2) this]
  have "set [0..<6::nat] \<subseteq> {..<6}" by auto
  from bars [OF distinct_upt this] show ?thesis by auto
qed

lemma remove_log:
  "\<exists>m. snd (sample_pci_driver_remove K dev s l) = l @ m \<and> mappings_made m = {#}"
proof -
  have "\<exists>m. fold (remove_bar K dev s) is l = l @ m \<and> mappings_made m = {#}" for "is"
  proof (induction "is" arbitrary: l)
    case (Cons i "is")
    from Cons [of "remove_bar K dev s i l"] show ?case by (auto simp: remove_bar_def)
  qed simp
  from this [of "[0..<6]"] show ?thesis by (auto simp: sample_pci_driver_remove_def)
qed


section \<open>Claims as resources\<close>

lemma regions_bars: "regions dev P [0..<6] = image_mset (Pci_region dev) (mset_set (bars P))"
proof -
  have "mset_set (bars P) = mset (filter P [0..<6])"
    unfolding bars_def by (rule mset_set_set) simp
  then show ?thesis by (simp add: regions_def)
qed

lemma finite_bars [simp]: "finite (bars P)"
  by (simp add: bars_def)

lemma bars_iff [simp]: "i \<in> bars P \<longleftrightarrow> i < 6 \<and> P i"
  by (auto simp: bars_def)

lemma region_part:
  assumes "finite A" and "\<And>i. (dev, i) \<in> A \<longleftrightarrow> i \<in> bars P"
  shows "image_mset (case_prod Pci_region) (mset_set A) =
    image_mset (case_prod Pci_region) (mset_set {x \<in> A. fst x \<noteq> dev}) + regions dev P [0..<6]"
proof -
  have A: "A = {x \<in> A. fst x \<noteq> dev} \<union> Pair dev ` bars P" using assms(2) by force
  have "mset_set A = mset_set {x \<in> A. fst x \<noteq> dev} + mset_set (Pair dev ` bars P)"
    by (subst A, rule mset_set_Union) (use assms(1) in auto)
  moreover have "mset_set (Pair dev ` bars P) = image_mset (Pair dev) (mset_set (bars P))"
    by (simp add: image_mset_mset_set inj_on_def)
  ultimately show ?thesis by (simp add: regions_bars image_mset.compositionality comp_def)
qed

lemma enabled_part:
  assumes "finite B" and "dev \<in> B"
  shows "image_mset Pci_enabled (mset_set {d \<in> B. pci_enable_device K d = 0}) =
    image_mset Pci_enabled (mset_set {d \<in> B - {dev}. pci_enable_device K d = 0}) + enabled K dev"
proof -
  have "{d \<in> B. pci_enable_device K d = 0} = (if pci_enable_device K dev = 0
      then insert dev {d \<in> B - {dev}. pci_enable_device K d = 0} else {d \<in> B - {dev}. pci_enable_device K d = 0})"
    using assms(2) by auto
  then show ?thesis using assms(1) by (simp add: enabled_def)
qed

text \<open>The claims of all cards but one.\<close>

definition but_card :: "pci_dev \<Rightarrow> claims \<Rightarrow> claims" where
  "but_card dev C = C\<lparr>bound := bound C - {dev}, claimed := {x \<in> claimed C. fst x \<noteq> dev}\<rparr>"

lemma but_card_none: 
  "finite (claimed C) \<Longrightarrow> finite (bound C) \<Longrightarrow> none_of dev (claim_resources K (but_card dev C))"
  by (auto simp: none_of_def claim_resources_def but_card_def)

lemma claims_bound:
  assumes "finite (claimed C)" and "finite (bound C)" and "dev \<in> bound C"
    and "\<And>i. (dev, i) \<in> claimed C \<longleftrightarrow> i \<in> bars P"
  shows "claim_resources K C = claim_resources K (but_card dev C) + enabled K dev + regions dev P [0..<6]"
  unfolding claim_resources_def region_part [OF assms(1,4)] enabled_part [OF assms(2,3)]
  by (simp add: but_card_def ac_simps)

lemma claims_unbound:
  assumes "finite (claimed C)" and "dev \<notin> bound C" and "\<And>i. (dev, i) \<in> claimed C \<longleftrightarrow> i \<in> bars P"
  shows "claim_resources K C = claim_resources K (but_card dev C) + regions dev P [0..<6]"
  unfolding claim_resources_def region_part [OF assms(1,3)]
  using assms(2) by (simp add: but_card_def ac_simps)


section \<open>Sessions follow the specification\<close>

definition follows :: "pci_kernel \<Rightarrow> claims \<Rightarrow> pci_session \<Rightarrow> bool" where
  "follows K C S \<longleftrightarrow> length (slots S) = inserted C \<and> bound C = {d. d < length (slots S) \<and> slots S ! d} \<and>
     pci_ok (arrays S) \<and> (\<forall>i<6. iobase (arrays S) ! i = bases C i) \<and> claimed C \<subseteq> {..<inserted C} \<times> {..<6} \<and>
     (\<forall>d\<in>bound C. \<forall>i. (d, i) \<in> claimed C \<longleftrightarrow> i \<in> bars (\<lambda>i. granted K d i \<and> present K d i)) \<and>
     ledger (pci_log S) = Some ({#Driver_reg pci_driver_name#} + claim_resources K C + mappings_made (pci_log S))"

lemma follows_finite: "follows K C S \<Longrightarrow> finite (claimed C) \<and> finite (bound C)"
  by (auto simp: follows_def intro: finite_subset [where B = "{..<inserted C} \<times> {..<6}"])

lemma sample_pci_driver_simps [simp]:
  "pci_id_table sample_pci_driver = pci_ids" "pci_probe sample_pci_driver = sample_pci_driver_probe"
  "pci_remove sample_pci_driver = sample_pci_driver_remove"
  by (simp_all add: sample_pci_driver_def)

lemma insert_follows:
  assumes "follows K C S" and "pci_spec_event M K Insert_card C = Some C'"
  shows "follows K C' (pci_event_step M K Insert_card S)"
proof (cases "M pci_ids (inserted C)")
  case False
  have "claimed C \<subseteq> {..<Suc (inserted C)} \<times> {..<6}" "bound C \<subseteq> {..<inserted C}"
    using assms(1) by (auto simp: follows_def)
  moreover have "claim_resources K (C\<lparr>inserted := n\<rparr>) = claim_resources K C" for n
    by (simp add: claim_resources_def)
  ultimately show ?thesis
    using assms False by (auto simp: follows_def nth_append less_Suc_eq)
next
  case True
  let ?n = "inserted C" and ?P = "\<lambda>i. granted K (inserted C) i \<and> present K (inserted C) i"
  note f = assms(1) [unfolded follows_def]
  have C': "C' = \<lparr>inserted = Suc ?n, bound = insert ?n (bound C), bases = pci_resource_start K ?n,
      claimed = claimed C \<union> Pair ?n ` bars ?P\<rparr>"
    using assms(2) True by (simp add: Let_def)
  obtain ret s l where p: "sample_pci_driver_probe K ?n (arrays S) (pci_log S) = (ret, s, l)" by (metis prod_cases3)
  note acq = pci_probe_acquires [OF p] and made = probe_log [OF p]
  have step: "pci_event_step M K Insert_card S = S\<lparr>arrays := s, pci_log := l, slots := slots S @ [0 \<le> sint ret]\<rparr>"
    using f True p by simp
  have "but_card ?n C' = C\<lparr>inserted := Suc ?n, bases := pci_resource_start K ?n\<rparr>"
  proof -
    have "bound C - {?n} = bound C" using f by auto
    moreover have "{x \<in> claimed C \<union> Pair ?n ` bars ?P. fst x \<noteq> ?n} = claimed C" using f by fastforce
    ultimately show ?thesis by (simp add: but_card_def C')
  qed
  then have same: "claim_resources K (but_card ?n C') = claim_resources K C" by (simp add: claim_resources_def)
  have new: "(?n, i) \<in> claimed C' \<longleftrightarrow> i \<in> bars ?P" for i
  proof -
    have "(?n, i) \<notin> claimed C" using f by auto
    then show ?thesis by (auto simp: C')
  qed
  have "finite (claimed C')" "finite (bound C')" using follows_finite [OF assms(1)] by (auto simp: C')
  from claims_bound [OF this _ new, of K]
  have res: "claim_resources K C' = claim_resources K C + enabled K ?n + regions ?n ?P [0..<6]"
    unfolding same by (simp add: C')
  have "ledger l = Some ({#Driver_reg pci_driver_name#} + claim_resources K C' + mappings_made l)"
    using f acq made unfolding res by (simp add: enabled_def ac_simps)
  moreover have "ret = 0 \<and> pci_ok s \<and> (\<forall>i<6. iobase s ! i = pci_resource_start K ?n i)" using f acq by blast
  moreover have "(d, i) \<in> claimed C' \<longleftrightarrow> (d, i) \<in> claimed C" if "d \<noteq> ?n" for d i using that by (auto simp: C')
  ultimately show ?thesis
    unfolding step using f new by (auto simp: follows_def C' nth_append less_Suc_eq)
qed


text \<open>A card that is bound and goes: the ledger after its remove decides both cases.\<close>

lemma eject_bound:
  assumes "follows K C S" and "d \<in> bound C" and "sample_pci_driver_remove K d (arrays S) (pci_log S) = (s, l)"
  shows "s = arrays S \<and> pci_event_step M K (Eject_card d) S = S\<lparr>pci_log := l, slots := (slots S)[d := False]\<rparr> \<and>
    mappings_made l = mappings_made (pci_log S) \<and>
    ledger l = (if pci_enable_device K d = 0 \<and> bars (\<lambda>i. bases C i \<noteq> 0 \<and> present K d i) \<subseteq> bars (granted K d)
      then Some ({#Driver_reg pci_driver_name#} + claim_resources K (but_card d C) + mappings_made l +
        regions d (\<lambda>i. granted K d i \<and> present K d i \<and> bases C i = 0) [0..<6])
      else None)"
proof -
  let ?P = "\<lambda>i. granted K d i \<and> present K d i"
  let ?R = "{#Driver_reg pci_driver_name#} + claim_resources K (but_card d C) + mappings_made (pci_log S)"
  note f = assms(1) [unfolded follows_def] and fin = follows_finite [OF assms(1)]
  have own: "\<And>i. (d, i) \<in> claimed C \<longleftrightarrow> i \<in> bars ?P" using f assms(2) by blast
  have s: "s = arrays S" using assms(3) by (simp add: sample_pci_driver_remove_def)
  have made: "mappings_made l = mappings_made (pci_log S)"
    using remove_log [of K d "arrays S" "pci_log S"] assms(3) by auto
  have "none_of d (mappings_made m)" for m
    by (induction m) (auto simp: none_of_def mappings_made_def split: kcall.splits mem_call.splits)
  then have none: "none_of d ?R" using but_card_none [of C d K] fin by (simp add: none_of_def)
  have l: "ledger (pci_log S) = Some (?R + enabled K d + regions d ?P [0..<6])"
    using f claims_bound [OF _ _ assms(2) own, of K] fin by (simp add: ac_simps)
  have kept: "regions d (\<lambda>i. ?P i \<and> \<not> (iobase (arrays S) ! i \<noteq> 0 \<and> present K d i)) [0..<6] =
      regions d (\<lambda>i. granted K d i \<and> present K d i \<and> bases C i = 0) [0..<6]"
    unfolding regions_def using f by (intro arg_cong [where f = mset] map_cong filter_cong) auto
  have ok: "(\<forall>i<6. iobase (arrays S) ! i \<noteq> 0 \<and> present K d i \<longrightarrow> ?P i) \<longleftrightarrow>
      bars (\<lambda>i. bases C i \<noteq> 0 \<and> present K d i) \<subseteq> bars (granted K d)"
    using f by auto
  have "d < length (slots S) \<and> slots S ! d" using f assms(2) by auto
  then show ?thesis
    using pci_remove_ledger [OF l none, of "arrays S"] assms(3) s made unfolding kept ok
    by (simp add: ac_simps)
qed

lemma eject_follows:
  assumes "follows K C S" and "pci_spec_event M K (Eject_card d) C = Some C'"
  shows "follows K C' (pci_event_step M K (Eject_card d) S)"
proof (cases "d \<in> bound C")
  case False
  then show ?thesis using assms by (auto simp: follows_def)
next
  case True
  let ?P = "\<lambda>i. granted K d i \<and> present K d i \<and> bases C i = 0"
  note f = assms(1) [unfolded follows_def] and fin = follows_finite [OF assms(1)]
  obtain s l where r: "sample_pci_driver_remove K d (arrays S) (pci_log S) = (s, l)" by fastforce
  note ej = eject_bound [OF assms(1) True r, of M]
  have good: "pci_enable_device K d = 0 \<and> bars (\<lambda>i. bases C i \<noteq> 0 \<and> present K d i) \<subseteq> bars (granted K d)"
    and C': "C' = C\<lparr>bound := bound C - {d}, claimed := claimed C - Pair d ` bars (\<lambda>i. bases C i \<noteq> 0)\<rparr>"
    using assms(2) True by (auto split: if_splits)
  have own: "(d, i) \<in> claimed C' \<longleftrightarrow> i \<in> bars ?P" for i
    using f True unfolding C' by auto
  have other: "(e, i) \<in> claimed C' \<longleftrightarrow> (e, i) \<in> claimed C" if "e \<noteq> d" for e i
    using that by (auto simp: C')
  have "{x \<in> claimed C'. fst x \<noteq> d} = {x \<in> claimed C. fst x \<noteq> d}"
    using other by auto
  then have "but_card d C' = but_card d C"
    by (simp add: but_card_def C')
  then have "claim_resources K C' = claim_resources K (but_card d C) + regions d ?P [0..<6]"
    using claims_unbound [of C' d, OF _ _ own, of K] fin by (simp add: C')
  then have "ledger l = Some ({#Driver_reg pci_driver_name#} + claim_resources K C' + mappings_made l)"
    using ej good by (simp add: ac_simps)
  moreover have "bound C' = {e. e < length ((slots S)[d := False]) \<and> (slots S)[d := False] ! e}"
  proof -
    have "d < length (slots S)" using f True by auto
    then have "(slots S)[d := False] ! e \<longleftrightarrow> e \<noteq> d \<and> slots S ! e" for e by (cases "e = d") simp_all
    then show ?thesis using f by (auto simp: C')
  qed
  moreover have "claimed C' \<subseteq> {..<inserted C'} \<times> {..<6}" using f by (auto simp: C')
  moreover have "\<forall>e \<in> bound C'. \<forall>i. (e, i) \<in> claimed C' \<longleftrightarrow> i \<in> bars (\<lambda>i. granted K e i \<and> present K e i)"
    using f other by (auto simp: C')
  ultimately show ?thesis
    using ej f by (simp add: follows_def C')
qed

text \<open>A wrong release is never made good.\<close>

lemma probe_bars_log: "\<exists>m. snd (fold (probe_bar K dev) is sl) = snd sl @ m"
proof (induction "is" arbitrary: sl)
  case (Cons i "is")
  have "\<exists>m. snd (probe_bar K dev i sl) = snd sl @ m"
    by (cases sl) (auto simp: probe_bar_def Let_def)
  then show ?case using Cons [of "probe_bar K dev i sl"] by auto
qed simp

lemma event_log: "\<exists>m. pci_log (pci_event_step M K e S) = pci_log S @ m"
proof (cases e)
  case Insert_card
  show ?thesis
    using probe_bars_log [of K "length (slots S)" "[0..<6]" "(arrays S, pci_log S @ [Pci (Pci_enable_device (length (slots S)) (pci_enable_device K (length (slots S))))])"]
    by (auto simp: Insert_card sample_pci_driver_probe_def Let_def split: prod.splits)
next
  case (Eject_card d)
  show ?thesis
    using remove_log [of K d "arrays S" "pci_log S"] by (auto simp: Eject_card split: prod.splits)
qed

lemma run_None: "ledger (pci_log S) = None \<Longrightarrow> ledger (pci_log (pci_run M K es S)) = None"
  unfolding pci_run_def
proof (induction es arbitrary: S)
  case (Cons e es)
  obtain m where "pci_log (pci_event_step M K e S) = pci_log S @ m" using event_log by blast
  with Cons show ?case by (simp add: ledger_None_append)
qed simp

lemma event_breaks:
  assumes "follows K C S" and "pci_spec_event M K e C = None"
  shows "ledger (pci_log (pci_event_step M K e S)) = None"
proof (cases e)
  case Insert_card
  with assms(2) show ?thesis by (simp add: Let_def)
next
  case (Eject_card d)
  obtain s l where r: "sample_pci_driver_remove K d (arrays S) (pci_log S) = (s, l)" by fastforce
  have d: "d \<in> bound C" using assms(2) Eject_card by (auto split: if_splits)
  show ?thesis
    using eject_bound [OF assms(1) d r, of M] assms(2) Eject_card d by (auto split: if_splits)
qed

lemma event_follows:
  "follows K C S \<Longrightarrow> pci_spec_event M K e C = Some C' \<Longrightarrow> follows K C' (pci_event_step M K e S)"
  by (cases e) (use insert_follows eject_follows in blast)+

lemma run_follows:
  assumes "follows K C S"
  shows "case pci_spec M K es C of None \<Rightarrow> ledger (pci_log (pci_run M K es S)) = None
    | Some C' \<Rightarrow> follows K C' (pci_run M K es S)"
  using assms
proof (induction es arbitrary: C S)
  case Nil
  then show ?case by (simp add: pci_run_def)
next
  case (Cons e es)
  have run: "pci_run M K (e # es) S = pci_run M K es (pci_event_step M K e S)" by (simp add: pci_run_def)
  show ?case
  proof (cases "pci_spec_event M K e C")
    case None
    then show ?thesis using run_None [OF event_breaks [OF Cons.prems None]] by (simp add: run)
  next
    case (Some C')
    show ?thesis using Cons.IH [OF event_follows [OF Cons.prems Some]] unfolding run by (simp add: Some)
  qed
qed

lemma load_follows:
  "pci_register_driver K [] = 0 \<Longrightarrow> follows K no_claims (pci_load K)"
  using ledger_snoc [of "[]"]
  by (simp add: follows_def no_claims_def pci_load_def pci_driver_module_init_def Let_def claim_resources_def
      effect_simps pci_image_def pci_ok_def)

lemma spec_ejects: "pci_spec M K (map Eject_card ds) C = Some C' \<Longrightarrow> bound C' = bound C - set ds"
  by (induction ds arbitrary: C) (auto split: if_splits bind_splits)

lemma spec_append: "pci_spec M K (es @ fs) C = Option.bind (pci_spec M K es C) (pci_spec M K fs)"
  by (induction es arbitrary: C) (simp_all split: bind_splits)


section \<open>Property\<close>

text \<open>C16: what a session of inserting and ejecting cards holds is decided by the last card probed.
  The ledger of the session, and of the session followed by unloading, has a wrong release
  exactly when the specification refuses an eject: the card could not be enabled, or a BAR
  of it that was not granted has a base in the last card. Otherwise it holds the registration,
  the cards enabled, the regions that the specification has claimed, and every mapping that
  was ever made. After unloading what is still claimed stays claimed.\<close>

theorem pci_session_claims:
  assumes "pci_register_driver K [] = 0"
  shows "case pci_spec M K es no_claims of
      None \<Rightarrow> ledger (pci_log (pci_run M K es (pci_load K))) = None
    | Some C \<Rightarrow>
        (let S = pci_run M K es (pci_load K); T = pci_unload M K S
         in ledger (pci_log S) = Some ({#Driver_reg pci_driver_name#} + claim_resources K C + mappings_made (pci_log S)) \<and>
            ledger (pci_log T) =
              (case pci_spec M K (map Eject_card (rev [0..<inserted C])) C of
                 None \<Rightarrow> None
               | Some D \<Rightarrow> Some (image_mset (case_prod Pci_region) (mset_set (claimed D)) + mappings_made (pci_log T))))"
proof (cases "pci_spec M K es no_claims")
  case None
  with run_follows [OF load_follows [OF assms], of M es] show ?thesis by simp
next
  case (Some C)
  let ?S = "pci_run M K es (pci_load K)" and ?ds = "rev [0..<inserted C]"
  let ?T = "pci_run M K (map Eject_card ?ds) ?S"
  have f: "follows K C ?S" using run_follows [OF load_follows [OF assms], of M es] Some by simp
  then have n: "length (slots ?S) = inserted C" and b: "bound C \<subseteq> set ?ds" by (auto simp: follows_def)
  have T: "pci_log (pci_unload M K ?S) = pci_log ?T @ [Bus (Driver_unregister pci_driver_name)]"
    by (simp add: pci_unload_def pci_driver_module_exit_def n Let_def)
  have "ledger (pci_log (pci_unload M K ?S)) = None" if "pci_spec M K (map Eject_card ?ds) C = None"
    using run_follows [OF f, of M "map Eject_card ?ds"] that by (simp add: T)
  moreover have "ledger (pci_log (pci_unload M K ?S)) =
      Some (image_mset (case_prod Pci_region) (mset_set (claimed D)) + mappings_made (pci_log ?T))"
    if D: "pci_spec M K (map Eject_card ?ds) C = Some D" for D
  proof -
    have "bound D = {}" using spec_ejects [OF D] b by auto
    then have "claim_resources K D = image_mset (case_prod Pci_region) (mset_set (claimed D))"
      by (simp add: claim_resources_def)
    moreover have "follows K D ?T" using run_follows [OF f, of M "map Eject_card ?ds"] D by simp
    ultimately show ?thesis by (simp add: T follows_def)
  qed
  moreover have "mappings_made (pci_log (pci_unload M K ?S)) = mappings_made (pci_log ?T)" by (simp add: T)
  ultimately show ?thesis
    using f by (simp add: Some Let_def follows_def split: option.splits)
qed

text \<open>
  Two cards: device 1 with only BAR 0, device 2 with only BAR 1, after a device 0 without any.
  Device 1 is taken out first.
\<close>

definition three_cards :: "pci_event list" where
  "three_cards = [Insert_card, Insert_card, Insert_card, Eject_card 1]"

lemma three_cards_spec:
  "\<exists>C. pci_spec (\<lambda>t d. True) two_cards three_cards no_claims = Some C \<and> inserted C = 3 \<and>
     (\<exists>D. pci_spec (\<lambda>t d. True) two_cards (map Eject_card (rev [0..<3])) C = Some D \<and> claimed D = {(1, 0)})"
  by (simp add: three_cards_def no_claims_def Let_def two_cards_def kernel.defs granted_def present_def bars_def upt6
      upt_rec) auto

theorem pci_session_claims_witness:
  "\<exists>R. ledger (pci_log (pci_unload (\<lambda>t d. True) two_cards
     (pci_run (\<lambda>t d. True) two_cards three_cards (pci_load two_cards)))) = Some (add_mset (Pci_region 1 0) R)"
proof -
  obtain C D where "pci_spec (\<lambda>t d. True) two_cards three_cards no_claims = Some C" "inserted C = 3"
    "pci_spec (\<lambda>t d. True) two_cards (map Eject_card (rev [0..<3])) C = Some D" "claimed D = {(1, 0)}"
    using three_cards_spec by blast
  moreover have "pci_register_driver two_cards [] = 0" by (simp add: two_cards_def kernel.defs)
  ultimately show ?thesis
    using pci_session_claims [of two_cards "\<lambda>t d. True" three_cards] by (auto simp: Let_def)
qed

end
