(* ===== verification/Usb_Driver.thy ===== *)
theory Usb_Driver
  imports Module_Lifecycle
begin

text \<open>
  The USB pen driver of \<open>day_09/ex23.c\<close>. The USB core is a parameter: a bulk transfer in
  yields a status, a count and the bytes that arrived, a transfer out takes the bytes and
  yields a status and a count. The transfers made are recorded in \<open>transfers\<close>. The driver
  keeps one device, one class and one transfer buffer for all the pens it is bound to.
\<close>

section \<open>State\<close>

definition BULK_EP_OUT :: byte where "BULK_EP_OUT = 0x01"
definition BULK_EP_IN :: byte where "BULK_EP_IN = 0x82"
definition MAX_PKT_SIZE :: nat where "MAX_PKT_SIZE = 512"

definition MIN_size :: "size_t \<Rightarrow> size_t \<Rightarrow> size_t" where
  "MIN_size a b = (if a \<le> b then a else b)"

datatype transfer = Bulk_in ptr byte "byte list" | Bulk_out ptr byte "byte list"

record endpoint_descriptor =
  bEndpointAddress :: byte
  bmAttributes :: byte
  wMaxPacketSize :: "16 word"

record usb_interface =
  bInterfaceNumber :: byte
  bNumEndpoints :: byte
  bInterfaceClass :: byte
  endpoint :: "endpoint_descriptor list"
  usbdev :: ptr

datatype usb_message = Now_probed byte | Num_endpoints byte | Interface_class byte
  | Endpoint nat endpoint_descriptor | No_minor | Minor_obtained | Now_disconnected byte

record usb_state =
  device :: ptr
  class_name :: string
  bulk_buf :: "byte list"
  transfers :: "transfer list"
  printed :: "usb_message list"

definition usb_image :: usb_state where
  "usb_image = \<lparr>device = 0, class_name = [], bulk_buf = replicate MAX_PKT_SIZE 0, transfers = [], printed = []\<rparr>"

text \<open>The address of a static object is not null; which one it is does not matter.\<close>

definition static_addr :: ptr where "static_addr = 1"

record usb_kernel =
  bulk_in :: "ptr \<Rightarrow> byte \<Rightarrow> transfer list \<Rightarrow> nat \<Rightarrow> c_int \<times> c_int \<times> byte list"
  bulk_out :: "ptr \<Rightarrow> byte \<Rightarrow> transfer list \<Rightarrow> byte list \<Rightarrow> c_int \<times> c_int"
  usb_register_dev :: "klog \<Rightarrow> c_int"
  usb_register :: "klog \<Rightarrow> c_int"

text \<open>
  Documented: after status 0 the count is the number of bytes transferred, at most the
  length asked for.
\<close>

definition usb_ok :: "usb_kernel \<Rightarrow> bool" where
  "usb_ok K \<longleftrightarrow>
     (\<forall>d e t n ret c bs. bulk_in K d e t n = (ret, c, bs) \<longrightarrow>
        length bs \<le> n \<and> (ret = 0 \<longrightarrow> unat c = length bs)) \<and>
     (\<forall>d e t bs ret c. bulk_out K d e t bs = (ret, c) \<longrightarrow> ret = 0 \<longrightarrow> unat c \<le> length bs)"

section \<open>File operations\<close>

definition pen_drive_open :: "usb_state \<Rightarrow> c_int \<times> usb_state" where
  "pen_drive_open s = (0, s)"

definition pen_drive_close :: "usb_state \<Rightarrow> c_int \<times> usb_state" where
  "pen_drive_close s = (0, s)"

definition pen_drive_read ::
    "usb_kernel \<Rightarrow> uaccess \<Rightarrow> ptr \<Rightarrow> size_t \<Rightarrow> usb_state \<Rightarrow> (ssize_t \<times> byte list \<times> usb_state) outcome" where
  "pen_drive_read K U buf cnt s =
     (let (retval, read_cnt, bs) = bulk_in K (device s) BULK_EP_IN (transfers s) MAX_PKT_SIZE;
          s = s\<lparr>bulk_buf := put_at 0 bs (bulk_buf s), transfers := transfers s @ [Bulk_in (device s) BULK_EP_IN bs]\<rparr>
      in if retval \<noteq> 0 then Ret (scast retval, [], s)
         else obind (copy_out U buf static_addr (bulk_buf s) 0 (MIN_size cnt (scast read_cnt)))
           (\<lambda>(left, out). if left \<noteq> 0 then Ret (- EFAULT, out, s) else Ret (MIN_size cnt (scast read_cnt), out, s)))"

definition pen_drive_write ::
    "usb_kernel \<Rightarrow> uaccess \<Rightarrow> ptr \<Rightarrow> size_t \<Rightarrow> usb_state \<Rightarrow> (ssize_t \<times> usb_state) outcome" where
  "pen_drive_write K U buf cnt s =
     obind (copy_in U buf static_addr (bulk_buf s) 0 (MIN_size cnt (of_nat MAX_PKT_SIZE)))
       (\<lambda>(left, m).
          let s = s\<lparr>bulk_buf := m\<rparr>
          in if left \<noteq> 0 then Ret (- EFAULT, s)
             else let data = get_at 0 (unat (MIN_size cnt (of_nat MAX_PKT_SIZE))) (bulk_buf s);
                      (retval, wrote_cnt) = bulk_out K (device s) BULK_EP_OUT (transfers s) data;
                      s = s\<lparr>transfers := transfers s @
                        [Bulk_out (device s) BULK_EP_OUT (take (unat wrote_cnt) data)]\<rparr>
                  in if retval \<noteq> 0 then Ret (scast retval, s) else Ret (scast wrote_cnt, s))"

section \<open>Probe and disconnect\<close>

definition usb_printk :: "usb_message list \<Rightarrow> usb_state \<Rightarrow> usb_state" where
  "usb_printk ms s = s\<lparr>printed := printed s @ ms\<rparr>"

text \<open>The loop over \<open>endpoint[i]\<close>; reading past the end of the array is a fault.\<close>

fun print_endpoints :: "usb_interface \<Rightarrow> nat \<Rightarrow> nat \<Rightarrow> usb_state \<Rightarrow> usb_state outcome" where
  "print_endpoints f i 0 s = Ret s"
| "print_endpoints f i (Suc n) s =
     (if i < length (endpoint f) then print_endpoints f (Suc i) n (usb_printk [Endpoint i (endpoint f ! i)] s)
      else Fault OutOfBounds)"

definition sample_usb_driver_probe ::
    "usb_kernel \<Rightarrow> usb_interface \<Rightarrow> usb_state \<Rightarrow> klog \<Rightarrow> (c_int \<times> usb_state \<times> klog) outcome" where
  "sample_usb_driver_probe K f s l =
     obind (print_endpoints f 0 (unat (bNumEndpoints f))
         (usb_printk [Now_probed (bInterfaceNumber f), Num_endpoints (bNumEndpoints f),
            Interface_class (bInterfaceClass f)] s))
       (\<lambda>s. let s = s\<lparr>device := usbdev f\<rparr>;
                s = s\<lparr>class_name := ''usb/pen%d''\<rparr>;
                retval = usb_register_dev K l;
                l = l @ [Bus (Device_register (class_name s) retval)]
            in if sint retval < 0 then Ret (retval, usb_printk [No_minor] s, l)
               else Ret (retval, usb_printk [Minor_obtained] s, l))"

definition sample_usb_driver_remove :: "usb_interface \<Rightarrow> usb_state \<Rightarrow> klog \<Rightarrow> usb_state \<times> klog" where
  "sample_usb_driver_remove f s l =
     (usb_printk [Now_disconnected (bInterfaceNumber f)] s, l @ [Bus (Device_unregister (class_name s))])"

definition usb_driver_module_init :: "usb_kernel \<Rightarrow> usb_state \<Rightarrow> klog \<Rightarrow> c_int \<times> usb_state \<times> klog" where
  "usb_driver_module_init K s l =
     (let ret = usb_register K l in (ret, s, l @ [Bus (Driver_register ''usb sample driver'' ret)]))"

definition usb_driver_module_exit :: "usb_state \<Rightarrow> klog \<Rightarrow> usb_state \<times> klog" where
  "usb_driver_module_exit s l = (s, l @ [Bus (Driver_unregister ''usb sample driver'')])"

interpretation ex23_mod: loadable_module usb_driver_module_init usb_driver_module_exit
    "\<lambda>_. {#Driver_reg ''usb sample driver''#}"
  by unfold_locales (auto simp: usb_driver_module_init_def usb_driver_module_exit_def Let_def effect_simps)

section \<open>Reading and writing a pen\<close>

definition usb_wf :: "usb_state \<Rightarrow> bool" where
  "usb_wf s \<longleftrightarrow> length (bulk_buf s) = MAX_PKT_SIZE"

lemma usb_wf_image [simp]: "usb_wf usb_image"
  by (simp add: usb_wf_def usb_image_def)

lemma unat_MIN_size: "unat (MIN_size a b) = min (unat a) (unat b)"
  by (simp add: MIN_size_def word_le_nat_alt min_def)

lemma usb_in_bounds: "usb_ok K \<Longrightarrow> bulk_in K d e t n = (ret, c, bs) \<Longrightarrow> length bs \<le> n \<and> (ret = 0 \<longrightarrow> unat c = length bs)"
  unfolding usb_ok_def by blast

lemma usb_out_bounds: "usb_ok K \<Longrightarrow> bulk_out K d e t bs = (0, c) \<Longrightarrow> unat c \<le> length bs"
  unfolding usb_ok_def by blast

text \<open>The bytes that went out to the pens, in order.\<close>

fun sent :: "transfer list \<Rightarrow> byte list" where
  "sent [] = []"
| "sent (Bulk_out d e bs # ts) = bs @ sent ts"
| "sent (Bulk_in d e bs # ts) = sent ts"

lemma sent_append [simp]: "sent (ts @ us) = sent ts @ sent us"
  by (induction ts rule: sent.induct) auto

lemma user_bytes_add: "user_bytes U p (m + k) = user_bytes U p m @ user_bytes U (p + of_nat m) k"
  by (rule nth_equalityI) (auto simp: user_bytes_def nth_append ac_simps)

text \<open>A write whose copy is complete, and what it puts on the wire.\<close>

lemma pen_write_step:
  assumes "usb_ok K" and "uaccess_ok U" and "\<forall>p n. fst (copy_from_user U p n) = 0" and "usb_wf s"
    and "m = min (unat cnt) MAX_PKT_SIZE"
    and "bulk_out K (device s) BULK_EP_OUT (transfers s) (user_bytes U p m) = (ret, w)"
  shows "pen_drive_write K U p cnt s =
    Ret (if ret = 0 then scast w else scast ret, s\<lparr>bulk_buf := put_at 0 (user_bytes U p m) (bulk_buf s),
      transfers := transfers s @ [Bulk_out (device s) BULK_EP_OUT (take (unat w) (user_bytes U p m))]\<rparr>)"
proof -
  let ?n = "MIN_size cnt (of_nat MAX_PKT_SIZE)"
  have n: "unat ?n = m" using assms(5) by (simp add: unat_MIN_size MAX_PKT_SIZE_def)
  have m: "m \<le> length (bulk_buf s)" using assms(4,5) by (simp add: usb_wf_def)
  have "copy_from_user U p ?n = (0, user_bytes U p m)"
    using copy_from_user_data [OF assms(2), of p ?n] assms(3) n by (simp add: prod_eq_iff)
  then have cp: "copy_in U p static_addr (bulk_buf s) 0 ?n = Ret (0, put_at 0 (user_bytes U p m) (bulk_buf s))"
    using m by (simp add: copy_in_def obj_check_def static_addr_def n)
  have "get_at 0 m (put_at 0 (user_bytes U p m) (bulk_buf s)) = user_bytes U p m"
    using m by (intro get_put_same) simp_all
  then show ?thesis using assms(6) by (simp add: pen_drive_write_def cp n Let_def)
qed

lemma usb_wf_write:
  "usb_wf s \<Longrightarrow> m \<le> MAX_PKT_SIZE \<Longrightarrow>
   usb_wf (s\<lparr>bulk_buf := put_at 0 (user_bytes U p m) (bulk_buf s), transfers := ts\<rparr>)"
  by (simp add: usb_wf_def length_put_at)

text \<open>
  A user program that writes \<open>n\<close> bytes from \<open>p\<close>, going on after each short write. The fuel
  is enough when it exceeds \<open>n\<close>.
\<close>

fun write_loop :: "nat \<Rightarrow> usb_kernel \<Rightarrow> uaccess \<Rightarrow> ptr \<Rightarrow> size_t \<Rightarrow> usb_state \<Rightarrow> usb_state option" where
  "write_loop 0 K U p n s = None"
| "write_loop (Suc fuel) K U p n s =
     (if n = 0 then Some s
      else case pen_drive_write K U p n s of
             Ret (r, s) \<Rightarrow> if sint r \<le> 0 then None else write_loop fuel K U (p + r) (n - r) s
           | _ \<Rightarrow> None)"

lemma write_loop_sends:
  assumes "usb_ok K" and "uaccess_ok U" and "\<forall>p n. fst (copy_from_user U p n) = 0"
    and "\<forall>d e t bs. bs \<noteq> [] \<longrightarrow> fst (bulk_out K d e t bs) = 0 \<and> snd (bulk_out K d e t bs) \<noteq> 0"
  shows "usb_wf s \<Longrightarrow> unat n < fuel \<Longrightarrow>
    \<exists>t. write_loop fuel K U p n s = Some t \<and> device t = device s \<and> usb_wf t \<and>
      sent (transfers t) = sent (transfers s) @ user_bytes U p (unat n)"
proof (induction fuel arbitrary: p n s)
  case 0
  then show ?case by simp
next
  case (Suc fuel)
  show ?case
  proof (cases "n = 0")
    case True
    then show ?thesis using Suc.prems(1) by (simp add: user_bytes_def)
  next
    case False
    let ?m = "min (unat n) MAX_PKT_SIZE"
    let ?data = "user_bytes U p ?m"
    have m: "0 < ?m" using False by (simp add: MAX_PKT_SIZE_def unat_gt_0)
    obtain w where out: "bulk_out K (device s) BULK_EP_OUT (transfers s) ?data = (0, w)" and "w \<noteq> 0"
      using assms(4) m by (metis length_0_conv length_user_bytes less_not_refl2 prod.collapse)
    have w: "0 < unat w" "unat w \<le> ?m"
      using \<open>w \<noteq> 0\<close> usb_out_bounds [OF assms(1) out] by (simp_all add: unat_gt_0)
    let ?s = "s\<lparr>bulk_buf := put_at 0 ?data (bulk_buf s),
      transfers := transfers s @ [Bulk_out (device s) BULK_EP_OUT (take (unat w) ?data)]\<rparr>"
    have wr: "pen_drive_write K U p n s = Ret (scast w, ?s)"
      using pen_write_step [OF assms(1-3) Suc.prems(1) refl out] by simp
    have r: "unat (scast w :: 64 word) = unat w" using w by (intro scast_nat_pos) (simp add: MAX_PKT_SIZE_def)
    then have "sint (scast w :: 64 word) = int (unat w)" using w by (subst sint_small) (simp_all add: MAX_PKT_SIZE_def)
    then have pos: "\<not> sint (scast w :: 64 word) \<le> 0" using w(1) by linarith
    have left: "unat (n - scast w) = unat n - unat w" using r w(2) by (simp add: unat_sub word_le_nat_alt)
    have "usb_wf ?s" using usb_wf_write [OF Suc.prems(1)] by simp
    moreover have "unat (n - scast w) < fuel" using left w Suc.prems(2) by (simp only: left)
    ultimately obtain t where t: "write_loop fuel K U (p + scast w) (n - scast w) ?s = Some t"
      "device t = device s" "usb_wf t"
      "sent (transfers t) = sent (transfers ?s) @ user_bytes U (p + scast w) (unat n - unat w)"
      using Suc.IH [of ?s "n - scast w" "p + scast w"] left by auto
    have "take (unat w) ?data @ user_bytes U (p + scast w) (unat n - unat w) = user_bytes U p (unat n)"
      using user_bytes_add [of U p "unat w" "unat n - unat w"] w word_of_unat_eq [OF r]
      by (simp add: take_user_bytes)
    then show ?thesis using False wr pos t by simp
  qed
qed


text \<open>A pen that takes at most 100 bytes per transfer and sends its address.\<close>

definition slow_pen :: usb_kernel where
  "slow_pen = \<lparr>bulk_in = (\<lambda>d e t n. (0, of_nat (min n 8), replicate (min n 8) (ucast d))),
     bulk_out = (\<lambda>d e t bs. (0, of_nat (min 100 (length bs)))),
     usb_register_dev = (\<lambda>l. if l = [] then 0 else - ENOMEM), usb_register = (\<lambda>l. 0)\<rparr>"

lemma slow_pen_ok: "usb_ok slow_pen"
proof -
  have "unat (of_nat (min n 8) :: c_int) = min n 8" "unat (of_nat (min 100 n) :: c_int) = min 100 n" for n
    by (subst unat_of_nat, simp)+
  then show ?thesis by (simp add: usb_ok_def slow_pen_def)
qed


lemma pen_read_step:
  fixes cnt p
  assumes "usb_ok K" and "uaccess_ok U" and "length (bulk_buf s) = 512"
    and "bulk_in K (device s) BULK_EP_IN (transfers s) 512 = (ret, c, bs)"
  defines "out \<equiv> copy_to_user U p (take (unat cnt) bs)"
    and "t \<equiv> s\<lparr>bulk_buf := put_at 0 bs (bulk_buf s), transfers := transfers s @ [Bulk_in (device s) BULK_EP_IN bs]\<rparr>"
  shows "pen_drive_read K U p cnt s =
      (if ret \<noteq> 0 then Ret (scast ret, [], t)
       else if fst out \<noteq> 0 then Ret (- EFAULT, snd out, t)
       else Ret (of_nat (min (unat cnt) (length bs)), take (unat cnt) bs, t)) \<and>
    length (bulk_buf t) = 512"
proof -
  have bs: "length bs \<le> 512" "ret = 0 \<Longrightarrow> unat c = length bs"
    using usb_in_bounds [OF assms(1,4)] by auto
  then have len: "length (bulk_buf t) = 512" using assms(3) by (simp add: t_def length_put_at)
  have eq: "pen_drive_read K U p cnt s =
    (if ret \<noteq> 0 then Ret (scast ret, [], t)
     else obind (copy_out U p static_addr (bulk_buf t) 0 (MIN_size cnt (scast c)))
       (\<lambda>(left, out). if left \<noteq> 0 then Ret (- EFAULT, out, t) else Ret (MIN_size cnt (scast c), out, t)))"
    using assms(4) unfolding t_def by (simp add: pen_drive_read_def MAX_PKT_SIZE_def Let_def)
  show ?thesis
  proof (cases "ret = 0")
    case False
    then show ?thesis using eq len by simp
  next
    case True
    let ?n = "MIN_size cnt (scast c)"
    let ?k = "min (unat cnt) (length bs)"
    have n: "unat ?n = ?k" using bs True scast_nat_pos [of c] by (simp add: unat_MIN_size)
    have "get_at 0 ?k (bulk_buf t) = take ?k bs"
      using bs(1) assms(3) by (simp add: t_def get_put_prefix)
    also have "\<dots> = take (unat cnt) bs" by (simp add: min_def)
    finally have get: "get_at 0 ?k (bulk_buf t) = take (unat cnt) bs" .
    have "?k \<le> 512" using bs(1) by simp
    then have "obj_check static_addr (bulk_buf t) 0 ?k = None"
      using len unfolding obj_check_None by (simp add: static_addr_def)
    then have cp: "copy_out U p static_addr (bulk_buf t) 0 ?n = Ret out"
      by (simp only: copy_out_def n get out_def option.case)
    have "fst out = 0 \<Longrightarrow> snd out = take (unat cnt) bs"
      using copy_to_user_data [OF assms(2), of p "take (unat cnt) bs"] by (simp add: out_def min_def split: if_splits)
    then show ?thesis using eq cp len True word_of_unat_eq [OF n] by (cases out) simp
  qed
qed

text \<open>One read of a pen. Whatever the counts, the copy stays inside the 512 bytes of the
  transfer buffer. The user gets the start of what the pen has sent, at most \<open>cnt\<close> bytes of
  it; the rest is in no later read, since each starts a transfer of its own. A failed copy
  loses the whole transfer.\<close>

lemma usb_read_result:
  assumes "usb_ok K" and "uaccess_ok U" and "length (bulk_buf s) = 512"
    and "bulk_in K (device s) BULK_EP_IN (transfers s) 512 = (ret, c, bs)"
  shows "let out = copy_to_user U p (take (unat cnt) bs);
      t = s\<lparr>bulk_buf := put_at 0 bs (bulk_buf s), transfers := transfers s @ [Bulk_in (device s) BULK_EP_IN bs]\<rparr>
    in pen_drive_read K U p cnt s =
        (if ret \<noteq> 0 then Ret (scast ret, [], t)
         else if fst out \<noteq> 0 then Ret (- EFAULT, snd out, t)
         else Ret (of_nat (min (unat cnt) (length bs)), take (unat cnt) bs, t)) \<and>
      length (bulk_buf t) = 512"
  unfolding Let_def by (rule pen_read_step [OF assms])

lemma usb_read_result_witness:
  "\<exists>t. pen_drive_read slow_pen (mapped_uaccess ucast) 0 3 (usb_image\<lparr>device := 7\<rparr>) = Ret (3, [7, 7, 7], t) \<and>
     transfers t = [Bulk_in 7 BULK_EP_IN (replicate 8 7)]"
proof -
  define s where "s = usb_image\<lparr>device := 7\<rparr>"
  define U where "U = mapped_uaccess ucast"
  have s: "length (bulk_buf s) = 512" "transfers s = []"
    by (simp_all add: s_def usb_image_def MAX_PKT_SIZE_def)
  have "bulk_in slow_pen (device s) BULK_EP_IN (transfers s) 512 = (0, 8, replicate 8 7)"
    by (simp add: slow_pen_def s_def)
  note r = usb_read_result [OF slow_pen_ok mapped_uaccess_ok [of ucast, folded U_def] s(1) this, of 0 3]
  have "copy_to_user U 0 [7, 7, 7] = (0, [7, 7, 7])" by (simp add: U_def mapped_uaccess_def)
  moreover have "take 3 (replicate 8 7) = [7, 7, 7 :: byte]" by (simp add: eval_nat_numeral)
  ultimately have "\<exists>t. pen_drive_read slow_pen U 0 3 s = Ret (3, [7, 7, 7], t) \<and>
      transfers t = [Bulk_in (device s) BULK_EP_IN (replicate 8 7)]"
    using r by (simp add: Let_def s(2) del: take_replicate)
  then show ?thesis unfolding U_def s_def by simp
qed

text \<open>A probe sets the one global device before it registers the interface and keeps it
  when the registration fails. From then on the file of a pen bound earlier reads from and
  writes to the interface that was refused.\<close>

lemma usb_failed_probe_redirects:
  assumes "unat (bNumEndpoints f) \<le> length (endpoint f)" and "sint (usb_register_dev K l) < 0"
    and "ledger l = Some R"
  shows "\<exists>t l'. sample_usb_driver_probe K f s l = Ret (usb_register_dev K l, t, l') \<and> ledger l' = Some R \<and>
    device t = usbdev f \<and> bulk_buf t = bulk_buf s \<and> transfers t = transfers s \<and>
    (\<forall>U p cnt r out u. pen_drive_read K U p cnt t = Ret (r, out, u) \<longrightarrow>
       (\<exists>bs. transfers u = transfers s @ [Bulk_in (usbdev f) BULK_EP_IN bs]))"
proof -
  have loop: "i + n \<le> length (endpoint f) \<Longrightarrow> \<exists>t. print_endpoints f i n s = Ret t \<and> bulk_buf t = bulk_buf s \<and>
      transfers t = transfers s" for i n and s :: usb_state
    by (induction f i n s rule: print_endpoints.induct) (auto simp: usb_printk_def)
  let ?s = "usb_printk [Now_probed (bInterfaceNumber f), Num_endpoints (bNumEndpoints f), Interface_class (bInterfaceClass f)] s"
  obtain s1 where s1: "print_endpoints f 0 (unat (bNumEndpoints f)) ?s = Ret s1"
    "bulk_buf s1 = bulk_buf s" "transfers s1 = transfers s"
    using loop [of 0 "unat (bNumEndpoints f)" ?s] assms(1) by (auto simp: usb_printk_def)
  have nz: "usb_register_dev K l \<noteq> 0" using assms(2) by auto
  have read: "\<exists>bs. transfers u = transfers t @ [Bulk_in (device t) BULK_EP_IN bs]"
    if "pen_drive_read K U p cnt t = Ret (r, out, u)" for U p cnt r out u t
    using that by (auto simp: pen_drive_read_def Let_def obind_Ret_iff split: if_splits prod.splits)
  let ?t = "usb_printk [No_minor] (s1\<lparr>device := usbdev f, class_name := ''usb/pen%d''\<rparr>)"
  let ?l = "l @ [Bus (Device_register ''usb/pen%d'' (usb_register_dev K l))]"
  have "sample_usb_driver_probe K f s l = Ret (usb_register_dev K l, ?t, ?l)"
    using s1(1) assms(2) by (simp add: sample_usb_driver_probe_def Let_def)
  moreover have "ledger ?l = Some R" using assms(3) nz by (simp add: effect_simps)
  moreover have t: "device ?t = usbdev f" "bulk_buf ?t = bulk_buf s" "transfers ?t = transfers s"
    using s1 by (simp_all add: usb_printk_def)
  moreover have "\<exists>bs. transfers u = transfers s @ [Bulk_in (usbdev f) BULK_EP_IN bs]"
    if "pen_drive_read K U p cnt ?t = Ret (r, out, u)" for U p cnt r out u
    using read [OF that] t by simp
  ultimately show ?thesis by blast
qed

definition pen :: "ptr \<Rightarrow> usb_interface" where
  "pen d = \<lparr>bInterfaceNumber = 0, bNumEndpoints = 1, bInterfaceClass = 8,
     endpoint = [\<lparr>bEndpointAddress = 0x82, bmAttributes = 2, wMaxPacketSize = 512\<rparr>], usbdev = d\<rparr>"

lemma usb_failed_probe_redirects_witness:
  "\<exists>s l t l'. sample_usb_driver_probe slow_pen (pen 7) usb_image [] = Ret (0, s, l) \<and> device s = 7 \<and>
     sample_usb_driver_probe slow_pen (pen 9) s l = Ret (- ENOMEM, t, l') \<and> device t = 9"
proof -
  have "\<exists>s l. sample_usb_driver_probe slow_pen (pen 7) usb_image [] = Ret (0, s, l) \<and> device s = 7 \<and>
      l \<noteq> [] \<and> ledger l = Some {#Device_reg ''usb/pen%d''#}"
    by (simp add: sample_usb_driver_probe_def pen_def slow_pen_def usb_printk_def effect_simps Let_def
        usb_image_def ledger_def)
  then obtain s l where s: "sample_usb_driver_probe slow_pen (pen 7) usb_image [] = Ret (0, s, l)" "device s = 7"
    and l: "l \<noteq> []" "ledger l = Some {#Device_reg ''usb/pen%d''#}" by blast
  have "unat (bNumEndpoints (pen 9)) \<le> length (endpoint (pen 9))" by (simp add: pen_def)
  moreover have "usb_register_dev slow_pen l = - ENOMEM" using l(1) by (simp add: slow_pen_def)
  ultimately show ?thesis
    using usb_failed_probe_redirects [of "pen 9" slow_pen l _ s] s l(2) by (auto simp: pen_def)
qed

end
