(* ===== verification/Deferred_Work.thy ===== *)
theory Deferred_Work
  imports Module_Lifecycle
begin

text \<open>
  Code that the kernel runs later on behalf of a module: the timer of \<open>day_06/ex15.c\<close>, the
  work items of \<open>day_06/ex16.c\<close> and \<open>day_06/ex17.c\<close>, the tasklet of \<open>day_06/ex18.c\<close> and
  the interrupt handler of \<open>day_07/ex20.c\<close>. A handler is the list of its statements, an
  exit function the list of its calls; \<open>dstep\<close> interleaves the two as the kernel may. What
  a call waits for is a parameter with its documented behaviour as a hypothesis.
\<close>

section \<open>Handlers, exit functions and the state of a module\<close>

datatype stmt = Printk string | Msleep nat | Tasklet_disable | Tasklet_enable | Count | Print_count string

datatype ecall = Say string | Del_timer | Flush_workqueue | Destroy_workqueue | Tasklet_kill
  | Synchronize_irq_line | Free_irq_line

text \<open>The deferred job: not scheduled, scheduled, or at a statement of its handler.\<close>

datatype job = Idle | Pending | Running nat

datatype message = Msg string | Msg_count string c_int

datatype phase = Loaded | Exiting "ecall list" | Gone

record dmod =
  job :: job
  armed :: bool
  phase :: phase
  console :: "message list"
  irq_counter :: c_int
  expires :: c_ulong
  timer_data :: c_ulong
  wq :: ptr

definition dmod_image :: dmod where
  "dmod_image = \<lparr>job = Idle, armed = False, phase = Loaded, console = [], irq_counter = 0,
     expires = 0, timer_data = 0, wq = 0\<rparr>"

definition dprintk :: "string \<Rightarrow> dmod \<Rightarrow> dmod" where
  "dprintk m s = s\<lparr>console := console s @ [Msg m]\<rparr>"

section \<open>The five modules\<close>

text \<open>\<open>day_06/ex15.c\<close>.\<close>

definition my_timer_function :: "stmt list" where
  "my_timer_function = [Printk ''Time up...'']"

definition timer_init_module :: "c_ulong \<Rightarrow> c_ulong \<Rightarrow> dmod \<Rightarrow> c_int \<times> dmod" where
  "timer_init_module jiffies HZ s =
     (let s = dprintk ''welcome to Timer Example'' s;
          s = s\<lparr>expires := jiffies + HZ, timer_data := 100\<rparr>;
          s = s\<lparr>job := Pending\<rparr>
      in (0, dprintk ''Timer init module'' s))"

definition timer_exit_module :: "ecall list" where
  "timer_exit_module = [Del_timer, Say ''Timer example exit'']"

text \<open>\<open>day_06/ex16.c\<close> and \<open>day_06/ex17.c\<close>; the handlers differ in the case of one letter.\<close>

definition ex16_workqueue_handler :: "stmt list" where
  "ex16_workqueue_handler =
     [Printk ''WORK QUEUE: Entered into handler. '', Msleep 10000, Printk ''WORK QUEUE: Exit of the handler. '']"

definition ex16_init_module :: "dmod \<Rightarrow> c_int \<times> dmod" where
  "ex16_init_module s = (0, (dprintk ''work queue example ....'' s)\<lparr>job := Pending\<rparr>)"

definition ex16_exit_module :: "ecall list" where
  "ex16_exit_module = [Say ''work queue exit module '']"

definition ex17_workqueue_handler :: "stmt list" where
  "ex17_workqueue_handler =
     [Printk ''WORK QUEUE: entered into handler. '', Msleep 10000, Printk ''WORK QUEUE: exit of the handler. '']"

text \<open>\<open>create_workqueue\<close> is a parameter; its result is not checked before \<open>queue_work\<close>.\<close>

definition ex17_init_module :: "ptr \<Rightarrow> dmod \<Rightarrow> (c_int \<times> dmod) outcome" where
  "ex17_init_module create_workqueue s =
     (let s = (dprintk ''work queue example ....'' s)\<lparr>wq := create_workqueue\<rparr>
      in if wq s = 0 then Fault NullDeref else Ret (0, s\<lparr>job := Pending\<rparr>))"

definition ex17_exit_module :: "ecall list" where
  "ex17_exit_module = [Say ''work queue exit module '', Flush_workqueue, Destroy_workqueue]"

text \<open>\<open>day_06/ex18.c\<close>.\<close>

definition my_tasklet_handler :: "stmt list" where
  "my_tasklet_handler =
     [Tasklet_disable, Printk ''my_tasklet run: do what the tasklet want to do....'', Tasklet_enable]"

definition tasklet_init_module :: "dmod \<Rightarrow> c_int \<times> dmod" where
  "tasklet_init_module s =
     (let s = dprintk ''Hello tasklet!'' (dprintk ''module init start. '' s);
          s = s\<lparr>job := Pending\<rparr>
      in (0, dprintk ''module init end.'' s))"

definition tasklet_exit_module :: "ecall list" where
  "tasklet_exit_module = [Tasklet_kill, Say ''Goodbye, tasklet!'']"

text \<open>\<open>day_07/ex20.c\<close>.\<close>

definition SHARED_IRQ :: c_int where "SHARED_IRQ = 19"

definition my_interrupt :: "stmt list" where
  "my_interrupt = [Count, Print_count ''In the ISR: counter = '']"

definition my_irq_init :: "c_int \<Rightarrow> kernel \<Rightarrow> dmod \<Rightarrow> klog \<Rightarrow> c_int \<times> dmod \<times> klog" where
  "my_irq_init irq K s l =
     (let ret = request_irq K l irq;
          l = l @ [Dev (Request_irq irq ret)]
      in if ret \<noteq> 0 then (- 1, s, l)
         else (0, dprintk ''Successfully loading ISR handler'' (s\<lparr>armed := True\<rparr>), l))"

definition my_irq_exit :: "ecall list" where
  "my_irq_exit = [Synchronize_irq_line, Free_irq_line, Say ''Successfully unloading '']"

text \<open>The kernel calls of an exit list that the ledger knows.\<close>

fun logged :: "c_int \<Rightarrow> ecall \<Rightarrow> klog" where
  "logged irq Synchronize_irq_line = [Dev (Synchronize_irq irq)]"
| "logged irq Free_irq_line = [Dev (Free_irq irq)]"
| "logged irq _ = []"

definition irq_module_exit :: "c_int \<Rightarrow> dmod \<Rightarrow> klog \<Rightarrow> dmod \<times> klog" where
  "irq_module_exit irq s l = (s, l @ concat (map (logged irq) my_irq_exit))"

interpretation ex20_mod: loadable_module "my_irq_init irq" "irq_module_exit irq" "\<lambda>_. {#Irq_line irq#}" for irq
  by unfold_locales
    (auto simp: my_irq_init_def irq_module_exit_def my_irq_exit_def Let_def effect_simps split: if_splits)

section \<open>Running and unloading\<close>

text \<open>
  \<open>ecall_returns c j\<close>: the call returns when the job is in state \<open>j\<close>, with that state after
  it; \<open>None\<close> is a call that goes on waiting. \<open>disable_returns j\<close>: \<open>tasklet_disable\<close> returns.
\<close>

record defer_kernel =
  ecall_returns :: "ecall \<Rightarrow> job \<Rightarrow> job option"
  disable_returns :: "job \<Rightarrow> bool"

text \<open>
  Documented: \<open>del_timer\<close> takes a pending timer off the wheel and does not wait for a
  running handler. \<open>flush_workqueue\<close>, \<open>destroy_workqueue\<close> and \<open>tasklet_kill\<close> return only
  when what was scheduled has run to its end, \<open>free_irq\<close> when no handler is executing.
  \<open>tasklet_disable\<close> busy-waits while the tasklet is running.
\<close>

definition waits_for_job :: "ecall \<Rightarrow> bool" where
  "waits_for_job c \<longleftrightarrow> c \<in> {Flush_workqueue, Destroy_workqueue, Tasklet_kill, Free_irq_line}"

definition defer_laws :: "defer_kernel \<Rightarrow> bool" where
  "defer_laws K \<longleftrightarrow>
     (\<forall>m j. ecall_returns K (Say m) j = Some j) \<and>
     (\<forall>j. ecall_returns K Del_timer j = Some (if j = Pending then Idle else j)) \<and>
     (\<forall>c j. waits_for_job c \<longrightarrow> ecall_returns K c j = (if j = Idle then Some Idle else None)) \<and>
     (\<forall>j. ecall_returns K Synchronize_irq_line j = (case j of Running _ \<Rightarrow> None | _ \<Rightarrow> Some j)) \<and>
     (\<forall>n. \<not> disable_returns K (Running n))"

fun exec_stmt :: "stmt \<Rightarrow> dmod \<Rightarrow> dmod" where
  "exec_stmt (Printk m) s = dprintk m s"
| "exec_stmt (Print_count m) s = s\<lparr>console := console s @ [Msg_count m (irq_counter s)]\<rparr>"
| "exec_stmt Count s = s\<lparr>irq_counter := irq_counter s + 1\<rparr>"
| "exec_stmt _ s = s"

inductive dstep :: "defer_kernel \<Rightarrow> stmt list \<Rightarrow> ecall list \<Rightarrow> dmod \<Rightarrow> dmod \<Rightarrow> bool"
  for K handler exit where
  fire: "job s = Pending \<Longrightarrow> phase s \<noteq> Gone \<Longrightarrow> dstep K handler exit s (s\<lparr>job := Running 0\<rparr>)"
| interrupt: "job s = Idle \<Longrightarrow> armed s \<Longrightarrow> phase s \<noteq> Gone \<Longrightarrow> dstep K handler exit s (s\<lparr>job := Running 0\<rparr>)"
| exec: "job s = Running k \<Longrightarrow> phase s \<noteq> Gone \<Longrightarrow> k < length handler \<Longrightarrow>
    handler ! k = Tasklet_disable \<longrightarrow> disable_returns K (job s) \<Longrightarrow>
    dstep K handler exit s (exec_stmt (handler ! k) s\<lparr>job := Running (Suc k)\<rparr>)"
| finish: "job s = Running (length handler) \<Longrightarrow> phase s \<noteq> Gone \<Longrightarrow> dstep K handler exit s (s\<lparr>job := Idle\<rparr>)"
| rmmod: "phase s = Loaded \<Longrightarrow> dstep K handler exit s (s\<lparr>phase := Exiting exit\<rparr>)"
| exit_call: "phase s = Exiting (c # cs) \<Longrightarrow> ecall_returns K c (job s) = Some j \<Longrightarrow>
    dstep K handler exit s (s\<lparr>job := j, armed := armed s \<and> c \<noteq> Free_irq_line, phase := Exiting cs\<rparr>)"
| unload: "phase s = Exiting [] \<Longrightarrow> dstep K handler exit s (s\<lparr>phase := Gone\<rparr>)"

inductive_cases dstep_cases: "dstep K handler exit s t"

section \<open>What holds while a module is unloaded\<close>

text \<open>
  A module whose exit function has a call that waits for the job, and frees the interrupt
  line if there is one: after the last such call the job is idle and stays so.
\<close>

definition safe_start :: "ecall list \<Rightarrow> dmod \<Rightarrow> bool" where
  "safe_start exit s \<longleftrightarrow> phase s = Loaded \<and> job s \<in> {Idle, Pending} \<and>
     (armed s \<longrightarrow> Free_irq_line \<in> set exit) \<and> (\<exists>c\<in>set exit. waits_for_job c)"

fun quiet_phase :: "ecall list \<Rightarrow> phase \<Rightarrow> job \<Rightarrow> bool \<Rightarrow> bool" where
  "quiet_phase exit Loaded j a \<longleftrightarrow> (a \<longrightarrow> Free_irq_line \<in> set exit) \<and> (\<exists>c\<in>set exit. waits_for_job c)"
| "quiet_phase exit (Exiting cs) j a \<longleftrightarrow>
     (a \<longrightarrow> Free_irq_line \<in> set cs) \<and> ((\<exists>c\<in>set cs. waits_for_job c) \<or> j = Idle)"
| "quiet_phase exit Gone j a \<longleftrightarrow> \<not> a \<and> j = Idle"

definition unload_inv :: "stmt list \<Rightarrow> ecall list \<Rightarrow> dmod \<Rightarrow> bool" where
  "unload_inv handler exit s \<longleftrightarrow> quiet_phase exit (phase s) (job s) (armed s) \<and>
     (case job s of Running k \<Rightarrow> k \<le> length handler | _ \<Rightarrow> True)"

lemma waits_free_irq [simp]: "waits_for_job Free_irq_line"
  by (simp add: waits_for_job_def)

lemma quiet_not_idle:
  "quiet_phase exit p j a \<Longrightarrow> p \<noteq> Gone \<Longrightarrow> j \<noteq> Idle \<or> a \<Longrightarrow> quiet_phase exit p j' a"
  by (cases p) (auto intro: bexI [where x = Free_irq_line])

lemma quiet_idle: "quiet_phase exit p j a \<Longrightarrow> quiet_phase exit p Idle a"
  by (cases p) auto

lemma exec_stmt_fields [simp]:
  "job (exec_stmt x s) = job s" "armed (exec_stmt x s) = armed s" "phase (exec_stmt x s) = phase s"
  by (cases x; simp add: dprintk_def)+

locale deferred_kernel =
  fixes K :: defer_kernel
  assumes laws: "defer_laws K"
begin

lemma call_waits: "waits_for_job c \<Longrightarrow> ecall_returns K c j = Some j' \<Longrightarrow> j = Idle \<and> j' = Idle"
  using laws by (auto simp: defer_laws_def split: if_splits)

lemma call_idle: "ecall_returns K c Idle = Some Idle"
  using laws by (cases c) (auto simp: defer_laws_def waits_for_job_def)

lemma call_no_more: "ecall_returns K c j = Some j' \<Longrightarrow> j' = j \<or> j' = Idle"
  using laws by (cases c) (auto simp: defer_laws_def waits_for_job_def split: if_splits job.splits)

lemma disable_waits: "\<not> disable_returns K (Running n)"
  using laws by (simp add: defer_laws_def)

lemma unload_inv_step: "dstep K handler exit s t \<Longrightarrow> unload_inv handler exit s \<Longrightarrow> unload_inv handler exit t"
proof (induction rule: dstep.induct)
  case (exit_call s c cs j)
  have q: "quiet_phase exit (Exiting (c # cs)) (job s) (armed s)"
    using exit_call by (simp add: unload_inv_def)
  have "quiet_phase exit (Exiting cs) j (armed s \<and> c \<noteq> Free_irq_line)"
    using q call_waits [OF _ exit_call(2)] call_no_more [OF exit_call(2)]
    by auto
  then show ?case
    using exit_call call_no_more [OF exit_call(2)] by (auto simp: unload_inv_def split: job.splits)
qed (auto simp: unload_inv_def intro: quiet_not_idle quiet_idle)

end

sublocale deferred_kernel \<subseteq> unloading: invariant_system "safe_start exit" "dstep K handler exit"
    "unload_inv handler exit" for handler exit
proof
  show "safe_start exit s \<Longrightarrow> unload_inv handler exit s" for s
    by (auto simp: safe_start_def unload_inv_def)
  show "unload_inv handler exit s \<Longrightarrow> dstep K handler exit s t \<Longrightarrow> unload_inv handler exit t" for s t
    by (rule unload_inv_step)
qed

context deferred_kernel
begin

lemma idle_after_unload:
  "reaches (safe_start exit) (dstep K handler exit) t \<Longrightarrow> phase t = Gone \<Longrightarrow> job t = Idle \<and> \<not> armed t"
  using unloading.inv_reaches by (fastforce simp: unload_inv_def)

lemma run_out:
  assumes "Tasklet_disable \<notin> set handler"
  shows "job s = Running k \<Longrightarrow> k \<le> length handler \<Longrightarrow> phase s \<noteq> Gone \<Longrightarrow>
    \<exists>t. (dstep K handler exit)\<^sup>*\<^sup>* s t \<and> job t = Idle \<and> phase t = phase s"
proof (induction "length handler - k" arbitrary: s k)
  case 0
  then have "dstep K handler exit s (s\<lparr>job := Idle\<rparr>)" by (intro dstep.finish) simp_all
  then show ?case by (intro exI [of _ "s\<lparr>job := Idle\<rparr>"]) auto
next
  case (Suc n)
  let ?s = "exec_stmt (handler ! k) s\<lparr>job := Running (Suc k)\<rparr>"
  have k: "k < length handler" using Suc.hyps(2) by simp
  then have "handler ! k \<noteq> Tasklet_disable" using assms by (metis nth_mem)
  then have one: "dstep K handler exit s ?s" using Suc.prems k by (intro dstep.exec) simp_all
  have n: "n = length handler - Suc k" using Suc.hyps(2) by simp
  obtain t where "(dstep K handler exit)\<^sup>*\<^sup>* ?s t" "job t = Idle" "phase t = phase ?s"
    using Suc.hyps(1) [OF n, of ?s] Suc.prems k by auto
  then show ?case using one by (auto intro: converse_rtranclp_into_rtranclp)
qed

lemma run_idle:
  assumes "Tasklet_disable \<notin> set handler" and "unload_inv handler exit s" and "phase s \<noteq> Gone"
  shows "\<exists>t. (dstep K handler exit)\<^sup>*\<^sup>* s t \<and> job t = Idle \<and> phase t = phase s"
proof (cases "job s")
  case Idle
  then show ?thesis by blast
next
  case Pending
  then have one: "dstep K handler exit s (s\<lparr>job := Running 0\<rparr>)" using assms(3) by (intro dstep.fire)
  show ?thesis
    using run_out [OF assms(1), of "s\<lparr>job := Running 0\<rparr>" 0 exit] assms(3) one
    by (auto intro: converse_rtranclp_into_rtranclp)
next
  case (Running k)
  then show ?thesis using run_out [OF assms(1) Running] assms(2,3) by (simp add: unload_inv_def)
qed

lemma finish_exit:
  "phase s = Exiting cs \<Longrightarrow> job s = Idle \<Longrightarrow> \<exists>t. (dstep K handler exit)\<^sup>*\<^sup>* s t \<and> phase t = Gone"
proof (induction cs arbitrary: s)
  case Nil
  then have "dstep K handler exit s (s\<lparr>phase := Gone\<rparr>)" by (intro dstep.unload)
  then show ?case by (intro exI [of _ "s\<lparr>phase := Gone\<rparr>"]) auto
next
  case (Cons c cs)
  let ?s = "s\<lparr>job := Idle, armed := armed s \<and> c \<noteq> Free_irq_line, phase := Exiting cs\<rparr>"
  have one: "dstep K handler exit s ?s"
    using Cons.prems call_idle [of c] by (intro dstep.exit_call) simp_all
  obtain t where "(dstep K handler exit)\<^sup>*\<^sup>* ?s t" "phase t = Gone"
    using Cons.IH [of ?s] by auto
  then show ?case using one by (auto intro: converse_rtranclp_into_rtranclp)
qed

lemma can_unload:
  assumes "Tasklet_disable \<notin> set handler" and "reaches (safe_start exit) (dstep K handler exit) s"
  shows "\<exists>t. (dstep K handler exit)\<^sup>*\<^sup>* s t \<and> phase t = Gone"
proof (cases "phase s = Gone")
  case True
  then show ?thesis by blast
next
  case False
  obtain t where t: "(dstep K handler exit)\<^sup>*\<^sup>* s t" "job t = Idle" "phase t = phase s"
    using run_idle [OF assms(1) unloading.inv_reaches [OF assms(2)] False] by blast
  obtain u where u: "(dstep K handler exit)\<^sup>*\<^sup>* t u" "job u = Idle" "\<exists>cs. phase u = Exiting cs"
  proof (cases "phase t")
    case Loaded
    then have "dstep K handler exit t (t\<lparr>phase := Exiting exit\<rparr>)" by (intro dstep.rmmod)
    then show ?thesis using that [of "t\<lparr>phase := Exiting exit\<rparr>"] t(2) by auto
  qed (use that [of t] t False in auto)
  then show ?thesis using finish_exit t(1) by (meson rtranclp_trans)
qed

end

text \<open>The documented calls, as a concrete kernel.\<close>

definition doc_kernel :: defer_kernel where
  "doc_kernel = \<lparr>ecall_returns = (\<lambda>c j.
       if waits_for_job c then (if j = Idle then Some Idle else None)
       else case c of Del_timer \<Rightarrow> Some (if j = Pending then Idle else j)
         | Synchronize_irq_line \<Rightarrow> (case j of Running _ \<Rightarrow> None | _ \<Rightarrow> Some j)
         | _ \<Rightarrow> Some j),
     disable_returns = (\<lambda>j. case j of Running _ \<Rightarrow> False | _ \<Rightarrow> True)\<rparr>"

interpretation documented: deferred_kernel doc_kernel
  by unfold_locales (auto simp: defer_laws_def doc_kernel_def waits_for_job_def)

lemma ex17_safe: "ex17_init_module q dmod_image = Ret (0, s) \<Longrightarrow> safe_start ex17_exit_module s"
  by (auto simp: ex17_init_module_def safe_start_def dmod_image_def dprintk_def ex17_exit_module_def
      waits_for_job_def Let_def split: if_splits)

lemma ex20_safe: "my_irq_init irq Kn dmod_image l = (0, s, l') \<Longrightarrow> safe_start my_irq_exit s"
  by (auto simp: my_irq_init_def safe_start_def dmod_image_def dprintk_def my_irq_exit_def
      waits_for_job_def Let_def split: if_splits)

lemma reaches_mono: "reaches start step t \<Longrightarrow> (\<And>s. start s \<Longrightarrow> start' s) \<Longrightarrow> reaches start' step t"
  by (auto simp: reaches_def)

text \<open>C11: Unloading the work queue module of ex17.c and the interrupt module of ex20.c. However the
  kernel interleaves the handler with the exit function: when the module's code is gone no
  work item is scheduled or running and no interrupt can start the handler; and from every
  reachable state the unloading can be completed.\<close>

theorem deferred_unload_safe:
  assumes "defer_laws K"
  shows "(\<forall>t. reaches (\<lambda>s. ex17_init_module q dmod_image = Ret (0, s)) (dstep K ex17_workqueue_handler ex17_exit_module) t \<longrightarrow>
      (phase t = Gone \<longrightarrow> job t = Idle \<and> \<not> armed t) \<and>
      (\<exists>u. (dstep K ex17_workqueue_handler ex17_exit_module)\<^sup>*\<^sup>* t u \<and> phase u = Gone)) \<and>
    (\<forall>t. reaches (\<lambda>s. \<exists>l'. my_irq_init irq Kn dmod_image l = (0, s, l')) (dstep K my_interrupt my_irq_exit) t \<longrightarrow>
      (phase t = Gone \<longrightarrow> job t = Idle \<and> \<not> armed t) \<and>
      (\<exists>u. (dstep K my_interrupt my_irq_exit)\<^sup>*\<^sup>* t u \<and> phase u = Gone))"
proof (intro conjI allI impI)
  note dk = deferred_kernel.intro [OF assms]
  fix t
  assume r: "reaches (\<lambda>s. ex17_init_module q dmod_image = Ret (0, s)) (dstep K ex17_workqueue_handler ex17_exit_module) t"
  note r' = reaches_mono [OF r ex17_safe]
  show "\<exists>u. (dstep K ex17_workqueue_handler ex17_exit_module)\<^sup>*\<^sup>* t u \<and> phase u = Gone"
    by (rule deferred_kernel.can_unload [OF dk _ r']) (simp add: ex17_workqueue_handler_def)
  show "phase t = Gone \<Longrightarrow> job t = Idle" "phase t = Gone \<Longrightarrow> \<not> armed t"
    using deferred_kernel.idle_after_unload [OF dk r'] by simp_all
next
  note dk = deferred_kernel.intro [OF assms]
  fix t
  assume "reaches (\<lambda>s. \<exists>l'. my_irq_init irq Kn dmod_image l = (0, s, l')) (dstep K my_interrupt my_irq_exit) t"
  then have r': "reaches (safe_start my_irq_exit) (dstep K my_interrupt my_irq_exit) t"
    using ex20_safe by (auto elim: reaches_mono)
  show "\<exists>u. (dstep K my_interrupt my_irq_exit)\<^sup>*\<^sup>* t u \<and> phase u = Gone"
    by (rule deferred_kernel.can_unload [OF dk _ r']) (simp add: my_interrupt_def)
  show "phase t = Gone \<Longrightarrow> job t = Idle" "phase t = Gone \<Longrightarrow> \<not> armed t"
    using deferred_kernel.idle_after_unload [OF dk r'] by simp_all
qed

theorem deferred_unload_safe_witness:
  "\<exists>s u. my_irq_init SHARED_IRQ good_kernel dmod_image [] = (0, s, [Dev (Request_irq SHARED_IRQ 0)]) \<and> armed s \<and>
     (dstep doc_kernel my_interrupt my_irq_exit)\<^sup>*\<^sup>* s u \<and> phase u = Gone"
proof -
  let ?s = "dprintk ''Successfully loading ISR handler'' (dmod_image\<lparr>armed := True\<rparr>)"
  have i: "my_irq_init SHARED_IRQ good_kernel dmod_image [] = (0, ?s, [Dev (Request_irq SHARED_IRQ 0)])"
    by (simp add: my_irq_init_def good_kernel_def Let_def)
  then have "reaches (\<lambda>s. \<exists>l'. my_irq_init SHARED_IRQ good_kernel dmod_image [] = (0, s, l'))
      (dstep doc_kernel my_interrupt my_irq_exit) ?s"
    by (intro reaches_start) blast
  with deferred_unload_safe [OF documented.laws, of 4096 SHARED_IRQ good_kernel "[]"]
  have "\<exists>u. (dstep doc_kernel my_interrupt my_irq_exit)\<^sup>*\<^sup>* ?s u \<and> phase u = Gone" by blast
  moreover have "armed ?s" by (simp add: dprintk_def)
  ultimately show ?thesis using i by blast
qed

text \<open>What \<open>del_timer\<close> does guarantee: once it has been called the timer is not pending.\<close>

definition timer_inv :: "dmod \<Rightarrow> bool" where
  "timer_inv s \<longleftrightarrow> \<not> armed s \<and>
     (case phase s of Loaded \<Rightarrow> True
      | Exiting cs \<Rightarrow> Del_timer \<in> set cs \<or> job s \<noteq> Pending
      | Gone \<Rightarrow> job s \<noteq> Pending)"

context deferred_kernel
begin

lemma timer_inv_step: "dstep K handler timer_exit_module s t \<Longrightarrow> timer_inv s \<Longrightarrow> timer_inv t"
proof (induction rule: dstep.induct)
  case (exit_call s c cs j)
  have "ecall_returns K Del_timer (job s) = Some (if job s = Pending then Idle else job s)"
    using laws by (simp add: defer_laws_def)
  then show ?case
    using exit_call call_no_more [OF exit_call(2)] by (auto simp: timer_inv_def split: if_splits)
qed (auto simp: timer_inv_def timer_exit_module_def split: phase.splits)

end

sublocale deferred_kernel \<subseteq> timer: invariant_system
    "\<lambda>s. timer_init_module jiffies HZ dmod_image = (0, s)" "dstep K my_timer_function timer_exit_module" timer_inv
  for jiffies HZ
proof
  show "timer_init_module jiffies HZ dmod_image = (0, s) \<Longrightarrow> timer_inv s" for s
    by (auto simp: timer_init_module_def timer_inv_def dmod_image_def dprintk_def Let_def)
  show "timer_inv s \<Longrightarrow> dstep K my_timer_function timer_exit_module s t \<Longrightarrow> timer_inv t" for s t
    by (rule timer_inv_step)
qed

context deferred_kernel
begin

lemma timer_not_pending:
  "reaches (\<lambda>s. timer_init_module jiffies HZ dmod_image = (0, s)) (dstep K my_timer_function timer_exit_module) t \<Longrightarrow>
   phase t = Gone \<Longrightarrow> job t \<noteq> Pending"
  using timer.inv_reaches by (fastforce simp: timer_inv_def)

end

lemma run_to:
  assumes "Tasklet_disable \<notin> set handler" and "job s = Running 0" and "phase s \<noteq> Gone"
  shows "k \<le> length handler \<Longrightarrow> \<exists>t. (dstep K handler exit)\<^sup>*\<^sup>* s t \<and> job t = Running k \<and> phase t = phase s"
proof (induction k)
  case 0
  then show ?case using assms(2) by blast
next
  case (Suc k)
  then obtain t where t: "(dstep K handler exit)\<^sup>*\<^sup>* s t" "job t = Running k" "phase t = phase s" by auto
  have "handler ! k \<noteq> Tasklet_disable" using assms(1) Suc.prems by (metis Suc_le_lessD nth_mem)
  then have "dstep K handler exit t (exec_stmt (handler ! k) t\<lparr>job := Running (Suc k)\<rparr>)"
    using t Suc.prems assms(3) by (intro dstep.exec) simp_all
  with t show ?case
    by (intro exI [of _ "exec_stmt (handler ! k) t\<lparr>job := Running (Suc k)\<rparr>"])
      (auto intro: rtranclp.rtrancl_into_rtrancl)
qed

text \<open>The handler in the middle, with the exit function run to its end around it.\<close>

lemma exit_while_running:
  assumes "phase s = Exiting cs" and "\<forall>c\<in>set cs. ecall_returns K c (job s) = Some (job s)"
  shows "\<exists>t. (dstep K handler exit)\<^sup>*\<^sup>* s t \<and> phase t = Gone \<and> job t = job s"
  using assms
proof (induction cs arbitrary: s)
  case Nil
  then have "dstep K handler exit s (s\<lparr>phase := Gone\<rparr>)" by (intro dstep.unload)
  then show ?case by (intro exI [of _ "s\<lparr>phase := Gone\<rparr>"]) auto
next
  case (Cons c cs)
  let ?s = "s\<lparr>job := job s, armed := armed s \<and> c \<noteq> Free_irq_line, phase := Exiting cs\<rparr>"
  have one: "dstep K handler exit s ?s" using Cons.prems by (intro dstep.exit_call) simp_all
  obtain t where "(dstep K handler exit)\<^sup>*\<^sup>* ?s t" "phase t = Gone" "job t = job s"
    using Cons.IH [of ?s] Cons.prems by auto
  then show ?case using one by (auto intro: converse_rtranclp_into_rtranclp)
qed

lemma unload_running:
  assumes "start s" and "job s = Pending" and "phase s = Loaded"
    and "Tasklet_disable \<notin> set handler" and "k \<le> length handler"
    and "\<forall>c\<in>set exit. ecall_returns K c (Running k) = Some (Running k)"
  shows "\<exists>u. reaches start (dstep K handler exit) u \<and> phase u = Gone \<and> job u = Running k"
proof -
  have f: "dstep K handler exit s (s\<lparr>job := Running 0\<rparr>)" using assms(2,3) by (intro dstep.fire) simp_all
  obtain t where t: "(dstep K handler exit)\<^sup>*\<^sup>* (s\<lparr>job := Running 0\<rparr>) t" "job t = Running k" "phase t = Loaded"
    using run_to [OF assms(4) _ _ assms(5), of "s\<lparr>job := Running 0\<rparr>" K exit] assms(3) by auto
  have r: "dstep K handler exit t (t\<lparr>phase := Exiting exit\<rparr>)" using t(3) by (intro dstep.rmmod)
  obtain u where u: "(dstep K handler exit)\<^sup>*\<^sup>* (t\<lparr>phase := Exiting exit\<rparr>) u" "phase u = Gone" "job u = job t"
    using exit_while_running [of "t\<lparr>phase := Exiting exit\<rparr>" exit K handler exit] assms(6) t(2) by auto
  have "(dstep K handler exit)\<^sup>*\<^sup>* s u"
    using converse_rtranclp_into_rtranclp [OF f rtranclp_trans [OF t(1) converse_rtranclp_into_rtranclp [OF r u(1)]]] .
  then show ?thesis using assms(1) t(2) u(2,3) by (auto simp: reaches_def)
qed

text \<open>C37: The timer module of ex15.c can be gone while its handler is at its first statement, since
  \<open>del_timer\<close> does not wait for it; only a timer that has not fired is safe. The work queue
  module of ex16.c, whose exit function does nothing, can be gone while its work item is
  still to run, and while it is in the ten seconds of \<open>msleep\<close>.\<close>

theorem unload_leaves_handler:
  assumes "defer_laws K"
  shows "(\<exists>t. reaches (\<lambda>s. timer_init_module jiffies HZ dmod_image = (0, s)) (dstep K my_timer_function timer_exit_module) t \<and>
      phase t = Gone \<and> job t = Running 0) \<and>
    (\<forall>t. reaches (\<lambda>s. timer_init_module jiffies HZ dmod_image = (0, s)) (dstep K my_timer_function timer_exit_module) t \<longrightarrow>
      phase t = Gone \<longrightarrow> job t \<noteq> Pending) \<and>
    (\<forall>k\<in>{0, 1, 2}. \<exists>t. reaches (\<lambda>s. ex16_init_module dmod_image = (0, s)) (dstep K ex16_workqueue_handler ex16_exit_module) t \<and>
      phase t = Gone \<and> job t = Running k)"
proof (intro conjI ballI allI impI)
  let ?s = "snd (timer_init_module jiffies HZ dmod_image)"
  have s: "timer_init_module jiffies HZ dmod_image = (0, ?s)" "job ?s = Pending" "phase ?s = Loaded"
    by (simp_all add: timer_init_module_def dprintk_def dmod_image_def Let_def)
  have "\<forall>c\<in>set timer_exit_module. ecall_returns K c (Running 0) = Some (Running 0)"
    using assms by (simp add: timer_exit_module_def defer_laws_def)
  then show "\<exists>t. reaches (\<lambda>s. timer_init_module jiffies HZ dmod_image = (0, s)) (dstep K my_timer_function timer_exit_module) t \<and>
      phase t = Gone \<and> job t = Running 0"
    using s unload_running [where start = "\<lambda>s. timer_init_module jiffies HZ dmod_image = (0, s)" and s = ?s and k = 0
        and handler = my_timer_function and exit = timer_exit_module and K = K]
    by (simp add: my_timer_function_def)
next
  fix t
  assume "reaches (\<lambda>s. timer_init_module jiffies HZ dmod_image = (0, s)) (dstep K my_timer_function timer_exit_module) t"
    and "phase t = Gone"
  then show "job t \<noteq> Pending" by (rule deferred_kernel.timer_not_pending [OF deferred_kernel.intro [OF assms]])
next
  fix k :: nat
  assume k: "k \<in> {0, 1, 2}"
  let ?s = "snd (ex16_init_module dmod_image)"
  have s: "ex16_init_module dmod_image = (0, ?s)" "job ?s = Pending" "phase ?s = Loaded"
    by (simp_all add: ex16_init_module_def dprintk_def dmod_image_def)
  have "\<forall>c\<in>set ex16_exit_module. ecall_returns K c (Running k) = Some (Running k)"
    using assms by (simp add: ex16_exit_module_def defer_laws_def)
  then show "\<exists>t. reaches (\<lambda>s. ex16_init_module dmod_image = (0, s)) (dstep K ex16_workqueue_handler ex16_exit_module) t \<and>
      phase t = Gone \<and> job t = Running k"
    using s k unload_running [where start = "\<lambda>s. ex16_init_module dmod_image = (0, s)" and s = ?s and k = k
        and handler = ex16_workqueue_handler and exit = ex16_exit_module and K = K]
    by (auto simp: ex16_workqueue_handler_def)
qed

theorem unload_leaves_handler_witness:
  "\<exists>t. reaches (\<lambda>s. ex16_init_module dmod_image = (0, s)) (dstep doc_kernel ex16_workqueue_handler ex16_exit_module) t \<and>
     phase t = Gone \<and> job t = Running 2"
  using unload_leaves_handler [OF documented.laws, of 0 250] by blast

section \<open>The tasklet that disables itself\<close>

definition stuck_inv :: "dmod \<Rightarrow> bool" where
  "stuck_inv s \<longleftrightarrow> \<not> armed s \<and> job s \<in> {Pending, Running 0} \<and> phase s \<in> {Loaded, Exiting tasklet_exit_module} \<and>
     console s = [Msg ''module init start. '', Msg ''Hello tasklet!'', Msg ''module init end.'']"

context deferred_kernel
begin

lemma stuck_step: "dstep K my_tasklet_handler tasklet_exit_module s t \<Longrightarrow> stuck_inv s \<Longrightarrow> stuck_inv t"
proof (induction rule: dstep.induct)
  case (exit_call s c cs j)
  then have "c = Tasklet_kill" by (simp add: stuck_inv_def tasklet_exit_module_def)
  then have "job s = Idle" using call_waits [OF _ exit_call(2)] by (simp add: waits_for_job_def)
  then show ?case using exit_call(3) by (simp add: stuck_inv_def)
qed (auto simp: stuck_inv_def my_tasklet_handler_def disable_waits tasklet_exit_module_def)

end

sublocale deferred_kernel \<subseteq> stuck: invariant_system
    "\<lambda>s. tasklet_init_module dmod_image = (0, s)" "dstep K my_tasklet_handler tasklet_exit_module" stuck_inv
proof
  show "tasklet_init_module dmod_image = (0, s) \<Longrightarrow> stuck_inv s" for s
    by (auto simp: tasklet_init_module_def stuck_inv_def dmod_image_def dprintk_def Let_def)
  show "stuck_inv s \<Longrightarrow> dstep K my_tasklet_handler tasklet_exit_module s t \<Longrightarrow> stuck_inv t" for s t
    by (rule stuck_step)
qed

context deferred_kernel
begin

lemmas stuck_reachable = stuck.inv_reaches

end

text \<open>The tasklet of ex18.c disables itself from its own handler, and \<open>tasklet_disable\<close>
  waits until the tasklet is not running: the handler never gets past its first statement
  and prints nothing, and \<open>tasklet_kill\<close> in the exit function never returns, so the module
  cannot be unloaded in any run.\<close>

lemma tasklet_waits_for_itself:
  assumes "defer_laws K"
    and "reaches (\<lambda>s. tasklet_init_module dmod_image = (0, s)) (dstep K my_tasklet_handler tasklet_exit_module) t"
  shows "job t \<in> {Pending, Running 0} \<and> phase t \<in> {Loaded, Exiting tasklet_exit_module} \<and>
    (\<forall>m\<in>set (console t). m \<noteq> Msg ''my_tasklet run: do what the tasklet want to do....'')"
  using deferred_kernel.stuck_reachable [OF deferred_kernel.intro [OF assms(1)] assms(2)]
  by (auto simp: stuck_inv_def)

lemma tasklet_waits_for_itself_witness:
  "\<exists>t. reaches (\<lambda>s. tasklet_init_module dmod_image = (0, s)) (dstep doc_kernel my_tasklet_handler tasklet_exit_module) t \<and>
     job t = Running 0 \<and> phase t \<noteq> Gone"
proof -
  let ?s = "snd (tasklet_init_module dmod_image)"
  have s: "tasklet_init_module dmod_image = (0, ?s)" "job ?s = Pending" "phase ?s = Loaded"
    by (simp_all add: tasklet_init_module_def dprintk_def dmod_image_def Let_def)
  have r: "reaches (\<lambda>s. tasklet_init_module dmod_image = (0, s)) (dstep doc_kernel my_tasklet_handler tasklet_exit_module)
      (?s\<lparr>job := Running 0\<rparr>)"
    using s by (intro reaches_step [where s = ?s, OF reaches_start] dstep.fire) simp_all
  show ?thesis using tasklet_waits_for_itself [OF documented.laws r] r by auto
qed

end
