(* ===== verification/Memory_Modules.thy ===== *)
theory Memory_Modules
  imports Module_Lifecycle C_Text
begin

text \<open>
  The two allocation modules: \<open>day_07/ex19.c\<close> with \<open>vmalloc\<close> and \<open>kmalloc\<close>, and
  \<open>day_11/ex28.c\<close>, which writes a string into a coherent DMA buffer and one into a buffer
  mapped for streaming DMA.
\<close>

section \<open>vmalloc and kmalloc\<close>

record memory_module =
  kptr :: ptr
  vptr :: ptr

definition memory_image :: memory_module where
  "memory_image = \<lparr>kptr = 0, vptr = 0\<rparr>"

definition memory_module_init :: "kernel \<Rightarrow> memory_module \<Rightarrow> klog \<Rightarrow> c_int \<times> memory_module \<times> klog" where
  "memory_module_init K s l =
     (let v = fst (vmalloc K l 1000);
          s = s\<lparr>vptr := v\<rparr>;
          l = l @ [Mem (Vmalloc 1000 v)]
      in if vptr s = 0 then (- ENOMEM, s, l)
         else let k = fst (kmalloc K l 1000 (GFP_KERNEL K));
                  s = s\<lparr>kptr := k\<rparr>;
                  l = l @ [Mem (Kmalloc 1000 (GFP_KERNEL K) k)]
              in if kptr s = 0 then (- ENOMEM, s, l) else (0, s, l))"

definition memory_module_exit :: "memory_module \<Rightarrow> klog \<Rightarrow> memory_module \<times> klog" where
  "memory_module_exit s l = (s, l @ [Mem (Vfree (vptr s)), Mem (Kfree (kptr s))])"

text \<open>The memory module of ex19.c. Init followed by exit is balanced; an init that fails
  returns \<open>-ENOMEM\<close> and leaves the \<open>vmalloc\<close> area behind exactly when it was \<open>kmalloc\<close>
  that failed.\<close>

lemma memory_module_leaks_vmalloc:
  assumes "memory_module_init K memory_image l = (ret, s, l')" and "ledger l = Some R"
  shows "ret = (if vptr s \<noteq> 0 \<and> kptr s \<noteq> 0 then 0 else - ENOMEM) \<and>
    (ret = 0 \<longrightarrow> ledger (snd (memory_module_exit s l')) = Some R) \<and>
    (ret \<noteq> 0 \<longrightarrow> ledger l' = Some (R + (if vptr s = 0 then {#} else {#Vmem (vptr s)#})))"
  using assms
  by (auto simp: memory_module_init_def memory_module_exit_def memory_image_def Let_def effect_simps split: if_splits)

lemma memory_module_leaks_vmalloc_witness:
  "ledger (snd (snd (memory_module_init (good_kernel\<lparr>kmalloc := (\<lambda>l n g. (0, []))\<rparr>) memory_image []))) =
     Some {#Vmem 16384#}"
proof -
  let ?K = "good_kernel\<lparr>kmalloc := (\<lambda>l n g. (0, []))\<rparr>"
  let ?i = "memory_module_init ?K memory_image []"
  have "fst ?i = - 12" "vptr (fst (snd ?i)) = 16384"
    by (simp_all add: memory_module_init_def memory_image_def good_kernel_def Let_def)
  moreover have i: "?i = (fst ?i, fst (snd ?i), snd (snd ?i))" by simp
  ultimately show ?thesis
    using memory_module_leaks_vmalloc [OF i ledger_Nil] by (simp del: prod.collapse split: if_splits)
qed

section \<open>DMA buffers\<close>

record dma_kernel = kernel +
  PAGE_SIZE :: size_t
  PAGE_OFFSET :: c_ulong
  dma_alloc_coherent :: "klog \<Rightarrow> size_t \<Rightarrow> ptr \<times> c_ulong \<times> byte list"
  dma_map_single :: "klog \<Rightarrow> ptr \<Rightarrow> size_t \<Rightarrow> c_ulong"
  dma_mapping_error :: "c_ulong \<Rightarrow> bool"

datatype dma_message = Buffer ptr c_ulong c_int | Difference c_ulong c_ulong | Written "byte list"

record dma_module =
  kbuf :: ptr
  kmem :: "byte list"
  handle :: c_ulong
  dma_console :: "dma_message list"

definition dma_image :: dma_module where
  "dma_image = \<lparr>kbuf = 0, kmem = [], handle = 0, dma_console = []\<rparr>"

definition dma_size :: "dma_kernel \<Rightarrow> size_t" where
  "dma_size K = 10 * PAGE_SIZE K"

definition dma_printk :: "dma_message \<Rightarrow> dma_module \<Rightarrow> dma_module" where
  "dma_printk m s = s\<lparr>dma_console := dma_console s @ [m]\<rparr>"

text \<open>\<open>strcpy\<close> writes the bytes of the string and a NUL; \<open>%s\<close> prints up to the first NUL.\<close>

definition dma_output :: "dma_kernel \<Rightarrow> size_t \<Rightarrow> string \<Rightarrow> dma_module \<Rightarrow> dma_module outcome" where
  "dma_output K len str s =
     (let diff = kbuf s - handle s;
          s = dma_printk (Buffer (kbuf s) (handle s) (ucast len)) s;
          s = dma_printk (Difference diff (diff - PAGE_OFFSET K)) s;
          text = bytes_of str @ [0]
      in case obj_check (kbuf s) (kmem s) 0 (length text) of
           Some f \<Rightarrow> Fault f
         | None \<Rightarrow> (let s = s\<lparr>kmem := put_at 0 text (kmem s)\<rparr>
                   in Ret (dma_printk (Written (takeWhile (\<lambda>b. b \<noteq> 0) (kmem s))) s)))"

definition dma_module_init :: "dma_kernel \<Rightarrow> dma_module \<Rightarrow> klog \<Rightarrow> (c_int \<times> dma_module \<times> klog) outcome" where
  "dma_module_init K s l =
     (let (p, h, m) = dma_alloc_coherent K l (dma_size K);
          l = l @ [Mem (Dma_alloc_coherent (dma_size K) p)]
      in obind (dma_output K (dma_size K) ''This is the dma_alloc_coherent string'' (s\<lparr>kbuf := p, handle := h, kmem := m\<rparr>))
           (\<lambda>s. let l = l @ [Mem (Dma_free_coherent (kbuf s))];
                    (p, m) = kmalloc K l (dma_size K) (GFP_KERNEL K);
                    l = l @ [Mem (Kmalloc (dma_size K) (GFP_KERNEL K) p)];
                    h = dma_map_single K l p (dma_size K);
                    l = l @ [Mem (Dma_map_single h (dma_mapping_error K h))]
                in obind (dma_output K (dma_size K) ''This is the dma_map_single string'' (s\<lparr>kbuf := p, kmem := m, handle := h\<rparr>))
                     (\<lambda>s. Ret (0, s, l @ [Mem (Dma_unmap_single (handle s)), Mem (Kfree (kbuf s))]))))"

definition dma_module_exit :: "dma_module \<Rightarrow> klog \<Rightarrow> dma_module \<times> klog" where
  "dma_module_exit s l = (s, l)"

lemma output_null: "kbuf s = 0 \<Longrightarrow> dma_output K n str s = Fault NullDeref"
  by (simp add: dma_output_def dma_printk_def obj_check_def Let_def)

lemma output_ok:
  assumes "kbuf s \<noteq> 0" and "length str < length (kmem s)" and "0 \<notin> set (bytes_of str)"
  shows "\<exists>t. dma_output K n str s = Ret t \<and> kbuf t = kbuf s \<and> handle t = handle s \<and>
    length (kmem t) = length (kmem s) \<and>
    dma_console t = dma_console s @ [Buffer (kbuf s) (handle s) (ucast n),
      Difference (kbuf s - handle s) (kbuf s - handle s - PAGE_OFFSET K), Written (bytes_of str)]"
proof -
  have "takeWhile (\<lambda>b. b \<noteq> 0) (bytes_of str @ 0 # xs) = bytes_of str" for xs
    using assms(3) by (subst takeWhile_append2) auto
  then show ?thesis
    using assms by (simp add: dma_output_def dma_printk_def obj_check_def Let_def put_at_def bytes_of_def)
qed

lemma dma_strings:
  "length ''This is the dma_alloc_coherent string'' = 37" "length ''This is the dma_map_single string'' = 33"
  "0 \<notin> set (bytes_of ''This is the dma_alloc_coherent string'')"
  "0 \<notin> set (bytes_of ''This is the dma_map_single string'')"
  by (simp_all add: bytes_of_def)

text \<open>Documented: a coherent buffer that was allocated has the size asked for.\<close>

definition dma_ok :: "dma_kernel \<Rightarrow> bool" where
  "dma_ok K \<longleftrightarrow> kernel_ok (kernel.truncate K) \<and> 40 \<le> unat (dma_size K) \<and>
     (\<forall>l n p h m. dma_alloc_coherent K l n = (p, h, m) \<longrightarrow> p \<noteq> 0 \<longrightarrow> length m = unat n)"

text \<open>Loading the DMA module of ex28.c from any log. With both allocations made, the two
  strings are written and read back whole, and everything is given back, unless the streaming
  mapping failed, which is not checked: then something is unmapped that is not mapped. When
  either allocation fails the string is copied to \<open>NULL\<close>.\<close>

lemma dma_init_result:
  assumes "dma_ok K" and "ledger l = Some R" and "\<forall>h. Dma_mapping h \<notin># R"
    and "dma_alloc_coherent K l (dma_size K) = (p1, h1, m1)"
    and "l1 = l @ [Mem (Dma_alloc_coherent (dma_size K) p1), Mem (Dma_free_coherent p1)]"
    and "kmalloc K l1 (dma_size K) (GFP_KERNEL K) = (p2, m2)"
    and "h2 = dma_map_single K (l1 @ [Mem (Kmalloc (dma_size K) (GFP_KERNEL K) p2)]) p2 (dma_size K)"
  shows "if p1 = 0 \<or> p2 = 0 then dma_module_init K dma_image l = Fault NullDeref
    else \<exists>s l'. dma_module_init K dma_image l = Ret (0, s, l') \<and>
      filter (\<lambda>m. case m of Written _ \<Rightarrow> True | _ \<Rightarrow> False) (dma_console s) =
        [Written (bytes_of ''This is the dma_alloc_coherent string''), Written (bytes_of ''This is the dma_map_single string'')] \<and>
      ledger l' = (if dma_mapping_error K h2 then None else Some R)"
proof (cases "p1 = 0")
  case True
  then show ?thesis
    using assms(4) by (simp add: dma_module_init_def output_null Let_def)
next
  case p1: False
  let ?s1 = "dma_image\<lparr>kbuf := p1, handle := h1, kmem := m1\<rparr>"
  have "length m1 = unat (dma_size K)" using assms(1,4) p1 by (simp add: dma_ok_def)
  then have len1: "length ''This is the dma_alloc_coherent string'' < length (kmem ?s1)"
    using assms(1) by (simp add: dma_ok_def)
  then obtain t where t: "dma_output K (dma_size K) ''This is the dma_alloc_coherent string'' ?s1 = Ret t" "kbuf t = p1"
    "dma_console t = [Buffer p1 h1 (ucast (dma_size K)), Difference (p1 - h1) (p1 - h1 - PAGE_OFFSET K),
      Written (bytes_of ''This is the dma_alloc_coherent string'')]"
    using output_ok [OF _ len1 dma_strings(3), of K "dma_size K"] p1 by (auto simp: dma_image_def)
  let ?s2 = "t\<lparr>kbuf := p2, kmem := m2, handle := h2\<rparr>"
  let ?l2 = "l1 @ [Mem (Kmalloc (dma_size K) (GFP_KERNEL K) p2), Mem (Dma_map_single h2 (dma_mapping_error K h2))]"
  have init: "dma_module_init K dma_image l =
    obind (dma_output K (dma_size K) ''This is the dma_map_single string'' ?s2)
      (\<lambda>s. Ret (0, s, ?l2 @ [Mem (Dma_unmap_single (handle s)), Mem (Kfree (kbuf s))]))"
    using assms(4-7) t(1,2) by (simp add: dma_module_init_def Let_def)
  show ?thesis
  proof (cases "p2 = 0")
    case True
    then show ?thesis using init by (simp add: output_null)
  next
    case p2: False
    have "length m2 = unat (dma_size K)"
      using kmalloc_length [of "kernel.truncate K" l1 "dma_size K" "GFP_KERNEL K"] assms(1,6) p2
      by (simp add: dma_ok_def kernel.defs)
    then have len2: "length ''This is the dma_map_single string'' < length (kmem ?s2)"
      using assms(1) by (simp add: dma_ok_def)
    then obtain u where u: "dma_output K (dma_size K) ''This is the dma_map_single string'' ?s2 = Ret u" "kbuf u = p2"
      "handle u = h2" "dma_console u = dma_console t @ [Buffer p2 h2 (ucast (dma_size K)),
        Difference (p2 - h2) (p2 - h2 - PAGE_OFFSET K), Written (bytes_of ''This is the dma_map_single string'')]"
      using output_ok [OF _ len2 dma_strings(4), of K "dma_size K"] p2 by auto
    have "ledger l1 = Some R" using assms(2,5) p1 by (simp add: effect_simps)
    then have "ledger (?l2 @ [Mem (Dma_unmap_single h2), Mem (Kfree p2)]) =
        (if dma_mapping_error K h2 then None else Some R)"
      using assms(3) p2 by (simp add: effect_simps)
    then show ?thesis using init u t(3) p1 p2 by simp
  qed
qed

definition good_dma_kernel :: dma_kernel where
  "good_dma_kernel = kernel.extend good_kernel
     \<lparr>PAGE_SIZE = 4096, PAGE_OFFSET = 0xffff880000000000,
      dma_alloc_coherent = (\<lambda>l n. (0xffff880000100000, 0x100000, replicate (unat n) 0)),
      dma_map_single = (\<lambda>l p n. p - 0xffff880000000000), dma_mapping_error = (\<lambda>h. False)\<rparr>"

lemma dma_init_result_witness:
  "\<exists>s l'. dma_module_init good_dma_kernel dma_image [] = Ret (0, s, l') \<and> ledger l' = Some {#}"
proof -
  let ?K = good_dma_kernel
  have trunc: "kernel.truncate ?K = good_kernel"
    by (simp add: good_dma_kernel_def good_kernel_def kernel.defs)
  have size: "dma_size ?K = 40960" by (simp add: dma_size_def good_dma_kernel_def kernel.defs)
  have "dma_ok ?K"
    unfolding dma_ok_def trunc size using good_kernel_ok by (simp add: good_dma_kernel_def kernel.defs)
  moreover have "dma_alloc_coherent ?K [] (dma_size ?K) = (0xffff880000100000, 0x100000, replicate (unat (dma_size ?K)) 0)"
    by (simp add: good_dma_kernel_def kernel.defs)
  moreover have "kmalloc ?K l n g = (8192, replicate (unat n) 0)" for l n g
    by (simp add: good_dma_kernel_def good_kernel_def kernel.defs)
  moreover have "\<not> dma_mapping_error ?K h" for h by (simp add: good_dma_kernel_def kernel.defs)
  ultimately show ?thesis
    using dma_init_result [of ?K "[]" "{#}", OF _ ledger_Nil _ _ refl _ refl] by fastforce
qed

end
