(* ===== verification/Test_Programs.thy ===== *)
theory Test_Programs
  imports Char_Locks C_Text
begin

text \<open>
  The test program of days 2 and 3 (\<open>test.c\<close>), run against the drivers of those days: write a
  string, read 60 bytes back, print them. The program is a client of the device contract, so
  what it prints is proved once and holds for every driver that meets the contract.
\<close>

section \<open>The program\<close>

datatype printed = Failed_to_open | Written_count c_int | Read_count c_int | Text "byte list"

text \<open>\<open>char data[60]="sample data for writing"\<close>; the rest of the array is zero.\<close>

definition test_data :: "byte list" where
  "test_data = bytes_of ''sample data for writing'' @ replicate 37 0"

text \<open>
  \<open>data\<close> and \<open>buff\<close> are the addresses of the two arrays, \<open>stack\<close> what \<open>buff\<close> holds before,
  \<open>fd\<close> the result of \<open>open\<close>. Printing \<open>buff\<close> as a string that has no NUL leaves the array.
\<close>

definition test_main ::
    "(uaccess \<Rightarrow> ptr \<Rightarrow> size_t \<Rightarrow> 's \<Rightarrow> (ssize_t \<times> byte list \<times> 's) outcome) \<Rightarrow>
     (uaccess \<Rightarrow> ptr \<Rightarrow> size_t \<Rightarrow> 's \<Rightarrow> (ssize_t \<times> 's) outcome) \<Rightarrow>
     uaccess \<Rightarrow> ptr \<Rightarrow> ptr \<Rightarrow> byte list \<Rightarrow> c_int \<Rightarrow> 's \<Rightarrow> (printed list \<times> 's) outcome" where
  "test_main rd wr U data buff stack fd s =
     (if sint fd < 0 then Ret ([Failed_to_open], s)
      else case c_strlen test_data of
             None \<Rightarrow> Fault OutOfBounds
           | Some len \<Rightarrow>
               obind (wr U data (of_nat len + 1) s) (\<lambda>(n, s).
                 obind (rd U buff 60 s) (\<lambda>(m, out, s).
                   case c_strlen (put_at 0 out stack) of
                     None \<Rightarrow> Fault OutOfBounds
                   | Some k \<Rightarrow> Ret ([Written_count (ucast n), Read_count (ucast m),
                       Text (take k (put_at 0 out stack))], s))))"

text \<open>The program of day 3 has the same text.\<close>

definition day3_test_main where "day3_test_main = test_main"

section \<open>Running it on a device\<close>

lemma test_bytes:
  "length (bytes_of ''sample data for writing'') = 23" "\<forall>b\<in>set (bytes_of ''sample data for writing''). b \<noteq> 0"
  by (simp_all add: bytes_of_def)

lemma test_data_split: "test_data = bytes_of ''sample data for writing'' @ 0 # replicate 36 0"
  unfolding test_data_def using replicate_Suc [of 36 "0 :: byte"] by simp

lemma test_data_len: "c_strlen test_data = Some 23"
  unfolding test_data_split using c_strlen_terminated [OF test_bytes(2)] test_bytes(1) by metis

lemma test_data_prefix: "take 24 test_data = bytes_of ''sample data for writing'' @ [0]"
  unfolding test_data_split using test_bytes(1) by simp

text \<open>A process in which \<open>data\<close> holds the string and every page is mapped.\<close>

definition test_process :: "uaccess \<Rightarrow> ptr \<Rightarrow> bool" where
  "test_process U data \<longleftrightarrow> uaccess_ok U \<and> user_bytes U data 60 = test_data \<and>
     (\<forall>p bs. fst (copy_to_user U p bs) = 0) \<and> (\<forall>p n. fst (copy_from_user U p n) = 0)"

context char_device
begin

lemma test_prints:
  assumes "test_process U data" and "wr_ready s" and "length stack = 60" and "\<not> sint fd < 0"
    and "60 \<le> length (obj s)"
  shows "\<exists>s'. test_main rd wr U data buff stack fd s =
    Ret ([Written_count 24, Read_count 60, Text (bytes_of ''sample data for writing'')], s')"
proof -
  have U: "uaccess_ok U" and bytes: "user_bytes U data 24 = bytes_of ''sample data for writing'' @ [0]"
    using assms(1) take_user_bytes [of 24 60 U data] test_data_prefix by (simp_all add: test_process_def)
  have x: "xfer_len 24 = 24" "xfer_len 60 = 60" by (simp_all add: xfer_len_def)
  have cf: "copy_from_user U data 24 = (0, bytes_of ''sample data for writing'' @ [0])"
    using copy_from_user_data [OF U, of data 24] assms(1) bytes by (simp add: prod_eq_iff test_process_def)
  obtain s1 where w: "wr U data 24 s = Ret (24, s1)" and ready: "rd_ready s1"
    and o: "obj s1 = put_at 0 (bytes_of ''sample data for writing'' @ [0]) (obj s)"
    using wr_moves [OF U assms(2), of 24 data] assms(5) by (auto simp: x cf)
  have lb: "length (bytes_of ''sample data for writing'' @ [0]) = 24" using test_bytes(1) by simp
  have len: "length (obj s1) = length (obj s)" using assms(5) lb unfolding o by (intro length_put_at) simp
  have ct: "copy_to_user U buff (take 60 (obj s1)) = (0, take 60 (obj s1))"
    using copy_to_user_data [OF U, of buff "take 60 (obj s1)"] assms(1) by (simp add: prod_eq_iff test_process_def min_def split: if_splits)
  obtain s2 where r: "rd U buff 60 s1 = Ret (60, take 60 (obj s1), s2)"
    using rd_moves [OF U ready, of 60 buff] assms(5) len by (auto simp: x ct)
  have "take 60 (obj s1) = bytes_of ''sample data for writing'' @ 0 # take 36 (drop 24 (obj s))"
    unfolding o put_at_def using test_bytes(1) by simp
  moreover have "put_at 0 (take 60 (obj s1)) stack = take 60 (obj s1)"
    using assms(3,5) len by (simp add: put_at_def)
  moreover have "c_strlen (bytes_of ''sample data for writing'' @ 0 # xs) = Some 23" for xs
    using c_strlen_terminated [OF test_bytes(2)] test_bytes(1) by metis
  ultimately show ?thesis
    using w r assms(4) test_bytes(1) by (simp add: test_main_def test_data_len)
qed

lemma test_faults:
  assumes "test_process U data" and "wr_ready s" and "\<not> sint fd < 0" and "length (obj s) < 60"
  shows "\<exists>f. test_main rd wr U data buff stack fd s = Fault f"
proof (cases "length (obj s) < 24")
  case True
  then have "length (obj s) < unat (xfer_len 24)" by (simp add: xfer_len_def)
  then show ?thesis
    using wr_overrun [OF assms(2), of 24 U data] assms(3) by (auto simp: test_main_def test_data_len)
next
  case False
  have U: "uaccess_ok U" using assms(1) by (simp add: test_process_def)
  have x: "xfer_len 24 = 24" "xfer_len 60 = 60" by (simp_all add: xfer_len_def)
  obtain n s1 where w: "wr U data 24 s = Ret (n, s1)" "rd_ready s1"
    "obj s1 = put_at 0 (snd (copy_from_user U data 24)) (obj s)"
    using wr_moves [OF U assms(2), of 24 data] False by (auto simp: x)
  have "length (obj s1) = length (obj s)"
    using False length_copy_from_user [OF U, of data 24] unfolding w(3) by (intro length_put_at) simp
  then have "length (obj s1) < unat (xfer_len 60)" using assms(4) by (simp add: x)
  then show ?thesis
    using rd_overrun [OF w(2), of 60 U buff] w(1) assms(3) by (auto simp: test_main_def test_data_len)
qed

end

section \<open>The five drivers\<close>

definition prints_sample :: "bool \<Rightarrow> (printed list \<times> 's) outcome \<Rightarrow> bool" where
  "prints_sample enough r \<longleftrightarrow>
     (if enough then \<exists>s. r = Ret ([Written_count 24, Read_count 60, Text (bytes_of ''sample data for writing'')], s)
      else \<exists>f. r = Fault f)"

context char_device
begin

lemma prints_sample:
  assumes "test_process U data" and "wr_ready s" and "length stack = 60" and "\<not> sint fd < 0"
  shows "prints_sample (60 \<le> length (obj s)) (test_main rd wr U data buff stack fd s)"
  using test_prints [OF assms] test_faults [OF assms(1,2,4)] by (auto simp: prints_sample_def)

end

lemma loaded_obj:
  "kernel_ok K \<Longrightarrow> plain_setup setup \<Longrightarrow> dynamic_init setup K g [] = (0, s, l) \<Longrightarrow>
     length (chr_obj s) = unat (GFP_KERNEL K)"
  "kernel_ok K \<Longrightarrow> plain_setup setup \<Longrightarrow> static_init setup K g [] = (0, s, l) \<Longrightarrow>
     length (chr_obj s) = unat (GFP_KERNEL K)"
  by (auto intro: chr_obj_after_init dynamic_init_success(2) [OF _ _ ledger_Nil] static_init_success(2) [OF _ _ ledger_Nil])

context kernel_lock
begin

lemmas ex7_prints = ex7_dev.prints_sample
lemmas ex8_prints = ex8_dev.prints_sample

end

lemmas init_unfold = dynamic_init_def chr_init_rest_def fail0_def fail1_def fail2_def Let_def

lemma ex7_init_sem: "ex7_module_init L K g l = (0, s, l') \<Longrightarrow> sem s = lk_init L"
  by (auto simp: ex7_module_init_def init_unfold sem_setup_def split: if_splits prod.splits)

lemma ex8_init_sem: "ex8_module_init K g l = (0, s, l') \<Longrightarrow> sem s = sem g"
  by (auto simp: ex8_module_init_def init_unfold no_setup_def split: if_splits prod.splits)

text \<open>C5: The test program of days 2 and 3 on the five drivers it is for. It cannot tell them apart:
  on each of them it prints that 24 bytes were written and 60 read, and the sample string,
  when the buffer object (of \<open>GFP_KERNEL\<close> bytes, because of the swapped \<open>kmalloc\<close> arguments)
  has 60 bytes, and on each of them it makes the driver run past the object when it has not.\<close>

theorem test_program_same_on_all:
  assumes "kernel_ok K" and "lock_laws V L" and "completion_laws C"
    and "test_process U data" and "length stack = 60" and "\<not> sint fd < 0"
    and "ex3_module_init K chr_image [] = (0, s3, l3)" and "ex4_module_init K chr_image [] = (0, s4, l4)"
    and "ex7_module_init L K (sem_image x) [] = (0, s7, l7)" and "ex8_module_init K (sem_image (lk_init L)) [] = (0, s8, l8)"
    and "ex9_module_init C K g [] = (0, s9, l9)"
  shows "prints_sample (60 \<le> unat (GFP_KERNEL K)) (test_main ex3_read ex3_write U data buff stack fd s3) \<and>
    prints_sample (60 \<le> unat (GFP_KERNEL K)) (test_main ex4_read ex4_write U data buff stack fd s4) \<and>
    prints_sample (60 \<le> unat (GFP_KERNEL K)) (day3_test_main (ex7_read L) (ex7_write L) U data buff stack fd s7) \<and>
    prints_sample (60 \<le> unat (GFP_KERNEL K)) (day3_test_main (ex8_read L) (ex8_write L) U data buff stack fd s8) \<and>
    prints_sample (60 \<le> unat (GFP_KERNEL K)) (day3_test_main (ex9_read C) (ex9_write C) U data buff stack fd s9)"
proof (intro conjI)
  note kl = kernel_lock.intro [OF assms(2)]
  note free = kernel_lock.init_free(2) [OF kl]
  show "prints_sample (60 \<le> unat (GFP_KERNEL K)) (test_main ex3_read ex3_write U data buff stack fd s3)"
    using ex3_dev.prints_sample [OF assms(4) _ assms(5,6)]
      loaded_obj(2) [OF assms(1) plain_no_setup assms(7) [unfolded ex3_module_init_def]] by metis
  show "prints_sample (60 \<le> unat (GFP_KERNEL K)) (test_main ex4_read ex4_write U data buff stack fd s4)"
    using ex4_dev.prints_sample [OF assms(4) _ assms(5,6)]
      loaded_obj(1) [OF assms(1) plain_no_setup assms(8) [unfolded ex4_module_init_def]] by metis
  show "prints_sample (60 \<le> unat (GFP_KERNEL K)) (day3_test_main (ex7_read L) (ex7_write L) U data buff stack fd s7)"
    using kernel_lock.ex7_prints [OF kl assms(4) _ assms(5,6)] ex7_init_sem [OF assms(9)] free
      loaded_obj(1) [OF assms(1) plain_sem_setup assms(9) [unfolded ex7_module_init_def]]
    unfolding day3_test_main_def by metis
  have "sem s8 = lk_init L" using ex8_init_sem [OF assms(10)] by (simp add: sem_image_def chr.defs)
  then show "prints_sample (60 \<le> unat (GFP_KERNEL K)) (day3_test_main (ex8_read L) (ex8_write L) U data buff stack fd s8)"
    using kernel_lock.ex8_prints [OF kl assms(4) _ assms(5,6)] free
      loaded_obj(1) [OF assms(1) plain_no_setup assms(10) [unfolded ex8_module_init_def]]
    unfolding day3_test_main_def by metis
  show "prints_sample (60 \<le> unat (GFP_KERNEL K)) (day3_test_main (ex9_read C) (ex9_write C) U data buff stack fd s9)"
    using char_device.prints_sample [OF ex9_device [OF assms(3)] assms(4) TrueI assms(5,6), of s9 buff]
      loaded_obj(1) [OF assms(1) plain_compl_setup assms(11) [unfolded ex9_module_init_def]]
    unfolding day3_test_main_def by metis
qed

definition test_memory :: "ptr \<Rightarrow> byte" where
  "test_memory a = (if unat a < 60 then test_data ! unat a else 0)"

theorem test_program_same_on_all_witness:
  "prints_sample True (test_main ex4_read ex4_write (mapped_uaccess test_memory) 0 100 (replicate 60 1) 3 ex4_loaded)"
proof -
  let ?U = "mapped_uaccess test_memory"
  have len: "length test_data = 60" by (simp add: test_data_def bytes_of_def)
  have "user_bytes ?U 0 60 = test_data"
  proof (rule nth_equalityI)
    fix i
    assume "i < length (user_bytes ?U 0 60)"
    then have i: "i < 60" by simp
    then have "unat (of_nat i :: ptr) = i" by (subst unat_of_nat) simp
    then show "user_bytes ?U 0 60 ! i = test_data ! i"
      using i by (simp add: user_bytes_def mapped_uaccess_def test_memory_def)
  qed (simp add: len)
  then have U: "test_process ?U 0"
    using mapped_uaccess_ok [of test_memory] by (simp add: test_process_def mapped_uaccess_def)
  let ?i3 = "ex3_module_init good_kernel chr_image []"
  let ?i7 = "ex7_module_init counting_lock good_kernel (sem_image 0) []"
  let ?i8 = "ex8_module_init good_kernel (sem_image (lk_init counting_lock)) []"
  let ?i9 = "ex9_module_init counting_completion good_kernel (chr.extend chr_image \<lparr>setup_done = 0\<rparr>) []"
  have "fst ?i3 = 0" "fst ?i7 = 0" "fst ?i8 = 0" "fst ?i9 = 0"
    by (simp_all add: ex3_module_init_def ex7_module_init_def ex8_module_init_def ex9_module_init_def init_defs
        no_setup_def sem_setup_def compl_setup_def sem_image_def chr.defs chr_sem.defs)
  then have i: "?i3 = (0, fst (snd ?i3), snd (snd ?i3))" "?i7 = (0, fst (snd ?i7), snd (snd ?i7))"
    "?i8 = (0, fst (snd ?i8), snd (snd ?i8))" "?i9 = (0, fst (snd ?i9), snd (snd ?i9))"
    by (simp_all add: prod_eq_iff)
  show ?thesis
    using test_program_same_on_all [OF good_kernel_ok counting_lock_laws counting_completion_laws U _ _
        i(1) ex4_loads i(2,3,4), of "replicate 60 1" 3 100] by (simp add: good_GFP)
qed

end
