(* ===== verification/Char_Family.thy ===== *)
theory Char_Family
  imports Test_Programs Char_Ioctl Char_Wait
begin

text \<open>
  What all the sample character drivers have in common under any sequence of calls: the
  typing invariant of the buffer, an object of \<open>GFP_KERNEL\<close> bytes, and that a buffer of
  4000 bytes is all that memory safety needs. Proved once from the device contract.
\<close>

section \<open>Runs of calls on a device\<close>

text \<open>A call that waits has no effect, a fault ends the run.\<close>

fun dev_run ::
    "(uaccess \<Rightarrow> ptr \<Rightarrow> size_t \<Rightarrow> 's \<Rightarrow> (ssize_t \<times> byte list \<times> 's) outcome) \<Rightarrow>
     (uaccess \<Rightarrow> ptr \<Rightarrow> size_t \<Rightarrow> 's \<Rightarrow> (ssize_t \<times> 's) outcome) \<Rightarrow> call list \<Rightarrow> 's \<Rightarrow> 's outcome" where
  "dev_run rd wr [] s = Ret s"
| "dev_run rd wr (Rd U p n # cs) s =
     (case rd U p n s of
        Ret (r, out, s') \<Rightarrow> dev_run rd wr cs s'
      | Block \<Rightarrow> dev_run rd wr cs s
      | Fault f \<Rightarrow> Fault f)"
| "dev_run rd wr (Wr U p n # cs) s =
     (case wr U p n s of
        Ret (r, s') \<Rightarrow> dev_run rd wr cs s'
      | Block \<Rightarrow> dev_run rd wr cs s
      | Fault f \<Rightarrow> Fault f)"

fun call_user :: "call \<Rightarrow> uaccess" where
  "call_user (Rd U p n) = U"
| "call_user (Wr U p n) = U"

definition typed_device ::
    "(uaccess \<Rightarrow> ptr \<Rightarrow> size_t \<Rightarrow> 's \<Rightarrow> (ssize_t \<times> byte list \<times> 's) outcome) \<Rightarrow>
     (uaccess \<Rightarrow> ptr \<Rightarrow> size_t \<Rightarrow> 's \<Rightarrow> (ssize_t \<times> 's) outcome) \<Rightarrow> ('s \<Rightarrow> byte list) \<Rightarrow> nat \<Rightarrow> 's \<Rightarrow> bool" where
  "typed_device rd wr obj len s \<longleftrightarrow>
     (\<forall>cs. (\<forall>c\<in>set cs. uaccess_ok (call_user c)) \<longrightarrow>
        (\<forall>t. dev_run rd wr cs s = Ret t \<longrightarrow> length (obj t) = len) \<and>
        (4000 \<le> len \<longrightarrow> (\<exists>t. dev_run rd wr cs s = Ret t)))"

context char_device
begin

lemma rd_keeps:
  assumes "uaccess_ok U"
  shows "case rd U p n s of Ret (r, out, s') \<Rightarrow> length (obj s') = length (obj s)
    | Block \<Rightarrow> True | Fault f \<Rightarrow> length (obj s) < 4000"
proof (cases "rd_ready s")
  case ready: True
  show ?thesis
  proof (cases "unat (xfer_len n) \<le> length (obj s)")
    case True
    then show ?thesis using rd_moves [OF assms ready True, of p] by auto
  next
    case False
    then have "length (obj s) < unat (xfer_len n)" by simp
    moreover from rd_overrun [OF ready this] obtain f where "rd U p n s = Fault f" by blast
    ultimately show ?thesis by (simp add: xfer_len_unat)
  qed
qed (simp add: rd_waits)

lemma wr_keeps:
  assumes "uaccess_ok U"
  shows "case wr U p n s of Ret (r, s') \<Rightarrow> length (obj s') = length (obj s)
    | Block \<Rightarrow> True | Fault f \<Rightarrow> length (obj s) < 4000"
proof (cases "wr_ready s")
  case ready: True
  show ?thesis
  proof (cases "unat (xfer_len n) \<le> length (obj s)")
    case True
    then show ?thesis
      using wr_moves [OF assms ready True, of p] length_copy_from_user [OF assms, of p "xfer_len n"]
      by (auto simp: length_put_at)
  next
    case False
    then have "length (obj s) < unat (xfer_len n)" by simp
    moreover from wr_overrun [OF ready this] obtain f where "wr U p n s = Fault f" by blast
    ultimately show ?thesis by (simp add: xfer_len_unat)
  qed
qed (simp add: wr_waits)

lemma dev_run_typed:
  "\<forall>c\<in>set cs. uaccess_ok (call_user c) \<Longrightarrow>
     case dev_run rd wr cs s of Ret t \<Rightarrow> length (obj t) = length (obj s)
     | Block \<Rightarrow> False | Fault f \<Rightarrow> length (obj s) < 4000"
proof (induction cs arbitrary: s)
  case Nil
  then show ?case by simp
next
  case (Cons c cs)
  have IH: "case dev_run rd wr cs s of Ret t \<Rightarrow> length (obj t) = length (obj s)
     | Block \<Rightarrow> False | Fault f \<Rightarrow> length (obj s) < 4000" for s
    using Cons.IH Cons.prems by simp
  have ok: "uaccess_ok (call_user c)" using Cons.prems by simp
  show ?case
  proof (cases c)
    case c: (Rd V q m)
    then have "uaccess_ok V" using ok by simp
    from rd_keeps [OF this, where p = q and n = m and s = s] show ?thesis
    proof (cases "rd V q m s")
      case (Ret x)
      then show ?thesis
        using rd_keeps [OF \<open>uaccess_ok V\<close>, where p = q and n = m and s = s] IH [of "snd (snd x)"] c
        by (cases "dev_run rd wr cs (snd (snd x))") (auto split: prod.splits)
    qed (use IH [of s] c in \<open>auto\<close>)
  next
    case c: (Wr V q m)
    then have "uaccess_ok V" using ok by simp
    from wr_keeps [OF this, where p = q and n = m and s = s] show ?thesis
    proof (cases "wr V q m s")
      case (Ret x)
      then show ?thesis
        using wr_keeps [OF \<open>uaccess_ok V\<close>, where p = q and n = m and s = s] IH [of "snd x"] c
        by (cases "dev_run rd wr cs (snd x)") (auto split: prod.splits)
    qed (use IH [of s] c in \<open>auto\<close>)
  qed
qed

lemma typed_device: "length (obj s) = len \<Longrightarrow> typed_device rd wr obj len s"
  using dev_run_typed unfolding typed_device_def by (fastforce split: outcome.splits)

end

context kernel_lock
begin

lemmas typed_ex7 = ex7_dev.typed_device
lemmas typed_ex8 = ex8_dev.typed_device
lemmas typed_ex11 = ex11_dev.typed_device
lemmas typed_ex12 = ex12_dev.typed_device
lemmas typed_ex13 = ex13_dev.typed_device
lemmas typed_ex14 = ex14_dev.typed_device

end

text \<open>C12: The typing of the drivers' buffer. After a successful load of any of the nine drivers and
  any sequence of reads and writes, the buffer is still an object of exactly \<open>GFP_KERNEL\<close>
  bytes; and where that number is at least 4000 no such sequence ever makes a driver touch
  memory outside its objects.\<close>

theorem char_devices_typed:
  assumes "kernel_ok K" and "lock_laws V L" and "completion_laws C"
    and "ex3_module_init K g3 [] = (0, s3, l3)" and "ex4_module_init K g4 [] = (0, s4, l4)"
    and "ex7_module_init L K g7 [] = (0, s7, l7)" and "ex8_module_init K g8 [] = (0, s8, l8)"
    and "ex9_module_init C K g9 [] = (0, s9, l9)" and "ex11_module_init L K g11 [] = (0, s11, l11)"
    and "ex12_module_init L K g12 [] = (0, s12, l12)" and "ex13_module_init L K g13 [] = (0, s13, l13)"
    and "ex14_module_init L K g14 [] = (0, s14, l14)"
  shows "typed_device ex3_read ex3_write chr_obj (unat (GFP_KERNEL K)) s3 \<and>
    typed_device ex4_read ex4_write chr_obj (unat (GFP_KERNEL K)) s4 \<and>
    typed_device (ex7_read L) (ex7_write L) chr_obj (unat (GFP_KERNEL K)) s7 \<and>
    typed_device (ex8_read L) (ex8_write L) chr_obj (unat (GFP_KERNEL K)) s8 \<and>
    typed_device (ex9_read C) (ex9_write C) chr_obj (unat (GFP_KERNEL K)) s9 \<and>
    typed_device (ex11_read L) (ex11_write L) chr_obj (unat (GFP_KERNEL K)) s11 \<and>
    typed_device (ex12_read False) (ex12_write L) chr_obj (unat (GFP_KERNEL K)) s12 \<and>
    typed_device (ex13_read False) (ex13_write L) chr_obj (unat (GFP_KERNEL K)) s13 \<and>
    typed_device (ex14_read False) (ex14_write L) chr_obj (unat (GFP_KERNEL K)) s14"
proof -
  note kl = kernel_lock.intro [OF assms(2)]
  note dyn = loaded_obj(1) [OF assms(1)]
  show ?thesis
    using ex3_dev.typed_device [OF loaded_obj(2) [OF assms(1) plain_no_setup assms(4) [unfolded ex3_module_init_def]]]
      ex4_dev.typed_device [OF dyn [OF plain_no_setup assms(5) [unfolded ex4_module_init_def]]]
      kernel_lock.typed_ex7 [OF kl dyn [OF plain_sem_setup assms(6) [unfolded ex7_module_init_def]]]
      kernel_lock.typed_ex8 [OF kl dyn [OF plain_no_setup assms(7) [unfolded ex8_module_init_def]]]
      char_device.typed_device [OF ex9_device [OF assms(3)] dyn [OF plain_compl_setup assms(8) [unfolded ex9_module_init_def]]]
      kernel_lock.typed_ex11 [OF kl dyn [OF plain_sem_setup assms(9) [unfolded ex11_module_init_def]]]
      kernel_lock.typed_ex12 [OF kl dyn [OF plain_wait_setup assms(10) [unfolded ex12_module_init_def]]]
      kernel_lock.typed_ex13 [OF kl dyn [OF plain_wait_setup assms(11) [unfolded ex13_module_init_def]]]
      kernel_lock.typed_ex14 [OF kl dyn [OF plain_wait_setup assms(12) [unfolded ex14_module_init_def]]]
    by (intro conjI)
qed

definition big_gfp :: kernel where
  "big_gfp = good_kernel\<lparr>GFP_KERNEL := 4096\<rparr>"

theorem char_devices_typed_witness:
  "\<exists>s t. ex4_module_init big_gfp chr_image [] = (0, s, snd (snd (ex4_module_init big_gfp chr_image []))) \<and>
     dev_run ex4_read ex4_write [Wr sevens 1 5000, Rd sevens 1 5000, Wr sevens 2 4] s = Ret t \<and> length (chr_obj t) = 4096"
proof -
  have K: "kernel_ok big_gfp" using good_kernel_ok by (simp add: kernel_ok_def big_gfp_def)
  let ?i3 = "ex3_module_init big_gfp chr_image []"
  let ?i4 = "ex4_module_init big_gfp chr_image []"
  let ?i7 = "ex7_module_init counting_lock big_gfp (sem_image 0) []"
  let ?i8 = "ex8_module_init big_gfp (sem_image (0 :: nat)) []"
  let ?i9 = "ex9_module_init counting_completion big_gfp (chr.extend chr_image \<lparr>setup_done = 0\<rparr>) []"
  let ?i11 = "ex11_module_init counting_lock big_gfp (sem_image 0) []"
  let ?i12 = "ex12_module_init counting_lock big_gfp (wait_image 0) []"
  let ?i13 = "ex13_module_init counting_lock big_gfp (wait_image 0) []"
  let ?i14 = "ex14_module_init counting_lock big_gfp (wait_image 0) []"
  note unfolds = init_defs big_gfp_def no_setup_def sem_setup_def compl_setup_def wait_setup_def sem_image_def
    wait_image_def chr.defs chr_sem.defs
  have "fst ?i3 = 0" "fst ?i4 = 0" "fst ?i7 = 0" "fst ?i8 = 0" "fst ?i9 = 0"
    by (simp_all add: ex3_module_init_def ex4_module_init_def ex7_module_init_def ex8_module_init_def
        ex9_module_init_def unfolds)
  moreover have "fst ?i11 = 0" "fst ?i12 = 0" "fst ?i13 = 0" "fst ?i14 = 0"
    by (simp_all add: ex11_module_init_def ex12_module_init_def ex13_module_init_def ex14_module_init_def unfolds)
  ultimately have i: "?i3 = (0, fst (snd ?i3), snd (snd ?i3))" "?i4 = (0, fst (snd ?i4), snd (snd ?i4))"
    "?i7 = (0, fst (snd ?i7), snd (snd ?i7))" "?i8 = (0, fst (snd ?i8), snd (snd ?i8))"
    "?i9 = (0, fst (snd ?i9), snd (snd ?i9))" "?i11 = (0, fst (snd ?i11), snd (snd ?i11))"
    "?i12 = (0, fst (snd ?i12), snd (snd ?i12))" "?i13 = (0, fst (snd ?i13), snd (snd ?i13))"
    "?i14 = (0, fst (snd ?i14), snd (snd ?i14))"
    by (simp_all add: prod_eq_iff)
  have "typed_device ex4_read ex4_write chr_obj (unat (GFP_KERNEL big_gfp)) (fst (snd ?i4))"
    using char_devices_typed [OF K counting_lock_laws counting_completion_laws i] by blast
  then obtain t where "dev_run ex4_read ex4_write [Wr sevens 1 5000, Rd sevens 1 5000, Wr sevens 2 4] (fst (snd ?i4)) = Ret t"
    and "length (chr_obj t) = 4096"
    using mapped_uaccess_ok
    by (auto simp: typed_device_def big_gfp_def dest!: spec [where x = "[Wr sevens 1 5000, Rd sevens 1 5000, Wr sevens 2 4]"])
  then show ?thesis using i(2) by blast
qed

end
