(* ===== verification/File_Operations.thy ===== *)
theory File_Operations
  imports Char_Family Mmap_Driver
begin

text \<open>
  The \<open>file_operations\<close> tables of the character drivers, and the system calls that go through
  them. The kernel calls the function of a slot; what it does where a driver leaves the slot
  empty is its own and documented behaviour, the record \<open>vfs\<close> with the laws \<open>vfs_ok\<close>.
\<close>

section \<open>The tables\<close>

text \<open>
  A slot for reading and writing also gets the file position and returns it; only \<open>ex27.c\<close>
  uses it. The drivers that wait are shown without pending signals.
\<close>

record 's fops =
  fo_open :: "('s \<Rightarrow> c_int \<times> 's) option"
  fo_release :: "('s \<Rightarrow> c_int \<times> 's) option"
  fo_read :: "(uaccess \<Rightarrow> ptr \<Rightarrow> size_t \<Rightarrow> loff_t \<Rightarrow> 's \<Rightarrow> (ssize_t \<times> byte list \<times> loff_t \<times> 's) outcome) option"
  fo_write :: "(uaccess \<Rightarrow> ptr \<Rightarrow> size_t \<Rightarrow> loff_t \<Rightarrow> 's \<Rightarrow> (ssize_t \<times> loff_t \<times> 's) outcome) option"
  fo_llseek :: "(loff_t \<Rightarrow> loff_t \<Rightarrow> c_int \<Rightarrow> loff_t \<times> loff_t) option"
  fo_ioctl :: "(uaccess \<Rightarrow> c_uint \<Rightarrow> c_ulong \<Rightarrow> 's \<Rightarrow> (ssize_t \<times> 's) outcome) option"
  fo_poll :: "('s \<Rightarrow> c_uint) option"
  fo_mmap :: "(vm_area_struct \<Rightarrow> 's \<Rightarrow> c_int \<times> vm_area_struct \<times> 's) option"

definition keep_pos_read ::
    "(uaccess \<Rightarrow> ptr \<Rightarrow> size_t \<Rightarrow> 's \<Rightarrow> (ssize_t \<times> byte list \<times> 's) outcome) \<Rightarrow>
      uaccess \<Rightarrow> ptr \<Rightarrow> size_t \<Rightarrow> loff_t \<Rightarrow> 's \<Rightarrow> (ssize_t \<times> byte list \<times> loff_t \<times> 's) outcome" where
  "keep_pos_read rd U p n pos s = obind (rd U p n s) (\<lambda>(ret, out, s). Ret (ret, out, pos, s))"

definition keep_pos_write ::
    "(uaccess \<Rightarrow> ptr \<Rightarrow> size_t \<Rightarrow> 's \<Rightarrow> (ssize_t \<times> 's) outcome) \<Rightarrow>
      uaccess \<Rightarrow> ptr \<Rightarrow> size_t \<Rightarrow> loff_t \<Rightarrow> 's \<Rightarrow> (ssize_t \<times> loff_t \<times> 's) outcome" where
  "keep_pos_write wr U p n pos s = obind (wr U p n s) (\<lambda>(ret, s). Ret (ret, pos, s))"

definition ex3_fops :: "'a chr_scheme fops" where
  "ex3_fops = \<lparr>fo_open = Some ex3_open, fo_release = Some ex3_release,
     fo_read = Some (keep_pos_read (ex3_read)), fo_write = Some (keep_pos_write (ex3_write)),
     fo_llseek = None, fo_ioctl = None, fo_poll = None, fo_mmap = None\<rparr>"

definition ex4_fops :: "'a chr_scheme fops" where
  "ex4_fops = \<lparr>fo_open = Some ex4_open, fo_release = Some ex4_release,
     fo_read = Some (keep_pos_read (ex4_read)), fo_write = Some (keep_pos_write (ex4_write)),
     fo_llseek = None, fo_ioctl = None, fo_poll = None, fo_mmap = None\<rparr>"

definition ex7_fops :: "'l lockops \<Rightarrow> ('l, 'a) chr_sem_scheme fops" where
  "ex7_fops L = \<lparr>fo_open = Some ex7_open, fo_release = Some ex7_release,
     fo_read = Some (keep_pos_read (ex7_read L)), fo_write = Some (keep_pos_write (ex7_write L)),
     fo_llseek = None, fo_ioctl = None, fo_poll = None, fo_mmap = None\<rparr>"

definition ex8_fops :: "'l lockops \<Rightarrow> ('l, 'a) chr_sem_scheme fops" where
  "ex8_fops L = \<lparr>fo_open = Some ex8_open, fo_release = Some ex8_release,
     fo_read = Some (keep_pos_read (ex8_read L)), fo_write = Some (keep_pos_write (ex8_write L)),
     fo_llseek = None, fo_ioctl = None, fo_poll = None, fo_mmap = None\<rparr>"

definition ex9_fops :: "'c complops \<Rightarrow> ('c, 'a) chr_compl_scheme fops" where
  "ex9_fops C = \<lparr>fo_open = Some ex9_open, fo_release = Some ex9_release,
     fo_read = Some (keep_pos_read (ex9_read C)), fo_write = Some (keep_pos_write (ex9_write C)),
     fo_llseek = None, fo_ioctl = None, fo_poll = None, fo_mmap = None\<rparr>"

definition ex10_fops :: "'l lockops \<Rightarrow> 'q seqops \<Rightarrow> ('l, 'q, 'a) chr_seq_scheme fops" where
  "ex10_fops L Q = \<lparr>fo_open = Some ex10_open, fo_release = Some ex10_release,
     fo_read = Some (keep_pos_read (ex10_read Q)), fo_write = Some (keep_pos_write (ex10_write L)),
     fo_llseek = None, fo_ioctl = None, fo_poll = None, fo_mmap = None\<rparr>"

definition ex11_fops :: "'l lockops \<Rightarrow> ioctl_abi \<Rightarrow> ('l, 'a) chr_sem_scheme fops" where
  "ex11_fops L A = \<lparr>fo_open = Some ex11_open, fo_release = Some ex11_release,
     fo_read = Some (keep_pos_read (ex11_read L)), fo_write = Some (keep_pos_write (ex11_write L)),
     fo_llseek = None, fo_ioctl = Some (ex11_ioctl A), fo_poll = None, fo_mmap = None\<rparr>"

definition ex12_fops :: "'l lockops \<Rightarrow> 'l chr_wait fops" where
  "ex12_fops L = \<lparr>fo_open = Some ex12_open, fo_release = Some ex12_release,
     fo_read = Some (keep_pos_read (ex12_read False)), fo_write = Some (keep_pos_write (ex12_write L)),
     fo_llseek = None, fo_ioctl = None, fo_poll = None, fo_mmap = None\<rparr>"

definition ex13_fops :: "'l lockops \<Rightarrow> poll_abi \<Rightarrow> 'l chr_wait fops" where
  "ex13_fops L A = \<lparr>fo_open = Some ex13_open, fo_release = Some ex13_release,
     fo_read = Some (keep_pos_read (ex13_read False)), fo_write = Some (keep_pos_write (ex13_write L)),
     fo_llseek = None, fo_ioctl = None, fo_poll = Some (ex13_poll A), fo_mmap = None\<rparr>"

definition ex14_fops :: "'l lockops \<Rightarrow> loff_t \<Rightarrow> 'l chr_wait fops" where
  "ex14_fops L uninit = \<lparr>fo_open = Some ex14_open, fo_release = Some ex14_release,
     fo_read = Some (keep_pos_read (ex14_read False)), fo_write = Some (keep_pos_write (ex14_write L)),
     fo_llseek = Some (ex14_seek uninit), fo_ioctl = None, fo_poll = None, fo_mmap = None\<rparr>"

definition ex27_fops :: "mmap_kernel \<Rightarrow> cdev27 fops" where
  "ex27_fops K = \<lparr>fo_open = Some char_dev_open, fo_release = Some char_dev_release,
     fo_read = Some char_dev_read, fo_write = Some char_dev_write,
     fo_llseek = None, fo_ioctl = None, fo_poll = None, fo_mmap = Some (char_dev_mmap K)\<rparr>"

section \<open>System calls\<close>

record vfs =
  no_read :: ssize_t
  no_write :: ssize_t
  no_ioctl :: ssize_t
  no_mmap :: c_int
  default_llseek :: "loff_t \<Rightarrow> loff_t \<Rightarrow> c_int \<Rightarrow> loff_t \<times> loff_t"
  default_poll :: c_uint

definition sys_read ::
    "vfs \<Rightarrow> 's fops \<Rightarrow> uaccess \<Rightarrow> ptr \<Rightarrow> size_t \<Rightarrow> loff_t \<Rightarrow> 's \<Rightarrow> (ssize_t \<times> byte list \<times> loff_t \<times> 's) outcome" where
  "sys_read V F U p n pos s = (case fo_read F of None \<Rightarrow> Ret (no_read V, [], pos, s) | Some rd \<Rightarrow> rd U p n pos s)"

definition sys_write ::
    "vfs \<Rightarrow> 's fops \<Rightarrow> uaccess \<Rightarrow> ptr \<Rightarrow> size_t \<Rightarrow> loff_t \<Rightarrow> 's \<Rightarrow> (ssize_t \<times> loff_t \<times> 's) outcome" where
  "sys_write V F U p n pos s = (case fo_write F of None \<Rightarrow> Ret (no_write V, pos, s) | Some wr \<Rightarrow> wr U p n pos s)"

definition sys_lseek :: "vfs \<Rightarrow> 's fops \<Rightarrow> loff_t \<Rightarrow> c_int \<Rightarrow> loff_t \<Rightarrow> loff_t \<times> loff_t" where
  "sys_lseek V F off whence pos = (case fo_llseek F of None \<Rightarrow> default_llseek V pos off whence | Some sk \<Rightarrow> sk pos off whence)"

definition sys_ioctl :: "vfs \<Rightarrow> 's fops \<Rightarrow> uaccess \<Rightarrow> c_uint \<Rightarrow> c_ulong \<Rightarrow> 's \<Rightarrow> (ssize_t \<times> 's) outcome" where
  "sys_ioctl V F U cmd arg s = (case fo_ioctl F of None \<Rightarrow> Ret (no_ioctl V, s) | Some io \<Rightarrow> io U cmd arg s)"

definition poll_mask :: "vfs \<Rightarrow> 's fops \<Rightarrow> 's \<Rightarrow> c_uint" where
  "poll_mask V F s = (case fo_poll F of None \<Rightarrow> default_poll V | Some pl \<Rightarrow> pl s)"

definition sys_mmap :: "vfs \<Rightarrow> 's fops \<Rightarrow> vm_area_struct \<Rightarrow> 's \<Rightarrow> c_int \<times> vm_area_struct \<times> 's" where
  "sys_mmap V F vma s = (case fo_mmap F of None \<Rightarrow> (no_mmap V, vma, s) | Some mm \<Rightarrow> mm vma s)"

lemmas sys_defs = sys_read_def sys_write_def sys_lseek_def sys_ioctl_def poll_mask_def sys_mmap_def

text \<open>
  Documented: an empty \<open>read\<close> or \<open>write\<close> slot gives \<open>-EINVAL\<close>, an empty \<open>unlocked_ioctl\<close>
  \<open>-ENOTTY\<close>, an empty \<open>mmap\<close> \<open>-ENODEV\<close>, and a device without \<open>poll\<close> counts as readable.
\<close>

definition vfs_ok :: "poll_abi \<Rightarrow> vfs \<Rightarrow> bool" where
  "vfs_ok A V \<longleftrightarrow> no_read V = - EINVAL \<and> no_write V = - EINVAL \<and> no_ioctl V = - ENOTTY \<and>
     no_mmap V = - ENODEV \<and> default_poll V AND POLLIN A = POLLIN A"

definition linux_vfs :: vfs where
  "linux_vfs = \<lparr>no_read = - EINVAL, no_write = - EINVAL, no_ioctl = - ENOTTY, no_mmap = - ENODEV,
     default_llseek = (\<lambda>pos off whence. if whence = 0 then (off, off) else if whence = 1 then (pos + off, pos + off)
       else (- EINVAL, pos)), default_poll = 0x145\<rparr>"

lemma linux_vfs_ok: "vfs_ok linux_poll linux_vfs"
  by (simp add: vfs_ok_def linux_vfs_def linux_poll_def)

text \<open>A call on a file of its own, at position zero.\<close>

definition fresh_read ::
    "vfs \<Rightarrow> 's fops \<Rightarrow> uaccess \<Rightarrow> ptr \<Rightarrow> size_t \<Rightarrow> 's \<Rightarrow> (ssize_t \<times> byte list \<times> 's) outcome" where
  "fresh_read V F U p n s = obind (sys_read V F U p n 0 s) (\<lambda>(ret, out, pos, s). Ret (ret, out, s))"

definition fresh_write :: "vfs \<Rightarrow> 's fops \<Rightarrow> uaccess \<Rightarrow> ptr \<Rightarrow> size_t \<Rightarrow> 's \<Rightarrow> (ssize_t \<times> 's) outcome" where
  "fresh_write V F U p n s = obind (sys_write V F U p n 0 s) (\<lambda>(ret, pos, s). Ret (ret, s))"

lemma fresh_keep_pos:
  "fo_read F = Some (keep_pos_read rd) \<Longrightarrow> fresh_read V F = rd"
  "fo_write F = Some (keep_pos_write wr) \<Longrightarrow> fresh_write V F = wr"
proof -
  show "fresh_read V F = rd" if "fo_read F = Some (keep_pos_read rd)"
  proof (intro ext)
    fix U p n s
    show "fresh_read V F U p n s = rd U p n s"
      using that by (cases "rd U p n s") (auto simp: fresh_read_def sys_read_def keep_pos_read_def)
  qed
  show "fresh_write V F = wr" if "fo_write F = Some (keep_pos_write wr)"
  proof (intro ext)
    fix U p n s
    show "fresh_write V F U p n s = wr U p n s"
      using that by (cases "wr U p n s") (auto simp: fresh_write_def sys_write_def keep_pos_write_def)
  qed
qed

text \<open>
  Seeking on \<open>ex14.c\<close> has no effect on what is read: whatever the seek was, and it always
  ends at byte 4000, a read returns the same result, bytes and device state as before it.
\<close>

lemma ex14_seek_then_read:
  "fst (sys_lseek V (ex14_fops L uninit) off whence pos) = 4000 \<and>
   obind (sys_read V (ex14_fops L uninit) U p n (snd (sys_lseek V (ex14_fops L uninit) off whence pos)) s)
     (\<lambda>(ret, out, pos, s). Ret (ret, out, s)) =
   obind (sys_read V (ex14_fops L uninit) U p n pos s) (\<lambda>(ret, out, pos, s). Ret (ret, out, s))"
  by (cases "ex14_read False U p n s")
    (auto simp: sys_lseek_def sys_read_def ex14_fops_def ex14_seek_goes_to_end keep_pos_read_def)

end
