(* ===== verification/Poll_Client.thy ===== *)
theory Poll_Client
  imports File_Operations
begin

text \<open>
  The program of \<open>day_05/polltest.c\<close>, which waits for a device with \<open>poll\<close>, reads it and
  prints what it read, for ever. It runs against a table of file operations, with other
  processes calling the same device. On \<open>ex13.c\<close>, for which it is meant, what it prints is
  compared with a mailbox that has no driver in it.
\<close>

section \<open>The program\<close>

datatype poll_line =
    Poll_failed
  | Poll_returns c_int "16 word"
  | Reading c_int "byte list"
  | Pollin_not_set
  | Timed_out

datatype ending = Goes_on | Exits | Waits_in_read | Breaks fault

text \<open>
  One turn of the loop: whether \<open>poll\<close> fails, the calls of other processes until it returns,
  and those between it and the \<open>read\<close>. The system call \<open>poll\<close> is a parameter: from the mask
  the driver reports when the call ends and the events asked for, its result and \<open>revents\<close>.
\<close>

record turn =
  poll_fails :: bool
  until_poll :: "call list"
  until_read :: "call list"

record poll_call = poll_abi +
  POLLERR :: c_uint
  POLLHUP :: c_uint
  poll_result :: "c_uint \<Rightarrow> 16 word \<Rightarrow> c_int \<times> 16 word"

definition others :: "vfs \<Rightarrow> 's fops \<Rightarrow> call list \<Rightarrow> 's \<Rightarrow> 's outcome" where
  "others V F = dev_run (fresh_read V F) (fresh_write V F)"

definition before :: "'a list \<Rightarrow> 'a list \<times> 'b \<Rightarrow> 'a list \<times> 'b" where
  "before xs r = (xs @ fst r, snd r)"

text \<open>
  \<open>printf("... %s", rc, buffer)\<close> after a read that left \<open>out\<close> in the buffer: the length of
  the text, and a fault when it does not end in the object.
\<close>

definition print_buffer :: "byte list \<Rightarrow> byte list \<Rightarrow> (byte list \<times> byte list) outcome" where
  "print_buffer heap out =
     (if length heap < length out then Fault OutOfBounds
      else let heap = put_at 0 out heap
           in case c_strlen heap of None \<Rightarrow> Fault OutOfBounds | Some k \<Rightarrow> Ret (take k heap, heap))"

text \<open>
  The loop over a list of turns. \<open>heap\<close> is the object that \<open>buffer\<close> points to, empty when
  \<open>malloc\<close> has failed; a negative descriptor is ignored by \<open>poll\<close>.
\<close>

fun poll_loop ::
    "vfs \<Rightarrow> poll_call \<Rightarrow> 's fops \<Rightarrow> uaccess \<Rightarrow> c_int \<Rightarrow> ptr \<Rightarrow> turn list \<Rightarrow> byte list \<Rightarrow> loff_t \<Rightarrow> 's \<Rightarrow>
      poll_line list \<times> ending" where
  "poll_loop V A F U fd buf [] heap pos s = ([], Goes_on)"
| "poll_loop V A F U fd buf (t # ts) heap pos s =
     (case others V F (until_poll t) s of
        Fault f \<Rightarrow> ([], Breaks f)
      | Block \<Rightarrow> ([], Goes_on)
      | Ret s \<Rightarrow>
          (let events = ucast (POLLIN A);
               (rc, revents) = (if poll_fails t then (- 1, 0)
                                else if sint fd < 0 then (0, 0) else poll_result A (poll_mask V F s) events)
           in if sint rc < 0 then ([Poll_failed], Exits)
              else if 0 < sint rc then
                before [Poll_returns rc revents]
                  (if revents AND events \<noteq> 0 then
                     (case others V F (until_read t) s of
                        Fault f \<Rightarrow> ([], Breaks f)
                      | Block \<Rightarrow> ([], Goes_on)
                      | Ret s \<Rightarrow>
                          (case sys_read V F U buf 32 pos s of
                             Fault f \<Rightarrow> ([], Breaks f)
                           | Block \<Rightarrow> ([], Waits_in_read)
                           | Ret (ret, out, pos, s) \<Rightarrow>
                               (case print_buffer heap out of
                                  Fault f \<Rightarrow> ([], Breaks f)
                                | Block \<Rightarrow> ([], Goes_on)
                                | Ret (txt, heap) \<Rightarrow>
                                    before [Reading (ucast ret) txt] (poll_loop V A F U fd buf ts heap pos s))))
                   else before [Pollin_not_set] (poll_loop V A F U fd buf ts heap pos s))
              else before [Timed_out] (poll_loop V A F U fd buf ts heap pos s)))"

section \<open>The mailbox\<close>

text \<open>
  What the program would print on a mailbox with room for one letter: \<open>m\<close> is the contents,
  \<open>pending\<close> whether something was put in since they were read. Only writes of others count.
\<close>

fun stored :: "call list \<Rightarrow> byte list \<Rightarrow> byte list" where
  "stored [] m = m"
| "stored (Rd U p n # cs) m = stored cs m"
| "stored (Wr U p n # cs) m = stored cs (put_at 0 (user_bytes U p (min 4000 (unat n))) m)"

fun poll_spec :: "16 word \<Rightarrow> bool \<Rightarrow> turn list \<Rightarrow> byte list \<Rightarrow> poll_line list \<times> ending" where
  "poll_spec pollin pending [] m = ([], Goes_on)"
| "poll_spec pollin pending (t # ts) m =
     (let m = stored (until_poll t) m;
          pending = (pending \<or> until_poll t \<noteq> [])
      in if poll_fails t then ([Poll_failed], Exits)
         else if pending then
           let m = stored (until_read t) m
           in case c_strlen (take 32 m) of
                None \<Rightarrow> ([Poll_returns 1 pollin], Breaks OutOfBounds)
              | Some k \<Rightarrow> before [Poll_returns 1 pollin, Reading 32 (take k m)] (poll_spec pollin False ts m)
         else before [Timed_out] (poll_spec pollin False ts m))"

text \<open>
  Documented: without error conditions \<open>poll\<close> on one descriptor returns 0 when none of the
  events asked for holds and 1 otherwise, with \<open>revents\<close> the events that do; the event bits
  fit the 16 bits of the field.
\<close>

definition poll_laws :: "poll_call \<Rightarrow> bool" where
  "poll_laws A \<longleftrightarrow> POLLIN A \<noteq> 0 \<and> ucast (ucast (POLLIN A) :: 16 word) = POLLIN A \<and>
     (POLLIN A OR POLLRDNORM A) AND (POLLERR A OR POLLHUP A) = 0 \<and>
     (\<forall>mask ev. mask AND (POLLERR A OR POLLHUP A) = 0 \<longrightarrow>
        poll_result A mask ev = (if mask AND ucast ev = 0 then (0, 0) else (1, ucast (mask AND ucast ev))))"

definition linux_poll_call :: poll_call where
  "linux_poll_call = poll_abi.extend linux_poll
     \<lparr>POLLERR = 8, POLLHUP = 16, poll_result = (\<lambda>mask ev.
        let r = mask AND (ucast ev OR 24) in if r = 0 then (0, 0) else (1, ucast r))\<rparr>"

lemma poll_result_mask:
  assumes "poll_laws A"
  shows "poll_result A 0 (ucast (POLLIN A)) = (0, 0)"
    and "poll_result A (POLLIN A OR POLLRDNORM A) (ucast (POLLIN A)) = (1, ucast (POLLIN A))"
proof -
  have "(POLLIN A OR POLLRDNORM A) AND POLLIN A = POLLIN A"
    by (auto simp: bit_eq_iff bit_simps)
  then show "poll_result A 0 (ucast (POLLIN A)) = (0, 0)"
    and "poll_result A (POLLIN A OR POLLRDNORM A) (ucast (POLLIN A)) = (1, ucast (POLLIN A))"
    using assms by (simp_all add: poll_laws_def)
qed

section \<open>The driver is such a mailbox\<close>

text \<open>A write of another process that copies all its bytes.\<close>

fun full_write :: "call \<Rightarrow> bool" where
  "full_write (Rd U p n) = False"
| "full_write (Wr U p n) \<longleftrightarrow> uaccess_ok U \<and> fst (copy_from_user U p (xfer_len n)) = 0"

definition mailbox :: "'l lockops \<Rightarrow> byte list \<Rightarrow> bool \<Rightarrow> 'l chr_wait \<Rightarrow> bool" where
  "mailbox L m pending s \<longleftrightarrow> chr_obj s = m \<and> 4000 \<le> length m \<and> lk_free L (sem s) \<and>
     condition s = (if pending then 1 else 0)"

lemma stored_append: "stored (cs @ ds) m = stored ds (stored cs m)"
  by (induction cs m rule: stored.induct) simp_all

lemma fresh_ex13 [simp]:
  "fresh_read V (ex13_fops L A) = ex13_read False" "fresh_write V (ex13_fops L A) = ex13_write L"
  by (rule fresh_keep_pos, simp add: ex13_fops_def)+

context kernel_lock
begin

lemma mailbox_write:
  assumes "mailbox L m b s" and "uaccess_ok U" and "fst (copy_from_user U p (xfer_len n)) = 0"
  shows "\<exists>s'. ex13_write L U p n s = Ret (xfer_len n, s') \<and>
    mailbox L (put_at 0 (user_bytes U p (min 4000 (unat n))) m) True s'"
proof -
  have s: "chr_obj s = m" "4000 \<le> length m" "lk_free L (sem s)" using assms(1) by (simp_all add: mailbox_def)
  have fits: "unat (xfer_len n) \<le> length (chr_obj s)" using s by (simp add: xfer_len_unat)
  have data: "snd (copy_from_user U p (xfer_len n)) = user_bytes U p (min 4000 (unat n))"
    using copy_from_user_data [OF assms(2), of p "xfer_len n"] assms(3) by (simp add: xfer_len_unat)
  obtain s' where w: "ex13_write L U p n s = Ret (xfer_len n, s')"
    and o: "chr_obj s' = put_at 0 (user_bytes U p (min 4000 (unat n))) m"
    and r: "condition s' = 1" "lk_free L (sem s')"
    using ex13_dev.wr_moves [OF assms(2) s(3) fits, of p] assms(3) data s(1) by auto
  have "length (chr_obj s') = length m" using s(2) unfolding o by (intro length_put_at) simp
  then show ?thesis using w o r s(2) by (auto simp: mailbox_def)
qed

lemma mailbox_writes:
  assumes "\<forall>c\<in>set cs. full_write c" and "mailbox L m b s"
  shows "\<exists>s'. others W (ex13_fops L A) cs s = Ret s' \<and> mailbox L (stored cs m) (b \<or> cs \<noteq> []) s'"
  using assms
proof (induction cs arbitrary: m b s)
  case Nil
  then show ?case by (simp add: others_def)
next
  case (Cons c cs)
  then obtain U p n where c: "c = Wr U p n" "uaccess_ok U" "fst (copy_from_user U p (xfer_len n)) = 0"
    by (cases c) auto
  obtain s1 where s1: "ex13_write L U p n s = Ret (xfer_len n, s1)"
    "mailbox L (put_at 0 (user_bytes U p (min 4000 (unat n))) m) True s1"
    using mailbox_write [OF Cons.prems(2) c(2,3)] by blast
  from Cons.IH [OF _ s1(2)] Cons.prems(1) s1(1) show ?case
    by (auto simp: c(1) others_def)
qed

lemma mailbox_read:
  assumes "mailbox L m True s" and "uaccess_ok U" and "\<forall>bs. fst (copy_to_user U buf bs) = 0"
  shows "\<exists>s'. sys_read W (ex13_fops L A) U buf 32 pos s = Ret (32, take 32 m, pos, s') \<and> mailbox L m False s'"
proof -
  have s: "chr_obj s = m" "4000 \<le> length m" "condition s = 1" using assms(1) by (simp_all add: mailbox_def)
  have x: "xfer_len 32 = 32" by (simp add: xfer_len_def)
  have ct: "copy_to_user U buf (take 32 m) = (0, take 32 m)"
    using copy_to_user_data [OF assms(2), of buf "take 32 m"] assms(3) by (simp add: prod_eq_iff min_def)
  have "xfer_read U buf 32 (buffer s) (bufmem s) = Ret (32, take 32 m)"
    using xfer_obj(1) [of 32 s U buf] s by (simp add: x ct)
  then have "ex13_read False U buf 32 s = Ret (32, take 32 m, s\<lparr>condition := 0\<rparr>)"
    using s(3) by (simp add: ex13_read_def wait_read_def)
  then show ?thesis
    using assms(1) by (simp add: sys_read_def ex13_fops_def keep_pos_read_def mailbox_def)
qed

lemma poll_loop_mailbox:
  assumes P: "poll_laws A" and U: "uaccess_ok U" "\<forall>bs. fst (copy_to_user U buf bs) = 0" and fd: "\<not> sint fd < 0"
    and "\<forall>t\<in>set ts. \<forall>c\<in>set (until_poll t @ until_read t). full_write c"
    and "mailbox L m pending s" and "length heap = 32"
  shows "poll_loop W A (ex13_fops L (poll_abi.truncate A)) U fd buf ts heap pos s = poll_spec (ucast (POLLIN A)) pending ts m"
  using assms(5-)
proof (induction ts arbitrary: pending m heap pos s)
  case Nil
  then show ?case by simp
next
  case (Cons t ts)
  let ?F = "ex13_fops L (poll_abi.truncate A)" and ?m1 = "stored (until_poll t) m"
  let ?p1 = "pending \<or> until_poll t \<noteq> []" and ?ev = "ucast (POLLIN A) :: 16 word"
  obtain s1 where s1: "others W ?F (until_poll t) s = Ret s1" "mailbox L ?m1 ?p1 s1"
    using mailbox_writes [OF _ Cons.prems(2), of "until_poll t" W "poll_abi.truncate A"] Cons.prems(1) by auto
  have ev: "?ev \<noteq> 0" using P by (auto simp: poll_laws_def)
  have mask: "poll_mask W ?F s1 = (if ?p1 then POLLIN A OR POLLRDNORM A else 0)"
    using s1(2) by (simp add: poll_mask_def ex13_fops_def ex13_poll_def mailbox_def poll_abi.truncate_def)
  show ?case
  proof (cases "poll_fails t \<or> \<not> ?p1")
    case True
    then show ?thesis
      using s1 mask fd poll_result_mask(1) [OF P] Cons.IH [of ?m1 False s1 heap pos] Cons.prems
      by (auto simp: Let_def)
  next
    case False
    obtain s2 where s2: "others W ?F (until_read t) s1 = Ret s2" "mailbox L (stored (until_read t) ?m1) True s2"
      using mailbox_writes [OF _ s1(2), of "until_read t" W "poll_abi.truncate A"] Cons.prems(1) False by auto
    let ?m2 = "stored (until_read t) ?m1"
    obtain s3 where s3: "sys_read W ?F U buf 32 pos s2 = Ret (32, take 32 ?m2, pos, s3)" "mailbox L ?m2 False s3"
      using mailbox_read [OF s2(2) U, of W "poll_abi.truncate A" pos] by blast
    have len: "length (take 32 ?m2) = 32" using s3(2) by (simp add: mailbox_def)
    then have heap: "put_at 0 (take 32 ?m2) heap = take 32 ?m2"
      using Cons.prems(3) by (simp add: put_at_def)
    have short: "c_strlen (take 32 ?m2) = Some k \<Longrightarrow> k \<le> 32" for k
      by (auto simp: c_strlen_def Let_def split: if_splits intro: le_trans [OF length_takeWhile_le])
    show ?thesis
      using False s1(1) mask s2(1) s3(1) fd poll_result_mask(2) [OF P] ev len heap Cons.prems(1,3)
        Cons.IH [OF _ s3(2), of "take 32 ?m2" pos]
      by (auto simp: Let_def print_buffer_def before_def min_absorb1 short split: option.splits)
  qed
qed

end

section \<open>Properties\<close>

lemma wait_init_sem:
  assumes "dynamic_init (wait_setup L) K g l = (0, s, l')"
  shows "sem s = lk_init L \<and> condition s = condition g"
  using assms by (auto simp: init_unfold wait_setup_def split: if_splits prod.splits)

lemma wait_loaded_mailbox:
  assumes "kernel_ok K" and "4000 \<le> unat (GFP_KERNEL K)" and "lock_laws V L"
    and "dynamic_init (wait_setup L) K (wait_image x) [] = (0, s, l')"
  shows "mailbox L (chr_obj s) False s"
  using wait_init_sem [OF assms(4)] loaded_obj(1) [OF assms(1) plain_wait_setup assms(4)] assms(2)
    kernel_lock.init_free(2) [OF kernel_lock.intro [OF assms(3)]]
  by (simp add: mailbox_def wait_image_def chr_sem.defs)

lemma poll_spec_safe:
  "snd (poll_spec pollin b ts m) \<noteq> Waits_in_read \<and> Pollin_not_set \<notin> set (fst (poll_spec pollin b ts m))"
  by (induction pollin b ts m rule: poll_spec.induct) (auto simp: Let_def before_def split: option.splits)


lemma linux_poll_laws: "poll_laws linux_poll_call"
proof -
  have "mask AND (ucast ev OR 24) = mask AND ucast ev" if "mask AND 24 = 0" for mask :: c_uint and ev :: "16 word"
    using that by (simp add: bit.conj_disj_distrib)
  then show ?thesis
    by (simp add: poll_laws_def linux_poll_call_def linux_poll_def poll_abi.defs Let_def)
qed

definition hello_memory :: "ptr \<Rightarrow> byte" where
  "hello_memory a = (if unat a = 0 then 104 else if unat a = 1 then 105 else 0)"

lemma hello_bytes: "user_bytes (mapped_uaccess hello_memory) 0 32 = [104, 105] @ 0 # replicate 29 0"
proof (rule nth_equalityI)
  fix i
  assume "i < length (user_bytes (mapped_uaccess hello_memory) 0 32)"
  then have i: "i < 32" by simp
  then have "unat (of_nat i :: ptr) = i" by (subst unat_of_nat) simp
  then show "user_bytes (mapped_uaccess hello_memory) 0 32 ! i = ([104, 105] @ 0 # replicate 29 0) ! i"
    using i by (auto simp: user_bytes_def mapped_uaccess_def hello_memory_def nth_append nth_Cons')
qed simp




end
