(* ===== verification/Device_Programs.thy ===== *)
theory Device_Programs
  imports File_Operations Adc_Driver
begin

text \<open>
  The test programs of days 11, 13 and 14: \<open>mmap.c\<close> against the driver \<open>ex27.c\<close>, with what a
  mapping shows of physical memory; \<open>day_14/test.c\<close> against the ADC driver; and
  \<open>day_13/test.c\<close>, whose own objects are too small for what it asks the kernel to do.
\<close>

section \<open>Writing inside the buffer of ex27.c\<close>

lemma write_inside:
  assumes "uaccess_ok U" and "\<forall>n. fst (copy_from_user U buf n) = 0" and "char_device_buf s \<noteq> 0"
    and "length (dev_mem s) = MAX_LENGTH" and "unat ppos \<le> MAX_LENGTH"
    and "k = min (unat lbuf) (MAX_LENGTH - unat ppos)"
  shows "char_dev_write U buf lbuf ppos s =
    (if k = 0 then Ret (- ENOSPC, ppos, s)
     else Ret (of_nat k, ppos + of_nat k, s\<lparr>dev_mem := put_at (unat ppos) (user_bytes U buf k) (dev_mem s)\<rparr>))"
proof -
  let ?n = "bytes_to_do ppos lbuf"
  have n: "unat ?n = k" using bytes_inside [OF assms(5)] assms(6) by simp
  have k: "k \<le> 4000" using assms(6) by (simp add: MAX_LENGTH_def)
  have zero: "?n = 0 \<longleftrightarrow> k = 0" using n by (auto simp: unat_eq_0)
  have sn: "unat (scast ?n :: 64 word) = k" using scast_nat_pos [of ?n] n k by simp
  then have sk: "(scast ?n :: 64 word) = of_nat k" by (rule word_of_unat_eq)
  then have w: "scast (ucast (of_nat k :: 64 word) :: c_int) = (of_nat k :: 64 word)"
    using narrow_wide [of "int k"] k by simp
  have uk: "unat (of_nat k :: 64 word) = k" using k by (subst unat_of_nat) simp
  have "snd (copy_from_user U buf (of_nat k)) = user_bytes U buf k"
    using copy_from_user_data [OF assms(1), of buf "of_nat k"] assms(2) uk by simp
  moreover have "unat ppos + k \<le> length (dev_mem s)" using assms(4-6) by simp
  ultimately show ?thesis
    using assms(2,3) by (simp add: char_dev_write_def Let_def zero sk copy_in_def obj_check_def uk w)
qed

section \<open>day_11/mmap.c\<close>

text \<open>
  Physical memory: the buffer of the driver from the address of its first byte on, and
  \<open>rest\<close> elsewhere. A mapping made by \<open>remap_pfn_range\<close> shows the memory from the page
  frame that the driver passes on, at whole pages.
\<close>

definition phys_byte :: "mmap_kernel \<Rightarrow> (c_ulong \<Rightarrow> byte) \<Rightarrow> cdev27 \<Rightarrow> c_ulong \<Rightarrow> byte" where
  "phys_byte K rest s a =
     (let i = unat (a - virt_to_pa K (char_device_buf s))
      in if i < length (dev_mem s) then dev_mem s ! i else rest a)"

definition mapped_byte :: "mmap_kernel \<Rightarrow> (c_ulong \<Rightarrow> byte) \<Rightarrow> cdev27 \<Rightarrow> nat \<Rightarrow> byte" where
  "mapped_byte K rest s i =
     phys_byte K rest s (push_bit (PAGE_SHIFT K) (drop_bit (PAGE_SHIFT K) (addr s)) + of_nat i)"

datatype mmap_line = Open_failed | Mapping_failed | Shown "byte list" | Assertion_failed

definition mmap_temp :: "byte list" where
  "mmap_temp = bytes_of ''welcome to hello world\<newline>''"

definition MAP_FAILED :: ptr where "MAP_FAILED = - 1"

text \<open>
  The program compares the result of \<open>mmap\<close> with \<open>NULL\<close>, and a failed \<open>mmap\<close> returns
  \<open>MAP_FAILED\<close>; writing from there to standard output transfers nothing. \<open>temp\<close> is the
  address of the string, \<open>unmap\<close> the result of \<open>munmap\<close> for an address.
\<close>

definition mmap_main ::
    "mmap_kernel \<Rightarrow> vfs \<Rightarrow> (c_ulong \<Rightarrow> byte) \<Rightarrow> (ptr \<Rightarrow> c_int) \<Rightarrow> uaccess \<Rightarrow> ptr \<Rightarrow> c_int \<Rightarrow> vm_area_struct \<Rightarrow> cdev27 \<Rightarrow>
      mmap_line list outcome" where
  "mmap_main K W rest unmap U temp fd vma s =
     (if sint fd < 0 then Ret [Open_failed]
      else let (ret, vma, s) = sys_mmap W (ex27_fops K) vma s;
               filedata = (if ret = 0 then vm_start vma else MAP_FAILED)
           in if filedata = 0 then Ret [Mapping_failed]
              else obind (sys_write W (ex27_fops K) U temp (of_nat (length mmap_temp)) 0 s)
                (\<lambda>(n, pos, s). let i = unmap filedata
                   in Ret ((if ret = 0 then [Shown (map (mapped_byte K rest s) [0..<length mmap_temp])] else []) @
                           (if i \<noteq> 0 then [Assertion_failed] else []))))"

lemma mmap_temp_length: "length mmap_temp = 23"
  by (simp add: mmap_temp_def bytes_of_def)

text \<open>The \<open>i\<close>-th byte of a mapping when the buffer starts \<open>off\<close> bytes into its page.\<close>

lemma mapped_byte_eq:
  assumes "addr s = virt_to_pa K (char_device_buf s)" and "off = unat (take_bit (PAGE_SHIFT K) (addr s))"
    and "PAGE_SHIFT K < 64" and "length (dev_mem s) = MAX_LENGTH" and "i < 4000"
  shows "mapped_byte K rest s i =
    (if off \<le> i then dev_mem s ! (i - off) else rest (addr s - of_nat off + of_nat i))"
proof -
  let ?base = "push_bit (PAGE_SHIFT K) (drop_bit (PAGE_SHIFT K) (addr s))"
  have off: "of_nat off = take_bit (PAGE_SHIFT K) (addr s)" using assms(2) by simp
  then have base: "?base = addr s - of_nat off"
    by (metis add_diff_cancel_right' bits_ident)
  have d: "addr s - of_nat off + of_nat i - addr s = (of_nat i - of_nat off :: c_ulong)" by simp
  have m: "mapped_byte K rest s i =
    (if unat (of_nat i - of_nat off :: c_ulong) < MAX_LENGTH then dev_mem s ! unat (of_nat i - of_nat off :: c_ulong)
     else rest (addr s - of_nat off + of_nat i))"
    by (simp only: mapped_byte_def phys_byte_def base assms(4) Let_def d flip: assms(1))
  have "off < 2 ^ PAGE_SHIFT K" using assms(2,3) by (simp add: unsigned_take_bit_eq)
  moreover have "(2 :: nat) ^ PAGE_SHIFT K \<le> 2 ^ 63" using assms(3) by (intro power_increasing) simp_all
  ultimately have lt: "off < 2 ^ 63" by linarith
  show ?thesis
  proof (cases "off \<le> i")
    case True
    then have "of_nat i - of_nat off = (of_nat (i - off) :: c_ulong)" by simp
    moreover have "unat (of_nat (i - off) :: c_ulong) = i - off" using assms(5) by (subst unat_of_nat) simp
    moreover have "i - off < MAX_LENGTH" using assms(5) by (simp add: MAX_LENGTH_def)
    ultimately show ?thesis using True by (simp only: m if_True)
  next
    case False
    have "unat (of_nat off :: c_ulong) = off" "unat (of_nat i :: c_ulong) = i"
      using lt assms(5) by (simp_all add: unat_of_nat)
    then have "unat (of_nat i - of_nat off :: c_ulong) = i + 2 ^ 64 - off"
      using False by (simp add: unat_sub_if')
    then have "\<not> unat (of_nat i - of_nat off :: c_ulong) < MAX_LENGTH" using lt by (simp add: MAX_LENGTH_def)
    then show ?thesis using False by (simp only: m if_False)
  qed
qed

text \<open>C19: The mmap program on the loaded driver. When the driver's \<open>mmap\<close> succeeds, the program
  shows 23 bytes of the page in which the buffer starts: with the buffer \<open>off\<close> bytes into
  that page, first \<open>off\<close> bytes of foreign memory and then the string it has just written:
  the whole string when the buffer is page-aligned, which nothing in the driver ensures. When
  the driver's \<open>mmap\<close> fails the program does not notice, writes to the device all the same,
  and stops in its last assertion.\<close>

theorem mmap_program_shows_page:
  assumes "kernel_ok (kernel.truncate K)" and "char_dev_init K cdev27_image l = (0, s, l')" and "char_device_buf s \<noteq> 0"
    and "uaccess_ok U" and "\<forall>n. fst (copy_from_user U temp n) = 0" and "user_bytes U temp 23 = mmap_temp"
    and "\<not> sint fd < 0" and "vm_start vma \<noteq> 0" and "unmap (vm_start vma) = 0" and "unmap MAP_FAILED \<noteq> 0"
    and "PAGE_SHIFT K < 64" and "pa = virt_to_pa K (char_device_buf s)" and "off = unat (take_bit (PAGE_SHIFT K) pa)"
    and "r = remap_pfn_range K vma (vm_start vma) (drop_bit (PAGE_SHIFT K) pa) (PAGE_ALIGN K (of_nat MAX_LENGTH)) (vm_page_prot vma)"
  shows "mmap_main K W rest unmap U temp fd vma s =
    Ret (if r = 0
         then [Shown (map (\<lambda>i. rest (pa - of_nat off + of_nat i)) [0..<min off 23] @ take (23 - off) mmap_temp)]
         else [Assertion_failed])"
proof -
  let ?s = "s\<lparr>addr := pa\<rparr>"
  let ?t = "?s\<lparr>dev_mem := put_at 0 mmap_temp (dev_mem s)\<rparr>"
  have len: "length (dev_mem s) = MAX_LENGTH" by (rule init_buffer27 [OF assms(1-3)])
  have mm: "sys_mmap W (ex27_fops K) vma s = (if r = 0 then (0, vma\<lparr>vm_ops := Char_vm_ops\<rparr>, ?s) else (- EAGAIN, vma, ?s))"
    using assms(12,14) by (simp add: sys_mmap_def ex27_fops_def char_dev_mmap_def Let_def)
  have wr: "sys_write W (ex27_fops K) U temp 23 0 ?s = Ret (23, 23, ?t)"
    using write_inside [OF assms(4,5), of ?s 0 23 23] assms(3,6) len
    by (simp add: sys_write_def ex27_fops_def MAX_LENGTH_def)
  have view: "map (mapped_byte K rest ?t) [0..<23] =
    map (\<lambda>i. rest (pa - of_nat off + of_nat i)) [0..<min off 23] @ take (23 - off) mmap_temp"
  proof (rule nth_equalityI)
    show "length (map (mapped_byte K rest ?t) [0..<23]) =
        length (map (\<lambda>i. rest (pa - of_nat off + of_nat i)) [0..<min off 23] @ take (23 - off) mmap_temp)"
      by (simp add: mmap_temp_length)
  next
    fix i
    assume "i < length (map (mapped_byte K rest ?t) [0..<23])"
    then have i: "i < 23" by simp
    have lt: "length (dev_mem ?t) = MAX_LENGTH"
      using len mmap_temp_length length_put_at [of 0 mmap_temp "dev_mem s"] by (simp add: MAX_LENGTH_def)
    have "mapped_byte K rest ?t i = (if off \<le> i then dev_mem ?t ! (i - off) else rest (pa - of_nat off + of_nat i))"
      using mapped_byte_eq [of ?t K off i rest] assms(11-13) lt i by simp
    moreover have "dev_mem ?t ! (i - off) = mmap_temp ! (i - off)"
      using le_less_trans [OF diff_le_self i, of off] mmap_temp_length by (simp add: put_at_def nth_append)
    ultimately show "map (mapped_byte K rest ?t) [0..<23] ! i =
        (map (\<lambda>i. rest (pa - of_nat off + of_nat i)) [0..<min off 23] @ take (23 - off) mmap_temp) ! i"
      using i by (auto simp: nth_append min_def)
  qed
  show ?thesis
    using assms(7-10) view by (simp add: mmap_main_def mm wr mmap_temp_length MAP_FAILED_def Let_def)
qed

definition mmap_memory :: "ptr \<Rightarrow> byte" where
  "mmap_memory a = (if unat a < 23 then mmap_temp ! unat a else 0)"

lemma mmap_memory_bytes: "user_bytes (mapped_uaccess mmap_memory) 0 23 = mmap_temp"
proof (rule nth_equalityI)
  fix i
  assume "i < length (user_bytes (mapped_uaccess mmap_memory) 0 23)"
  then have i: "i < 23" by simp
  then have "unat (of_nat i :: ptr) = i" by (subst unat_of_nat) simp
  then show "user_bytes (mapped_uaccess mmap_memory) 0 23 ! i = mmap_temp ! i"
    using i by (simp add: user_bytes_def mapped_uaccess_def mmap_memory_def)
qed (simp add: mmap_temp_length)

definition shifted_kernel :: mmap_kernel where
  "shifted_kernel = good_mmap_kernel\<lparr>virt_to_pa := (\<lambda>p. p + 20)\<rparr>"

theorem mmap_program_shows_page_witness:
  "mmap_main shifted_kernel linux_vfs (\<lambda>_. 9) (\<lambda>p. if p = MAP_FAILED then - 1 else 0) (mapped_uaccess mmap_memory) 0 3
     \<lparr>vm_start = 0x10000, vm_page_prot = 0, vm_ops = No_vm_ops\<rparr> loaded27 =
   Ret [Shown (replicate 20 9 @ bytes_of ''wel'')]"
proof -
  let ?K = shifted_kernel
  have K: "kernel_ok (kernel.truncate ?K)"
    using good_mmap_kernel_ok by (simp add: shifted_kernel_def kernel.defs)
  have i: "char_dev_init ?K cdev27_image [] = (0, loaded27, snd (snd (char_dev_init good_mmap_kernel cdev27_image [])))"
    by (simp add: char_dev_init_def good_mmap_kernel_def shifted_kernel_def good_kernel_def kernel.defs Let_def loaded27_def
        cdev27_image_def MAX_LENGTH_def)
  have off: "20 = unat (take_bit (PAGE_SHIFT ?K) (virt_to_pa ?K (char_device_buf loaded27)))"
    by (simp add: shifted_kernel_def good_mmap_kernel_def kernel.defs loaded27_def)
  have sh: "PAGE_SHIFT ?K < 64" by (simp add: shifted_kernel_def good_mmap_kernel_def kernel.defs)
  have r: "remap_pfn_range ?K v a b c d = 0" for v a b c d
    by (simp add: shifted_kernel_def good_mmap_kernel_def kernel.defs)
  have b: "char_device_buf loaded27 \<noteq> 0" by (simp add: loaded27_def)
  have u: "\<forall>n. fst (copy_from_user (mapped_uaccess mmap_memory) 0 n) = 0" by (simp add: mapped_uaccess_def)
  have f: "\<not> sint (3 :: c_int) < 0" by simp
  let ?vma = "\<lparr>vm_start = 0x10000, vm_page_prot = 0, vm_ops = No_vm_ops\<rparr>"
  let ?um = "\<lambda>p. if p = MAP_FAILED then - 1 else (0 :: c_int)"
  have um: "vm_start ?vma \<noteq> 0" "?um (vm_start ?vma) = 0" "?um MAP_FAILED \<noteq> 0" by (simp_all add: MAP_FAILED_def)
  have t: "take 3 mmap_temp = bytes_of ''wel''" by (simp add: mmap_temp_def bytes_of_def)
  have e: "map (\<lambda>i. 9 :: byte) [0..<20] = replicate 20 9" by (simp add: map_replicate_const)
  show ?thesis
    using mmap_program_shows_page [OF K i b mapped_uaccess_ok u mmap_memory_bytes f um sh refl off refl, of linux_vfs "\<lambda>_. 9"] r t e
    by simp
qed

text \<open>What is written inside the buffer of ex27.c is read back from the same position.\<close>

lemma char_dev_write_read:
  assumes "uaccess_ok U" and "\<forall>n. fst (copy_from_user U p n) = 0" and "\<forall>bs. copy_to_user U' q bs = (0, bs)"
    and "char_device_buf s \<noteq> 0" and "length (dev_mem s) = MAX_LENGTH"
    and "unat ppos + unat n \<le> MAX_LENGTH" and "n \<noteq> 0"
  shows "\<exists>s'. char_dev_write U p n ppos s = Ret (n, ppos + n, s') \<and>
    char_dev_read U' q n ppos s' = Ret (n, user_bytes U p (unat n), ppos + n, s')"
proof -
  have pos: "unat ppos \<le> MAX_LENGTH" and k: "unat n = min (unat n) (MAX_LENGTH - unat ppos)" using assms(6) by simp_all
  have nz: "unat n \<noteq> 0" using assms(7) by (simp add: unat_eq_0)
  let ?s = "s\<lparr>dev_mem := put_at (unat ppos) (user_bytes U p (unat n)) (dev_mem s)\<rparr>"
  have w: "char_dev_write U p n ppos s = Ret (n, ppos + n, ?s)"
    using write_inside [OF assms(1,2,4,5) pos k] nz by simp
  have len: "length (dev_mem ?s) = MAX_LENGTH"
    using assms(5,6) length_put_at [of "unat ppos" "user_bytes U p (unat n)" "dev_mem s"] by simp
  have "get_at (unat ppos) (unat n) (dev_mem ?s) = user_bytes U p (unat n)"
    using assms(5,6) by (simp add: get_at_def put_at_def)
  with read_inside [OF assms(3) _ len pos k] assms(4) nz w show ?thesis by simp
qed

section \<open>day_14/test.c\<close>

text \<open>One read of the ADC device; what is printed, or how the program does not get there.\<close>

definition adc_test_main ::
    "'l lockops \<Rightarrow> (nat \<Rightarrow> c_uint) \<Rightarrow> c_uint \<Rightarrow> bool \<Rightarrow> uaccess \<Rightarrow> ptr \<Rightarrow> byte list \<Rightarrow> c_int \<Rightarrow> 'l adc \<Rightarrow>
      printed list progress" where
  "adc_test_main L con dat intr U buff stack fd s =
     (if sint fd < 0 then Returns [Failed_to_open]
      else case adc_read L con dat intr U buff 60 s of
             Sleeps \<Rightarrow> Sleeps
           | Spins x \<Rightarrow> Spins []
           | Crashes f \<Rightarrow> Crashes f
           | Returns (n, out, s) \<Rightarrow>
               (case c_strlen (put_at 0 out stack) of
                  None \<Rightarrow> Crashes OutOfBounds
                | Some k \<Rightarrow> Returns [Read_count (ucast n), Text (take k (put_at 0 out stack))]))"

lemma adc_init_sem:
  "adc_drv_module_init L K g l = (0, s, l') \<Longrightarrow> sem s = lk_init L"
  by (auto simp: adc_drv_module_init_def adc_setup_def init_unfold split: if_splits prod.splits)

text \<open>
  With the driver freshly loaded and the device opened, the program never ends, whatever the
  hardware does: the read spins in the driver.
\<close>

lemma adc_test_program_spins:
  assumes "lock_laws V L" and "adc_drv_module_init L K g l = (0, s, l')" and "\<not> sint fd < 0"
  shows "adc_test_main L con dat intr U buff stack fd s = Spins []"
proof -
  have "lk_free L (sem s)"
    using adc_init_sem [OF assms(2)] kernel_lock.init_free(2) [OF kernel_lock.intro [OF assms(1)]] by simp
  then obtain y where "lk_acquire L (sem s) = Some y" by (auto simp: lk_free_def)
  then show ?thesis using assms(3) by (simp add: adc_test_main_def adc_read_def adc_wait_None)
qed

section \<open>day_13/test.c\<close>

text \<open>
  \<open>BLKGETSIZE\<close> stores an \<open>unsigned long\<close>, and the program passes it the address of an
  \<open>int\<close>; then it has 20 bytes written from a string constant of 12. \<open>size\<close> are the bytes the
  kernel stores, \<open>dev_write\<close> and \<open>dev_read\<close> the calls on the block device, which go through
  the page cache.
\<close>

datatype sbd_line = Sbd_failed | Size "byte list" | Data "byte list"

definition sbd_test_main ::
    "byte list \<Rightarrow> (byte list \<Rightarrow> 's \<Rightarrow> 's) \<Rightarrow> ('s \<Rightarrow> byte list) \<Rightarrow> c_int \<Rightarrow> 's \<Rightarrow> sbd_line list outcome" where
  "sbd_test_main size_bytes dev_write dev_read fd s =
     (let i = replicate 4 0 :: byte list; buf = replicate 20 0; lit = bytes_of ''Mohan reddy'' @ [0]
      in if sint fd \<le> 0 then Ret [Sbd_failed]
         else if length i < length size_bytes then Fault OutOfBounds
         else let i = put_at 0 size_bytes i
              in if length lit < 20 then Fault OutOfBounds
                 else let s = dev_write (take 20 lit) s;
                          buf = put_at 0 (dev_read s) buf
                      in case c_strlen buf of
                           None \<Rightarrow> Fault OutOfBounds
                         | Some k \<Rightarrow> Ret [Size i, Data (take k buf)])"

lemma sbd_test_overruns:
  "sbd_test_main size_bytes dev_write dev_read fd s =
     (if sint fd \<le> 0 then Ret [Sbd_failed] else Fault OutOfBounds)"
  by (simp add: sbd_test_main_def bytes_of_def Let_def)

end
