(* ===== verification/Print_Modules.thy ===== *)
theory Print_Modules
  imports Module_Lifecycle C_Text
begin

text \<open>
  The modules whose init and exit only print: \<open>day_01/ex1.c\<close>, \<open>ex2.c\<close> with its two
  parameters, and \<open>day_08/ex21.c\<close>, which prints the sizes of the C types. A line printed is
  the bytes that \<open>printk\<close> gets after formatting. The sizes are those of the compiler, the
  record \<open>c_abi\<close>.
\<close>

section \<open>day_01/ex1.c\<close>

definition hello_line :: "byte list" where "hello_line = bytes_of ''welcome to hello world ex module\<newline>''"
definition bye_line :: "byte list" where "bye_line = bytes_of ''exit the hello world ex module\<newline>''"

definition ex1_module_init :: "c_int \<times> byte list list" where
  "ex1_module_init = (0, [hello_line])"

definition ex1_module_exit :: "byte list list" where
  "ex1_module_exit = [bye_line]"

section \<open>day_01/ex2.c\<close>

text \<open>\<open>count\<close> and the object \<open>name\<close> points to, which the parameters of \<open>insmod\<close> replace.\<close>

record ex2_params =
  ex2_count :: c_ulong
  ex2_name :: "byte list"

definition ex2_image :: ex2_params where
  "ex2_image = \<lparr>ex2_count = 0, ex2_name = bytes_of ''naveen'' @ [0]\<rparr>"

definition ex2_module_init :: "ex2_params \<Rightarrow> (c_int \<times> byte list list) outcome" where
  "ex2_module_init p =
     (case c_strlen (ex2_name p) of
        None \<Rightarrow> Fault OutOfBounds
      | Some k \<Rightarrow>
          Ret (0, [hello_line, bytes_of ''module param='' @ dec_int (sint (ex2_count p)) @ bytes_of ''\<newline>'',
                   bytes_of ''module param='' @ take k (ex2_name p) @ bytes_of ''\<newline>'']))"

definition ex2_module_exit :: "byte list list" where
  "ex2_module_exit = [bye_line]"

section \<open>day_08/ex21.c\<close>

record c_abi =
  sizeof_char :: nat
  sizeof_int :: nat
  sizeof_short :: nat
  sizeof_long :: nat
  sizeof_long_long :: nat
  sizeof_size_t :: nat
  sizeof_loff_t :: nat
  sizeof_pid_t :: nat

definition size_line :: "string \<Rightarrow> nat \<Rightarrow> byte list" where
  "size_line name n = bytes_of name @ bytes_of ''='' @ dec n @ bytes_of ''\<newline>''"

definition ex21_module_init :: "c_abi \<Rightarrow> c_int \<times> byte list list" where
  "ex21_module_init A =
     (0, [hello_line, size_line ''char'' (sizeof_char A), size_line ''int'' (sizeof_int A),
          size_line ''short'' (sizeof_short A), size_line ''long'' (sizeof_long A),
          size_line ''long long'' (sizeof_long_long A), size_line ''size_t'' (sizeof_size_t A),
          size_line ''loff_t'' (sizeof_loff_t A), size_line ''pid_t'' (sizeof_pid_t A)])"

definition ex21_module_exit :: "byte list list" where
  "ex21_module_exit = [bye_line]"

section \<open>What is printed\<close>

text \<open>The parameter \<open>count\<close> can be read back from the line, whatever its value.\<close>

lemma ex2_prints_count:
  assumes "ex2_module_init p = Ret (r, ls)"
  shows "r = 0 \<and> scan_int (drop 13 (ls ! 1) @ [0]) = Some (Some (sint (ex2_count p), [10, 0]))"
proof -
  obtain k where ls: "r = 0" "ls ! 1 = bytes_of ''module param='' @ dec_int (sint (ex2_count p)) @ bytes_of ''\<newline>''"
    using assms by (auto simp: ex2_module_init_def split: option.splits)
  have nl: "bytes_of ''\<newline>'' = [10]" by (simp add: bytes_of_def)
  have "length (bytes_of ''module param='') = 13" by (simp add: bytes_of_def)
  then have "drop 13 (ls ! 1) @ [0] = dec_int (sint (ex2_count p)) @ 10 # [0]" unfolding ls(2) nl by simp
  moreover have "\<not> is_digit 10" by (simp add: is_digit_def)
  ultimately show ?thesis using ls(1) scan_dec_int(1) [of 10 "sint (ex2_count p)" "[0]"] by simp
qed

text \<open>
  The sizes on the 64-bit Linux for which the drivers are modelled, and that the word types
  of \<open>Prelude\<close> have them.
\<close>

definition lp64 :: c_abi where
  "lp64 = \<lparr>sizeof_char = 1, sizeof_int = 4, sizeof_short = 2, sizeof_long = 8, sizeof_long_long = 8,
     sizeof_size_t = 8, sizeof_loff_t = 8, sizeof_pid_t = 4\<rparr>"

lemma ex21_prints_model_widths:
  "let ls = snd (ex21_module_init lp64) in
     ls ! 1 = size_line ''char'' (size (0 :: byte) div 8) \<and> ls ! 2 = size_line ''int'' (size (0 :: c_int) div 8) \<and>
     ls ! 4 = size_line ''long'' (size (0 :: c_ulong) div 8) \<and> ls ! 6 = size_line ''size_t'' (size (0 :: size_t) div 8) \<and>
     ls ! 7 = size_line ''loff_t'' (size (0 :: loff_t) div 8)"
  by (simp add: ex21_module_init_def lp64_def word_size)

end
