(* ===== verification/Completion_Concurrency.thy ===== *)
theory Completion_Concurrency
  imports Char_Locks
begin

text \<open>
  Any number of threads in \<open>read\<close> and \<open>write\<close> of \<open>day_03/ex9.c\<close> at once, byte by byte. The
  completion orders reads after writes, and nothing else does: no lock is held while bytes
  are copied. \<open>begun9\<close>, \<open>signals9\<close> and \<open>given9\<close> are ghosts: the reads past their wait, the
  writes past their \<open>complete\<close>, and the data of the writes that have been called.
\<close>

section \<open>Threads\<close>

datatype pc9 =
    Idle9
  | Writing9 "byte list" nat
  | Waiting9 nat
  | Reading9 nat "byte list"
  | Returned9 "byte list"

record 'c sys9 =
  done9 :: 'c
  mem9 :: "byte list"
  pc9 :: "nat \<Rightarrow> pc9"
  begun9 :: nat
  signals9 :: nat
  given9 :: "byte list list"

definition start9 :: "'c complops \<Rightarrow> byte list \<Rightarrow> 'c sys9 \<Rightarrow> bool" where
  "start9 C m s \<longleftrightarrow> s = \<lparr>done9 = cp_init C, mem9 = m, pc9 = (\<lambda>_. Idle9), begun9 = 0, signals9 = 0, given9 = []\<rparr>"

inductive step9 :: "'c complops \<Rightarrow> 'c sys9 \<Rightarrow> 'c sys9 \<Rightarrow> bool" for C :: "'c complops" where
  write_call: "pc9 s i = Idle9 \<Longrightarrow> length d \<le> length (mem9 s) \<Longrightarrow>
    step9 C s (s\<lparr>pc9 := (pc9 s)(i := Writing9 d 0), given9 := given9 s @ [d]\<rparr>)"
| write_copy: "pc9 s i = Writing9 d k \<Longrightarrow> k < length d \<Longrightarrow>
    step9 C s (s\<lparr>mem9 := (mem9 s)[k := d ! k], pc9 := (pc9 s)(i := Writing9 d (Suc k))\<rparr>)"
| write_complete: "pc9 s i = Writing9 d (length d) \<Longrightarrow>
    step9 C s (s\<lparr>done9 := cp_complete C (done9 s), pc9 := (pc9 s)(i := Idle9), signals9 := Suc (signals9 s)\<rparr>)"
| read_call: "pc9 s i = Idle9 \<Longrightarrow> n \<le> length (mem9 s) \<Longrightarrow> step9 C s (s\<lparr>pc9 := (pc9 s)(i := Waiting9 n)\<rparr>)"
| read_pass: "pc9 s i = Waiting9 n \<Longrightarrow> cp_wait C (done9 s) = Some x \<Longrightarrow>
    step9 C s (s\<lparr>done9 := x, pc9 := (pc9 s)(i := Reading9 n []), begun9 := Suc (begun9 s)\<rparr>)"
| read_copy: "pc9 s i = Reading9 n acc \<Longrightarrow> length acc < n \<Longrightarrow>
    step9 C s (s\<lparr>pc9 := (pc9 s)(i := Reading9 n (acc @ [mem9 s ! length acc]))\<rparr>)"
| read_return: "pc9 s i = Reading9 n acc \<Longrightarrow> step9 C s (s\<lparr>pc9 := (pc9 s)(i := Returned9 acc)\<rparr>)"
| read_leave: "pc9 s i = Returned9 acc \<Longrightarrow> step9 C s (s\<lparr>pc9 := (pc9 s)(i := Idle9)\<rparr>)"

section \<open>What the completion does order\<close>

definition balance9 :: "'c complops \<Rightarrow> 'c sys9 \<Rightarrow> bool" where
  "balance9 C s \<longleftrightarrow> begun9 s + cp_done C (done9 s) = signals9 s"

lemma balance9_step: "step9 C s t \<Longrightarrow> completion_laws C \<Longrightarrow> balance9 C s \<Longrightarrow> balance9 C t"
  by (induction rule: step9.induct) (auto simp: balance9_def completion_laws_def)

section \<open>Where bytes come from\<close>

text \<open>Byte \<open>k\<close> of \<open>xs\<close> is byte \<open>k\<close> of the first contents or of a write that has been called.\<close>

definition from_some :: "byte list \<Rightarrow> byte list list \<Rightarrow> byte list \<Rightarrow> bool" where
  "from_some m ds xs \<longleftrightarrow> (\<forall>k<length xs. xs ! k = m ! k \<or> (\<exists>d\<in>set ds. k < length d \<and> xs ! k = d ! k))"

fun origin_pc :: "byte list \<Rightarrow> byte list list \<Rightarrow> pc9 \<Rightarrow> bool" where
  "origin_pc m ds (Writing9 d k) \<longleftrightarrow> d \<in> set ds \<and> length d \<le> length m"
| "origin_pc m ds (Waiting9 n) \<longleftrightarrow> n \<le> length m"
| "origin_pc m ds (Reading9 n acc) \<longleftrightarrow> n \<le> length m \<and> length acc \<le> n \<and> from_some m ds acc"
| "origin_pc m ds (Returned9 acc) \<longleftrightarrow> length acc \<le> length m \<and> from_some m ds acc"
| "origin_pc m ds Idle9 \<longleftrightarrow> True"

definition origin9 :: "byte list \<Rightarrow> 'c sys9 \<Rightarrow> bool" where
  "origin9 m s \<longleftrightarrow> length (mem9 s) = length m \<and> from_some m (given9 s) (mem9 s) \<and>
     (\<forall>i. origin_pc m (given9 s) (pc9 s i))"

lemma from_some_more: "from_some m ds xs \<Longrightarrow> set ds \<subseteq> set ds' \<Longrightarrow> from_some m ds' xs"
  unfolding from_some_def by blast

lemma origin_pc_more: "origin_pc m ds p \<Longrightarrow> set ds \<subseteq> set ds' \<Longrightarrow> origin_pc m ds' p"
  by (cases p) (auto intro: from_some_more)

lemma from_some_update:
  assumes "from_some m ds xs" and "d \<in> set ds" and "k < length d"
  shows "from_some m ds (xs[k := d ! k])"
  unfolding from_some_def
proof (intro allI impI)
  fix j
  assume j: "j < length (xs[k := d ! k])"
  show "xs[k := d ! k] ! j = m ! j \<or> (\<exists>d'\<in>set ds. j < length d' \<and> xs[k := d ! k] ! j = d' ! j)"
  proof (cases "j = k")
    case True
    then show ?thesis using assms(2,3) j by auto
  next
    case False
    then show ?thesis using assms(1) j by (simp add: from_some_def)
  qed
qed

lemma from_some_snoc:
  "from_some m ds acc \<Longrightarrow> from_some m ds xs \<Longrightarrow> length acc < length xs \<Longrightarrow>
   from_some m ds (acc @ [xs ! length acc])"
  by (auto simp: from_some_def nth_append less_Suc_eq)

lemma origin9_keep:
  "origin9 m s \<Longrightarrow> origin_pc m (given9 s) p \<Longrightarrow> origin9 m (s\<lparr>pc9 := (pc9 s)(i := p)\<rparr>)"
  by (simp add: origin9_def)

lemma origin9D: "origin9 m s \<Longrightarrow> pc9 s i = p \<Longrightarrow> origin_pc m (given9 s) p"
  by (auto simp: origin9_def)

lemma origin9_step: "step9 C s t \<Longrightarrow> origin9 m s \<Longrightarrow> origin9 m t"
proof (induction rule: step9.induct)
  case (write_call s i d)
  then have "origin9 m (s\<lparr>given9 := given9 s @ [d]\<rparr>)"
    by (auto simp: origin9_def intro: from_some_more origin_pc_more)
  from origin9_keep [OF this, of "Writing9 d 0" i] write_call show ?case by (simp add: origin9_def)
next
  case (write_copy s i d k)
  have d: "d \<in> set (given9 s)" "length d \<le> length m" using origin9D [OF write_copy(3,1)] by simp_all
  then have "origin9 m (s\<lparr>mem9 := (mem9 s)[k := d ! k]\<rparr>)"
    using write_copy(2,3) by (auto simp: origin9_def intro: from_some_update)
  from origin9_keep [OF this, of "Writing9 d (Suc k)" i] d show ?case by simp
next
  case (write_complete s i d)
  then show ?case by (simp add: origin9_def)
next
  case (read_call s i n)
  then show ?case using origin9_keep [of m s "Waiting9 n" i] by (simp add: origin9_def)
next
  case (read_pass s i n x)
  then show ?case
    using origin9D [OF read_pass(3,1)] by (simp add: origin9_def from_some_def)
next
  case (read_copy s i n acc)
  have "origin_pc m (given9 s) (Reading9 n acc)" by (rule origin9D [OF read_copy(3,1)])
  then have "origin_pc m (given9 s) (Reading9 n (acc @ [mem9 s ! length acc]))"
    using read_copy(2,3) from_some_snoc [of m "given9 s" acc "mem9 s"] by (auto simp: origin9_def)
  then show ?case by (rule origin9_keep [OF read_copy(3)])
next
  case (read_return s i n acc)
  then show ?case
    using origin9D [OF read_return(2,1)] origin9_keep [of m s "Returned9 acc" i] by auto
next
  case (read_leave s i acc)
  then show ?case using origin9_keep [of m s Idle9 i] by simp
qed

locale completion_system =
  fixes C :: "'c complops"
  assumes compl: "completion_laws C"
begin

lemma start9_inv: "start9 C m s \<Longrightarrow> balance9 C s \<and> origin9 m s"
  using compl by (simp add: start9_def balance9_def origin9_def completion_laws_def from_some_def)

lemma step9_inv: "balance9 C s \<and> origin9 m s \<Longrightarrow> step9 C s t \<Longrightarrow> balance9 C t \<and> origin9 m t"
  using compl by (auto intro: balance9_step origin9_step)

end

sublocale completion_system \<subseteq> sys9: invariant_system "start9 C m" "step9 C" "\<lambda>s. balance9 C s \<and> origin9 m s" for m
  by unfold_locales (erule start9_inv, erule step9_inv, assumption)

interpretation counted: completion_system counting_completion
  by unfold_locales (rule counting_completion_laws)

section \<open>A torn read\<close>

definition pair9 :: "'c \<Rightarrow> byte list \<Rightarrow> pc9 \<Rightarrow> pc9 \<Rightarrow> nat \<Rightarrow> nat \<Rightarrow> byte list list \<Rightarrow> 'c sys9" where
  "pair9 x m a b r w ds = \<lparr>done9 = x, mem9 = m, pc9 = duo Idle9 a b, begun9 = r, signals9 = w, given9 = ds\<rparr>"

lemma pair9_sel [simp]:
  "done9 (pair9 x m a b r w ds) = x" "mem9 (pair9 x m a b r w ds) = m" "pc9 (pair9 x m a b r w ds) = duo Idle9 a b"
  "begun9 (pair9 x m a b r w ds) = r" "signals9 (pair9 x m a b r w ds) = w" "given9 (pair9 x m a b r w ds) = ds"
  by (simp_all add: pair9_def)

lemma pair9_upd [simp]:
  "(pair9 x m a b r w ds)\<lparr>done9 := x'\<rparr> = pair9 x' m a b r w ds"
  "(pair9 x m a b r w ds)\<lparr>mem9 := m'\<rparr> = pair9 x m' a b r w ds"
  "(pair9 x m a b r w ds)\<lparr>pc9 := duo Idle9 a' b'\<rparr> = pair9 x m a' b' r w ds"
  "(pair9 x m a b r w ds)\<lparr>begun9 := r'\<rparr> = pair9 x m a b r' w ds"
  "(pair9 x m a b r w ds)\<lparr>signals9 := w'\<rparr> = pair9 x m a b r w' ds"
  "(pair9 x m a b r w ds)\<lparr>given9 := ds'\<rparr> = pair9 x m a b r w ds'"
  by (simp_all add: pair9_def)

text \<open>A whole write of two bytes by thread 0.\<close>

lemma pair9_write:
  assumes "reaches start (step9 C) (pair9 x [u, v] Idle9 b r w ds)"
  shows "reaches start (step9 C) (pair9 (cp_complete C x) [y, z] Idle9 b r (Suc w) (ds @ [[y, z]]))"
proof -
  let ?R = "reaches start (step9 C)"
  have 1: "?R (pair9 x [u, v] (Writing9 [y, z] 0) b r w (ds @ [[y, z]]))"
    by (rule reaches_step_eq [OF assms write_call [where i = 0 and d = "[y, z]"]]) simp_all
  have 2: "?R (pair9 x [y, v] (Writing9 [y, z] 1) b r w (ds @ [[y, z]]))"
    by (rule reaches_step_eq [OF 1 write_copy [where i = 0 and d = "[y, z]" and k = 0]]) simp_all
  have 3: "?R (pair9 x [y, z] (Writing9 [y, z] (length [y, z])) b r w (ds @ [[y, z]]))"
    by (rule reaches_step_eq [OF 2 write_copy [where i = 0 and d = "[y, z]" and k = 1]]) simp_all
  show ?thesis
    by (rule reaches_step_eq [OF 3 write_complete [where i = 0 and d = "[y, z]"]]) simp_all
qed

context completion_system
begin

lemma torn9:
  "\<exists>x. reaches (start9 C [0, 0]) (step9 C)
     (pair9 x [2, 2] Idle9 (Returned9 [1, 2]) 1 2 [[1, 1], [2, 2]])"
proof -
  let ?R = "reaches (start9 C [0, 0]) (step9 C)" and ?x = "cp_complete C (cp_init C)"
  obtain y where y: "cp_wait C ?x = Some y"
    using compl by (metis completion_laws_def not_None_eq nat.distinct(1))
  have 0: "?R (pair9 (cp_init C) [0, 0] Idle9 Idle9 0 0 [])"
    by (rule reaches_start) (simp add: start9_def pair9_def duo_idle)
  have 1: "?R (pair9 ?x [1, 1] Idle9 Idle9 0 1 [[1, 1]])" using pair9_write [OF 0, of 1 1] by simp
  have 2: "?R (pair9 ?x [1, 1] Idle9 (Waiting9 2) 0 1 [[1, 1]])"
    by (rule reaches_step_eq [OF 1 read_call [where i = 1 and n = 2]]) simp_all
  have 3: "?R (pair9 y [1, 1] Idle9 (Reading9 2 []) 1 1 [[1, 1]])"
    by (rule reaches_step_eq [OF 2 read_pass [where i = 1 and n = 2]]) (simp_all add: y)
  have 4: "?R (pair9 y [1, 1] Idle9 (Reading9 2 [1]) 1 1 [[1, 1]])"
    by (rule reaches_step_eq [OF 3 read_copy [where i = 1 and n = 2 and acc = "[]"]]) simp_all
  have 5: "?R (pair9 (cp_complete C y) [2, 2] Idle9 (Reading9 2 [1]) 1 2 [[1, 1], [2, 2]])"
    using pair9_write [OF 4, of 2 2] by (simp add: numeral_2_eq_2)
  have 6: "?R (pair9 (cp_complete C y) [2, 2] Idle9 (Reading9 2 [1, 2]) 1 2 [[1, 1], [2, 2]])"
    by (rule reaches_step_eq [OF 5 read_copy [where i = 1 and n = 2 and acc = "[1]"]]) simp_all
  have "?R (pair9 (cp_complete C y) [2, 2] Idle9 (Returned9 [1, 2]) 1 2 [[1, 1], [2, 2]])"
    by (rule reaches_step_eq [OF 6 read_return [where i = 1 and n = 2 and acc = "[1, 2]"]]) simp_all
  then show ?thesis by blast
qed

lemma reachable9: "reaches (start9 C m) (step9 C) s \<Longrightarrow> balance9 C s \<and> origin9 m s"
  by (rule sys9.inv_reaches)

end

section \<open>Properties\<close>



end
