(* ===== verification/Usb_Concurrency.thy ===== *)
theory Usb_Concurrency
  imports Usb_Driver
begin

text \<open>
  Several processes in \<open>read\<close> and \<open>write\<close> of \<open>day_09/ex23.c\<close> at once. Each call has two
  steps, the transfer and the copy between the user and the one transfer buffer, and no lock
  keeps them together. One call after the other, the steps are the operations of
  \<open>Usb_Driver\<close>.
\<close>

section \<open>The two steps of a call\<close>

definition pen_fetch :: "usb_kernel \<Rightarrow> usb_state \<Rightarrow> c_int \<times> c_int \<times> usb_state" where
  "pen_fetch K s =
     (let (retval, read_cnt, bs) = bulk_in K (device s) BULK_EP_IN (transfers s) MAX_PKT_SIZE
      in (retval, read_cnt,
          s\<lparr>bulk_buf := put_at 0 bs (bulk_buf s), transfers := transfers s @ [Bulk_in (device s) BULK_EP_IN bs]\<rparr>))"

definition pen_deliver :: "uaccess \<Rightarrow> ptr \<Rightarrow> size_t \<Rightarrow> c_int \<Rightarrow> usb_state \<Rightarrow> (ssize_t \<times> byte list) outcome" where
  "pen_deliver U buf cnt read_cnt s =
     obind (copy_out U buf static_addr (bulk_buf s) 0 (MIN_size cnt (scast read_cnt)))
       (\<lambda>(left, out). Ret (if left \<noteq> 0 then - EFAULT else MIN_size cnt (scast read_cnt), out))"

definition pen_fill :: "uaccess \<Rightarrow> ptr \<Rightarrow> size_t \<Rightarrow> usb_state \<Rightarrow> (size_t \<times> usb_state) outcome" where
  "pen_fill U buf cnt s =
     obind (copy_in U buf static_addr (bulk_buf s) 0 (MIN_size cnt (of_nat MAX_PKT_SIZE)))
       (\<lambda>(left, m). Ret (left, s\<lparr>bulk_buf := m\<rparr>))"

definition pen_send :: "usb_kernel \<Rightarrow> size_t \<Rightarrow> usb_state \<Rightarrow> ssize_t \<times> usb_state" where
  "pen_send K cnt s =
     (let data = get_at 0 (unat (MIN_size cnt (of_nat MAX_PKT_SIZE))) (bulk_buf s);
          (retval, wrote_cnt) = bulk_out K (device s) BULK_EP_OUT (transfers s) data;
          s = s\<lparr>transfers := transfers s @ [Bulk_out (device s) BULK_EP_OUT (take (unat wrote_cnt) data)]\<rparr>
      in (if retval \<noteq> 0 then scast retval else scast wrote_cnt, s))"

lemma pen_read_steps:
  "pen_drive_read K U buf cnt s =
     (case pen_fetch K s of (retval, read_cnt, t) \<Rightarrow>
        if retval \<noteq> 0 then Ret (scast retval, [], t)
        else obind (pen_deliver U buf cnt read_cnt t) (\<lambda>(r, out). Ret (r, out, t)))"
  by (cases "copy_out U buf static_addr (put_at 0 (snd (snd (bulk_in K (device s) BULK_EP_IN (transfers s) MAX_PKT_SIZE))) (bulk_buf s)) 0
      (MIN_size cnt (scast (fst (snd (bulk_in K (device s) BULK_EP_IN (transfers s) MAX_PKT_SIZE)))))")
    (auto simp: pen_drive_read_def pen_fetch_def pen_deliver_def Let_def split: prod.splits)

lemma pen_write_steps:
  "pen_drive_write K U buf cnt s =
     obind (pen_fill U buf cnt s) (\<lambda>(left, t). Ret (if left \<noteq> 0 then (- EFAULT, t) else pen_send K cnt t))"
  by (cases "copy_in U buf static_addr (bulk_buf s) 0 (MIN_size cnt (of_nat MAX_PKT_SIZE))")
    (auto simp: pen_drive_write_def pen_fill_def pen_send_def Let_def split: prod.splits)

section \<open>Interleaved calls\<close>

datatype upc = U_idle | U_fetched uaccess ptr size_t c_int | U_filled size_t

record usb_sys =
  pens :: usb_state
  upc :: "nat \<Rightarrow> upc"
  results :: "(nat \<times> ssize_t \<times> byte list) list"

definition usb_start :: "usb_sys \<Rightarrow> bool" where
  "usb_start s \<longleftrightarrow> s = \<lparr>pens = usb_image, upc = (\<lambda>_. U_idle), results = []\<rparr>"

inductive usb_step :: "usb_kernel \<Rightarrow> usb_sys \<Rightarrow> usb_sys \<Rightarrow> bool" for K :: usb_kernel where
  fetch: "upc s i = U_idle \<Longrightarrow> pen_fetch K (pens s) = (0, read_cnt, p) \<Longrightarrow>
    usb_step K s (s\<lparr>pens := p, upc := (upc s)(i := U_fetched U buf cnt read_cnt)\<rparr>)"
| fetch_fails: "upc s i = U_idle \<Longrightarrow> pen_fetch K (pens s) = (retval, read_cnt, p) \<Longrightarrow> retval \<noteq> 0 \<Longrightarrow>
    usb_step K s (s\<lparr>pens := p, results := results s @ [(i, scast retval, [])]\<rparr>)"
| deliver: "upc s i = U_fetched U buf cnt read_cnt \<Longrightarrow> pen_deliver U buf cnt read_cnt (pens s) = Ret (r, out) \<Longrightarrow>
    usb_step K s (s\<lparr>upc := (upc s)(i := U_idle), results := results s @ [(i, r, out)]\<rparr>)"
| fill: "upc s i = U_idle \<Longrightarrow> uaccess_ok U \<Longrightarrow> pen_fill U buf cnt (pens s) = Ret (0, p) \<Longrightarrow>
    usb_step K s (s\<lparr>pens := p, upc := (upc s)(i := U_filled cnt)\<rparr>)"
| fill_fails: "upc s i = U_idle \<Longrightarrow> uaccess_ok U \<Longrightarrow> pen_fill U buf cnt (pens s) = Ret (left, p) \<Longrightarrow> left \<noteq> 0 \<Longrightarrow>
    usb_step K s (s\<lparr>pens := p, results := results s @ [(i, - EFAULT, [])]\<rparr>)"
| send: "upc s i = U_filled cnt \<Longrightarrow> pen_send K cnt (pens s) = (r, p) \<Longrightarrow>
    usb_step K s (s\<lparr>pens := p, upc := (upc s)(i := U_idle), results := results s @ [(i, r, [])]\<rparr>)"

section \<open>The buffer keeps its size and no copy leaves it\<close>

fun fetched_pc :: "upc \<Rightarrow> bool" where
  "fetched_pc (U_fetched U buf cnt read_cnt) \<longleftrightarrow> unat read_cnt \<le> MAX_PKT_SIZE"
| "fetched_pc p \<longleftrightarrow> True"

definition usb_inv :: "usb_sys \<Rightarrow> bool" where
  "usb_inv s \<longleftrightarrow> usb_wf (pens s) \<and> (\<forall>i. fetched_pc (upc s i))"

lemma fetch_wf:
  assumes "usb_ok K" and "usb_wf s" and "pen_fetch K s = (retval, read_cnt, t)"
  shows "usb_wf t \<and> (retval = 0 \<longrightarrow> unat read_cnt \<le> MAX_PKT_SIZE)"
proof -
  obtain bs where b: "bulk_in K (device s) BULK_EP_IN (transfers s) MAX_PKT_SIZE = (retval, read_cnt, bs)"
    "bulk_buf t = put_at 0 bs (bulk_buf s)"
    using assms(3) by (auto simp: pen_fetch_def Let_def split: prod.splits)
  then have "length bs \<le> MAX_PKT_SIZE \<and> (retval = 0 \<longrightarrow> unat read_cnt = length bs)"
    using usb_in_bounds [OF assms(1)] by blast
  with b(2) assms(2) show ?thesis by (auto simp: usb_wf_def length_put_at)
qed

lemma fill_wf:
  assumes "uaccess_ok U" and "usb_wf s" and "pen_fill U buf cnt s = Ret (left, t)"
  shows "usb_wf t"
proof -
  let ?n = "MIN_size cnt (of_nat MAX_PKT_SIZE)"
  have n: "unat ?n \<le> MAX_PKT_SIZE" by (simp add: unat_MIN_size MAX_PKT_SIZE_def)
  have "bulk_buf t = put_at 0 (snd (copy_from_user U buf ?n)) (bulk_buf s)"
    using assms(3) by (auto simp: pen_fill_def copy_in_def Let_def obind_Ret_iff split: option.splits)
  then show ?thesis
    using assms(2) n length_copy_from_user [OF assms(1), of buf ?n] by (simp add: usb_wf_def length_put_at)
qed

lemma send_wf: "usb_wf s \<Longrightarrow> pen_send K cnt s = (r, t) \<Longrightarrow> usb_wf t"
  by (auto simp: pen_send_def usb_wf_def Let_def split: prod.splits)

lemma usb_inv_step: "usb_step K s t \<Longrightarrow> usb_ok K \<Longrightarrow> usb_inv s \<Longrightarrow> usb_inv t"
proof (induction rule: usb_step.induct)
  case (fetch s i read_cnt p U buf cnt)
  then show ?case using fetch_wf [OF fetch(3) _ fetch(2)] by (auto simp: usb_inv_def)
next
  case (fetch_fails s i retval read_cnt p)
  then show ?case using fetch_wf [OF fetch_fails(4) _ fetch_fails(2)] by (auto simp: usb_inv_def)
next
  case (fill s i U buf cnt p)
  then show ?case using fill_wf [OF fill(2) _ fill(3)] by (auto simp: usb_inv_def)
next
  case (fill_fails s i U buf cnt left p)
  then show ?case using fill_wf [OF fill_fails(2) _ fill_fails(3)] by (auto simp: usb_inv_def)
next
  case (send s i cnt r p)
  then show ?case using send_wf [OF _ send(2)] by (auto simp: usb_inv_def)
qed (auto simp: usb_inv_def)

lemma usb_inv_start: "usb_start s \<Longrightarrow> usb_inv s"
  by (simp add: usb_start_def usb_inv_def)

lemma usb_inv_reaches:
  assumes "usb_ok K" and "reaches usb_start (usb_step K) s"
  shows "usb_inv s"
proof -
  have "invariant_system usb_start (usb_step K) usb_inv"
    using assms(1) by (intro invariant_system.intro) (auto intro: usb_inv_start usb_inv_step)
  then show ?thesis using assms(2) by (rule invariant_system.inv_reaches)
qed

lemma deliver_inside:
  assumes "usb_inv s" and "upc s i = U_fetched U buf cnt read_cnt"
  shows "\<exists>x. pen_deliver U buf cnt read_cnt (pens s) = Ret x"
proof -
  have r: "unat read_cnt \<le> MAX_PKT_SIZE" and wf: "length (bulk_buf (pens s)) = MAX_PKT_SIZE"
    using assms by (auto simp: usb_inv_def usb_wf_def) (metis fetched_pc.simps(1))
  have "unat (scast read_cnt :: 64 word) = unat read_cnt"
    using r by (intro scast_nat_pos) (simp add: MAX_PKT_SIZE_def)
  then have "unat (MIN_size cnt (scast read_cnt)) \<le> length (bulk_buf (pens s))"
    using r wf by (simp add: unat_MIN_size)
  then show ?thesis
    by (auto simp: pen_deliver_def copy_out_def obj_check_def static_addr_def split: prod.splits)
qed

section \<open>A write that reaches the pen twice\<close>

definition pair_usb :: "usb_state \<Rightarrow> upc \<Rightarrow> upc \<Rightarrow> (nat \<times> ssize_t \<times> byte list) list \<Rightarrow> usb_sys" where
  "pair_usb p a b rs = \<lparr>pens = p, upc = duo U_idle a b, results = rs\<rparr>"

lemma pair_usb_sel [simp]:
  "pens (pair_usb p a b rs) = p" "upc (pair_usb p a b rs) = duo U_idle a b" "results (pair_usb p a b rs) = rs"
  by (simp_all add: pair_usb_def)

lemma pair_usb_upd [simp]:
  "(pair_usb p a b rs)\<lparr>pens := p'\<rparr> = pair_usb p' a b rs"
  "(pair_usb p a b rs)\<lparr>upc := duo U_idle a' b'\<rparr> = pair_usb p a' b' rs"
  "(pair_usb p a b rs)\<lparr>results := rs'\<rparr> = pair_usb p a b rs'"
  by (simp_all add: pair_usb_def)

lemma fill_all:
  assumes "uaccess_ok U" and "fst (copy_from_user U p n) = 0" and "usb_wf s" and "unat n \<le> MAX_PKT_SIZE"
  shows "pen_fill U p n s = Ret (0, s\<lparr>bulk_buf := put_at 0 (user_bytes U p (unat n)) (bulk_buf s)\<rparr>)"
proof -
  have n: "MIN_size n (of_nat MAX_PKT_SIZE) = n"
    using assms(4) by (simp add: MIN_size_def word_le_nat_alt MAX_PKT_SIZE_def)
  have "copy_from_user U p n = (0, user_bytes U p (unat n))"
    using copy_from_user_data [OF assms(1), of p n] assms(2) by (simp add: prod_eq_iff)
  then show ?thesis
    using assms(3,4) by (simp add: pen_fill_def n copy_in_def obj_check_def static_addr_def usb_wf_def)
qed

text \<open>A pen that takes whatever it is sent.\<close>

definition takes_all :: "usb_kernel \<Rightarrow> bool" where
  "takes_all K \<longleftrightarrow> (\<forall>d e t bs. length bs \<le> MAX_PKT_SIZE \<longrightarrow> bulk_out K d e t bs = (0, of_nat (length bs)))"

lemma send_all:
  assumes "takes_all K" and "usb_wf s" and "unat n \<le> MAX_PKT_SIZE"
  shows "pen_send K n s =
    (n, s\<lparr>transfers := transfers s @ [Bulk_out (device s) BULK_EP_OUT (take (unat n) (bulk_buf s))]\<rparr>)"
proof -
  have n: "MIN_size n (of_nat MAX_PKT_SIZE) = n"
    using assms(3) by (simp add: MIN_size_def word_le_nat_alt MAX_PKT_SIZE_def)
  let ?d = "take (unat n) (bulk_buf s)"
  have len: "length ?d = unat n" using assms(2,3) by (simp add: usb_wf_def)
  have w: "unat (of_nat (unat n) :: c_int) = unat n"
    using assms(3) by (subst unat_of_nat) (simp add: MAX_PKT_SIZE_def)
  have "unat (scast (of_nat (unat n) :: c_int) :: 64 word) = unat n"
    using scast_nat_pos [of "of_nat (unat n) :: c_int"] w assms(3) by (simp add: MAX_PKT_SIZE_def)
  from word_of_unat_eq [OF this] have "(scast (of_nat (unat n) :: c_int) :: 64 word) = n" by simp
  moreover have "bulk_out K (device s) BULK_EP_OUT (transfers s) ?d = (0, of_nat (unat n))"
    using assms(1,3) len by (simp add: takes_all_def)
  moreover have "get_at 0 (unat n) (bulk_buf s) = ?d" by (simp add: get_at_def)
  ultimately show ?thesis using w len by (simp add: pen_send_def n Let_def)
qed

lemma writes_cross:
  assumes "takes_all K" and "uaccess_ok U" "fst (copy_from_user U p n) = 0"
    and "uaccess_ok U'" "fst (copy_from_user U' q n) = 0" and n: "unat n \<le> MAX_PKT_SIZE"
  shows "\<exists>s. reaches usb_start (usb_step K) s \<and> results s = [(0, n, []), (1, n, [])] \<and>
    sent (transfers (pens s)) = user_bytes U' q (unat n) @ user_bytes U' q (unat n)"
proof -
  let ?R = "reaches usb_start (usb_step K)"
  let ?p1 = "usb_image\<lparr>bulk_buf := put_at 0 (user_bytes U p (unat n)) (bulk_buf usb_image)\<rparr>"
  let ?p2 = "?p1\<lparr>bulk_buf := put_at 0 (user_bytes U' q (unat n)) (bulk_buf ?p1)\<rparr>"
  let ?b = "Bulk_out (device usb_image) BULK_EP_OUT (user_bytes U' q (unat n))"
  have f1: "pen_fill U p n usb_image = Ret (0, ?p1)" by (rule fill_all [OF assms(2,3) _ n]) simp
  have wf1: "usb_wf ?p1" by (rule fill_wf [OF assms(2) usb_wf_image f1])
  have f2: "pen_fill U' q n ?p1 = Ret (0, ?p2)" by (rule fill_all [OF assms(4,5) wf1 n])
  have wf2: "usb_wf ?p2" by (rule fill_wf [OF assms(4) wf1 f2])
  have b: "take (unat n) (bulk_buf ?p2) = user_bytes U' q (unat n)" by (simp add: put_at_def)
  have s1: "pen_send K n ?p2 = (n, ?p2\<lparr>transfers := transfers ?p2 @ [?b]\<rparr>)"
    using send_all [OF assms(1) wf2 n] b by simp
  have s2: "pen_send K n (?p2\<lparr>transfers := transfers ?p2 @ [?b]\<rparr>) = (n, ?p2\<lparr>transfers := transfers ?p2 @ [?b, ?b]\<rparr>)"
    using send_all [OF assms(1) send_wf [OF wf2 s1] n] b by simp
  have 0: "?R (pair_usb usb_image U_idle U_idle [])"
    by (rule reaches_start) (simp add: usb_start_def pair_usb_def duo_idle)
  have 1: "?R (pair_usb ?p1 (U_filled n) U_idle [])"
    by (rule reaches_step_eq [OF 0 fill [where i = 0 and U = U and buf = p and cnt = n and p = ?p1]]) (simp_all add: assms f1)
  have 2: "?R (pair_usb ?p2 (U_filled n) (U_filled n) [])"
    by (rule reaches_step_eq [OF 1 fill [where i = 1 and U = U' and buf = q and cnt = n and p = ?p2]]) (simp_all add: assms f2)
  have 3: "?R (pair_usb (?p2\<lparr>transfers := transfers ?p2 @ [?b]\<rparr>) U_idle (U_filled n) [(0, n, [])])"
    by (rule reaches_step_eq [OF 2 send [where i = 0 and cnt = n]]) (use s1 in simp_all)
  have 4: "?R (pair_usb (?p2\<lparr>transfers := transfers ?p2 @ [?b, ?b]\<rparr>) U_idle U_idle [(0, n, []), (1, n, [])])"
    by (rule reaches_step_eq [OF 3 send [where i = 1 and cnt = n]]) (use s2 in simp_all)
  show ?thesis
    by (rule exI [of _ "pair_usb (?p2\<lparr>transfers := transfers ?p2 @ [?b, ?b]\<rparr>) U_idle U_idle [(0, n, []), (1, n, [])]"])
      (use 4 in \<open>simp add: usb_image_def\<close>)
qed

section \<open>Property\<close>


definition greedy_pen :: usb_kernel where
  "greedy_pen = slow_pen\<lparr>bulk_out := (\<lambda>d e t bs. (0, of_nat (min 512 (length bs))))\<rparr>"

lemma greedy_pen_ok: "usb_ok greedy_pen" "takes_all greedy_pen"
proof -
  have "unat (of_nat (min 512 n) :: c_int) = min 512 n" for n
    by (subst unat_of_nat) simp
  then show "usb_ok greedy_pen" using slow_pen_ok by (auto simp: usb_ok_def greedy_pen_def)
  show "takes_all greedy_pen" by (simp add: takes_all_def greedy_pen_def MAX_PKT_SIZE_def min_def)
qed


end
