(* ===== verification/Usb_Session.thy ===== *)
theory Usb_Session
  imports Usb_Driver
begin

text \<open>
  Sessions with the USB pen driver of \<open>day_09/ex23.c\<close>: pens are plugged in and pulled out,
  files are read and written, in any order, through the tables the driver hands to the
  USB core and the file system. Which pens the id table matches is up to the USB core, a
  parameter. The specification is one pointer: the pen that was plugged in last.
\<close>

section \<open>The tables\<close>

definition VID :: "16 word" where "VID = 0xABCD"
definition PID :: "16 word" where "PID = 0xABCD"

record usb_device_id =
  idVendor :: "16 word"
  idProduct :: "16 word"

definition ids :: "usb_device_id list" where
  "ids = [\<lparr>idVendor = VID, idProduct = PID\<rparr>, \<lparr>idVendor = 0, idProduct = 0\<rparr>]"

record usb_driver =
  usb_driver_name :: string
  probe_fn :: "usb_kernel \<Rightarrow> usb_interface \<Rightarrow> usb_state \<Rightarrow> klog \<Rightarrow> (c_int \<times> usb_state \<times> klog) outcome"
  disconnect_fn :: "usb_interface \<Rightarrow> usb_state \<Rightarrow> klog \<Rightarrow> usb_state \<times> klog"
  id_table :: "usb_device_id list"

definition sample_usb_driver :: usb_driver where
  "sample_usb_driver = \<lparr>usb_driver_name = ''usb sample driver'', probe_fn = sample_usb_driver_probe,
     disconnect_fn = sample_usb_driver_remove, id_table = ids\<rparr>"

record pen_file_ops =
  open_fn :: "usb_state \<Rightarrow> c_int \<times> usb_state"
  release_fn :: "usb_state \<Rightarrow> c_int \<times> usb_state"
  read_fn :: "usb_kernel \<Rightarrow> uaccess \<Rightarrow> ptr \<Rightarrow> size_t \<Rightarrow> usb_state \<Rightarrow> (ssize_t \<times> byte list \<times> usb_state) outcome"
  write_fn :: "usb_kernel \<Rightarrow> uaccess \<Rightarrow> ptr \<Rightarrow> size_t \<Rightarrow> usb_state \<Rightarrow> (ssize_t \<times> usb_state) outcome"

definition pen_drive_file_ops :: pen_file_ops where
  "pen_drive_file_ops = \<lparr>open_fn = pen_drive_open, release_fn = pen_drive_close,
     read_fn = pen_drive_read, write_fn = pen_drive_write\<rparr>"

section \<open>Sessions\<close>

text \<open>
  \<open>Read_file n\<close> and \<open>Write_file n\<close> go through a file of the \<open>n\<close>-th pen that got a minor; such
  a file may still be open after the pen was pulled out. \<open>files\<close> has the pens in that
  order and whether they are still plugged in. \<open>moved\<close> is a ghost: each transfer with the
  place in the session and the file of the call that made it.
\<close>

datatype usb_event = Plug_in usb_interface | Pull_out nat | Read_file nat ptr size_t | Write_file nat ptr size_t

record usb_session =
  driver :: usb_state
  usb_log :: klog
  files :: "(usb_interface \<times> bool) list"
  moved :: "(nat \<times> nat \<times> transfer) list"
  clock :: nat

definition new_transfers :: "nat \<Rightarrow> usb_session \<Rightarrow> usb_state \<Rightarrow> usb_session" where
  "new_transfers n S s = S\<lparr>driver := s,
     moved := moved S @ map (\<lambda>t. (clock S, n, t)) (drop (length (transfers (driver S))) (transfers s))\<rparr>"

fun usb_event_step ::
    "(usb_device_id list \<Rightarrow> usb_interface \<Rightarrow> bool) \<Rightarrow> usb_kernel \<Rightarrow> uaccess \<Rightarrow> usb_event \<Rightarrow> usb_session \<Rightarrow>
      usb_session outcome" where
  "usb_event_step M K U (Plug_in f) S =
     (if M (id_table sample_usb_driver) f
      then obind (probe_fn sample_usb_driver K f (driver S) (usb_log S)) (\<lambda>(ret, s, l).
             Ret (S\<lparr>driver := s, usb_log := l, files := (if sint ret < 0 then files S else files S @ [(f, True)])\<rparr>))
      else Ret S)"
| "usb_event_step M K U (Pull_out n) S =
     (if n < length (files S) \<and> snd (files S ! n)
      then let f = fst (files S ! n);
               (s, l) = disconnect_fn sample_usb_driver f (driver S) (usb_log S)
           in Ret (S\<lparr>driver := s, usb_log := l, files := (files S)[n := (f, False)]\<rparr>)
      else Ret S)"
| "usb_event_step M K U (Read_file n p cnt) S =
     (if n < length (files S)
      then obind (read_fn pen_drive_file_ops K U p cnt (driver S)) (\<lambda>(r, out, s). Ret (new_transfers n S s))
      else Ret S)"
| "usb_event_step M K U (Write_file n p cnt) S =
     (if n < length (files S)
      then obind (write_fn pen_drive_file_ops K U p cnt (driver S)) (\<lambda>(r, s). Ret (new_transfers n S s))
      else Ret S)"

fun usb_run ::
    "(usb_device_id list \<Rightarrow> usb_interface \<Rightarrow> bool) \<Rightarrow> usb_kernel \<Rightarrow> uaccess \<Rightarrow> usb_event list \<Rightarrow> usb_session \<Rightarrow>
      usb_session outcome" where
  "usb_run M K U [] S = Ret S"
| "usb_run M K U (e # es) S =
     obind (usb_event_step M K U e S) (\<lambda>S. usb_run M K U es (S\<lparr>clock := Suc (clock S)\<rparr>))"

definition usb_session_start :: usb_session where
  "usb_session_start = \<lparr>driver = usb_image, usb_log = [], files = [], moved = [], clock = 0\<rparr>"

section \<open>The specification\<close>

text \<open>The pen plugged in last among those the id table matches; at first there is none.\<close>

fun last_plugged :: "(usb_device_id list \<Rightarrow> usb_interface \<Rightarrow> bool) \<Rightarrow> usb_event list \<Rightarrow> ptr \<Rightarrow> ptr" where
  "last_plugged M [] d = d"
| "last_plugged M (Plug_in f # es) d = last_plugged M es (if M ids f then usbdev f else d)"
| "last_plugged M (_ # es) d = last_plugged M es d"

fun transfer_dev :: "transfer \<Rightarrow> ptr" where
  "transfer_dev (Bulk_in d e bs) = d"
| "transfer_dev (Bulk_out d e bs) = d"

fun call_on :: "nat \<Rightarrow> usb_event \<Rightarrow> bool" where
  "call_on n (Read_file m p cnt) \<longleftrightarrow> m = n"
| "call_on n (Write_file m p cnt) \<longleftrightarrow> m = n"
| "call_on n _ \<longleftrightarrow> False"

text \<open>The descriptors of an interface are there, as many as it says.\<close>

definition interface_ok :: "usb_interface \<Rightarrow> bool" where
  "interface_ok f \<longleftrightarrow> unat (bNumEndpoints f) \<le> length (endpoint f)"

section \<open>One event\<close>

lemma last_plugged_append: "last_plugged M (es @ fs) d = last_plugged M fs (last_plugged M es d)"
  by (induction M es d rule: last_plugged.induct) auto

lemma print_endpoints_ok:
  "i + n \<le> length (endpoint f) \<Longrightarrow> \<exists>t. print_endpoints f i n s = Ret t \<and> device t = device s \<and>
     bulk_buf t = bulk_buf s \<and> transfers t = transfers s"
proof (induction n arbitrary: i s)
  case (Suc n)
  then show ?case
    using Suc.IH [of "Suc i" "usb_printk [Endpoint i (endpoint f ! i)] s"] by (auto simp: usb_printk_def)
qed simp

lemma probe_ok:
  assumes "interface_ok f"
  shows "\<exists>ret t l'. sample_usb_driver_probe K f s l = Ret (ret, t, l') \<and> device t = usbdev f \<and>
    bulk_buf t = bulk_buf s \<and> transfers t = transfers s"
proof -
  let ?s = "usb_printk [Now_probed (bInterfaceNumber f), Num_endpoints (bNumEndpoints f), Interface_class (bInterfaceClass f)] s"
  obtain t where "print_endpoints f 0 (unat (bNumEndpoints f)) ?s = Ret t" "bulk_buf t = bulk_buf ?s" "transfers t = transfers ?s"
    using print_endpoints_ok [of 0 "unat (bNumEndpoints f)" f ?s] assms by (auto simp: interface_ok_def)
  then show ?thesis by (auto simp: sample_usb_driver_probe_def usb_printk_def Let_def)
qed

lemma pen_read_ok:
  assumes "usb_ok K" and "uaccess_ok U" and "usb_wf s"
  shows "\<exists>r out t bs. pen_drive_read K U p cnt s = Ret (r, out, t) \<and> device t = device s \<and> usb_wf t \<and>
    transfers t = transfers s @ [Bulk_in (device s) BULK_EP_IN bs]"
proof -
  obtain ret c bs where b: "bulk_in K (device s) BULK_EP_IN (transfers s) 512 = (ret, c, bs)"
    by (metis prod_cases3)
  have "length (bulk_buf s) = 512" using assms(3) by (simp add: usb_wf_def MAX_PKT_SIZE_def)
  from pen_read_step [OF assms(1,2) this b, of p cnt] show ?thesis
    by (auto simp: usb_wf_def MAX_PKT_SIZE_def split: if_splits)
qed

lemma pen_write_ok:
  assumes "uaccess_ok U" and "usb_wf s"
  shows "\<exists>r t ts. pen_drive_write K U p cnt s = Ret (r, t) \<and> device t = device s \<and> usb_wf t \<and>
    transfers t = transfers s @ ts \<and> (\<forall>x \<in> set ts. transfer_dev x = device s)"
proof -
  let ?n = "MIN_size cnt (of_nat MAX_PKT_SIZE)"
  let ?r = "copy_from_user U p ?n"
  have n: "unat ?n \<le> MAX_PKT_SIZE" by (simp add: unat_MIN_size MAX_PKT_SIZE_def)
  have "obj_check static_addr (bulk_buf s) 0 (unat ?n) = None"
    using n assms(2) by (simp add: static_addr_def usb_wf_def)
  then have c: "copy_in U p static_addr (bulk_buf s) 0 ?n = Ret (fst ?r, put_at 0 (snd ?r) (bulk_buf s))"
    by (simp only: copy_in_def Let_def option.case)
  have "length (put_at 0 (snd ?r) (bulk_buf s)) = MAX_PKT_SIZE"
    using n assms(2) by (simp add: length_put_at usb_wf_def length_copy_from_user [OF assms(1)])
  with c show ?thesis
    by (auto simp: pen_drive_write_def usb_wf_def Let_def split: prod.splits)
qed

section \<open>Whole sessions\<close>

text \<open>\<open>past\<close> are the events so far.\<close>

definition moved_ok ::
    "(usb_device_id list \<Rightarrow> usb_interface \<Rightarrow> bool) \<Rightarrow> usb_event list \<Rightarrow> nat \<Rightarrow> nat \<times> nat \<times> transfer \<Rightarrow> bool" where
  "moved_ok M past nf = (\<lambda>(k, n, t). k < length past \<and> n < nf \<and> call_on n (past ! k) \<and>
     transfer_dev t = last_plugged M (take k past) 0)"

definition usb_session_inv ::
    "(usb_device_id list \<Rightarrow> usb_interface \<Rightarrow> bool) \<Rightarrow> usb_event list \<Rightarrow> usb_session \<Rightarrow> bool" where
  "usb_session_inv M past S \<longleftrightarrow> usb_wf (driver S) \<and> device (driver S) = last_plugged M past 0 \<and> clock S = length past \<and>
     transfers (driver S) = map (snd \<circ> snd) (moved S) \<and> (\<forall>x \<in> set (moved S). moved_ok M past (length (files S)) x)"

lemma moved_ok_mono: "moved_ok M past n x \<Longrightarrow> n \<le> n' \<Longrightarrow> moved_ok M (past @ [e]) n' x"
  by (auto simp: moved_ok_def nth_append split: prod.splits)

text \<open>An event that moves no data.\<close>

lemma usb_session_inv_quiet:
  assumes "usb_session_inv M past S" and "bulk_buf s = bulk_buf (driver S)" and "transfers s = transfers (driver S)"
    and "device s = last_plugged M (past @ [e]) 0" and "length (files S) \<le> length fs"
  shows "usb_session_inv M (past @ [e]) (S\<lparr>driver := s, usb_log := l, files := fs, clock := Suc (clock S)\<rparr>)"
  using assms by (auto simp: usb_session_inv_def usb_wf_def intro: moved_ok_mono)

text \<open>A call that moves data to or from the current device.\<close>

lemma usb_session_inv_call:
  assumes "usb_session_inv M past S" and "n < length (files S)" and "call_on n e" and "usb_wf s"
    and "device s = device (driver S)" and "transfers s = transfers (driver S) @ ts"
    and "\<forall>x \<in> set ts. transfer_dev x = device (driver S)"
  shows "usb_session_inv M (past @ [e]) ((new_transfers n S s)\<lparr>clock := Suc (clock S)\<rparr>)"
proof -
  have d: "device (driver S) = last_plugged M past 0" and c: "clock S = length past"
    using assms(1) by (auto simp: usb_session_inv_def)
  have "last_plugged M (past @ [e]) 0 = last_plugged M past 0"
    using assms(3) by (cases e) (auto simp: last_plugged_append)
  moreover have "moved_ok M (past @ [e]) (length (files S)) (length past, n, t)" if "t \<in> set ts" for t
    using that assms(2,3,7) d by (simp add: moved_ok_def)
  ultimately show ?thesis
    using assms d c by (auto simp: usb_session_inv_def new_transfers_def comp_def intro: moved_ok_mono)
qed

lemma usb_event_ok:
  assumes "usb_ok K" and "uaccess_ok U" and "\<And>f. e = Plug_in f \<Longrightarrow> interface_ok f" and "usb_session_inv M past S"
  shows "\<exists>S'. usb_event_step M K U e S = Ret S' \<and> clock S' = clock S \<and> usb_session_inv M (past @ [e]) (S'\<lparr>clock := Suc (clock S)\<rparr>)"
proof -
  have wf: "usb_wf (driver S)" and d: "device (driver S) = last_plugged M past 0"
    using assms(4) by (auto simp: usb_session_inv_def)
  have idle: "usb_session_inv M (past @ [e]) (S\<lparr>clock := Suc (clock S)\<rparr>)"
    if "last_plugged M (past @ [e]) 0 = last_plugged M past 0"
    using usb_session_inv_quiet [OF assms(4) refl refl _ order_refl, of e "usb_log S"] that d by simp
  show ?thesis
  proof (cases e)
    case (Plug_in f)
    show ?thesis
    proof (cases "M ids f")
      case True
      obtain ret t l' where p: "sample_usb_driver_probe K f (driver S) (usb_log S) = Ret (ret, t, l')"
        "device t = usbdev f" "bulk_buf t = bulk_buf (driver S)" "transfers t = transfers (driver S)"
        using probe_ok [OF assms(3) [OF Plug_in]] by blast
      have "device t = last_plugged M (past @ [e]) 0" by (simp add: Plug_in True p(2) last_plugged_append)
      from usb_session_inv_quiet [OF assms(4) p(3,4) this]
      show ?thesis using p(1) True by (simp add: Plug_in sample_usb_driver_def)
    next
      case False
      then show ?thesis using idle by (simp add: Plug_in sample_usb_driver_def last_plugged_append)
    qed
  next
    case (Pull_out n)
    have "device (driver S) = last_plugged M (past @ [e]) 0" by (simp add: Pull_out last_plugged_append d)
    from usb_session_inv_quiet [OF assms(4) _ _ _, of "fst (sample_usb_driver_remove (fst (files S ! n)) (driver S) (usb_log S))" e
        "(files S)[n := (fst (files S ! n), False)]"] this idle
    show ?thesis
      by (simp add: Pull_out sample_usb_driver_def sample_usb_driver_remove_def usb_printk_def last_plugged_append
          Let_def)
  next
    case (Read_file n p cnt)
    obtain r out t bs where "pen_drive_read K U p cnt (driver S) = Ret (r, out, t)" "device t = device (driver S)" "usb_wf t"
      "transfers t = transfers (driver S) @ [Bulk_in (device (driver S)) BULK_EP_IN bs]"
      using pen_read_ok [OF assms(1,2) wf] by blast
    then show ?thesis
      using usb_session_inv_call [OF assms(4), of n e t] idle
      by (auto simp: Read_file pen_drive_file_ops_def last_plugged_append new_transfers_def)
  next
    case (Write_file n p cnt)
    obtain r t ts where "pen_drive_write K U p cnt (driver S) = Ret (r, t)" "device t = device (driver S)" "usb_wf t"
      "transfers t = transfers (driver S) @ ts" "\<forall>x \<in> set ts. transfer_dev x = device (driver S)"
      using pen_write_ok [OF assms(2) wf] by blast
    then show ?thesis
      using usb_session_inv_call [OF assms(4), of n e t ts] idle
      by (auto simp: Write_file pen_drive_file_ops_def last_plugged_append new_transfers_def)
  qed
qed

lemma usb_run_ok:
  assumes "usb_ok K" and "uaccess_ok U"
  shows "usb_session_inv M past S \<Longrightarrow> \<forall>f. Plug_in f \<in> set es \<longrightarrow> interface_ok f \<Longrightarrow>
    \<exists>S'. usb_run M K U es S = Ret S' \<and> usb_session_inv M (past @ es) S'"
proof (induction es arbitrary: past S)
  case Nil
  then show ?case by simp
next
  case (Cons e es)
  obtain S1 where s: "usb_event_step M K U e S = Ret S1" "clock S1 = clock S"
    "usb_session_inv M (past @ [e]) (S1\<lparr>clock := Suc (clock S)\<rparr>)"
    using usb_event_ok [OF assms _ Cons.prems(1)] Cons.prems(2) by (metis list.set_intros(1))
  then show ?case using Cons.IH [OF s(3)] Cons.prems(2) by simp
qed

lemma usb_session_inv_start: "usb_session_inv M [] usb_session_start"
  by (simp add: usb_session_inv_def usb_session_start_def) (simp add: usb_image_def)


text \<open>Pens 7 and 9 are plugged in; pen 9 gets no minor, and a read of the file of pen 7 reads it.\<close>

definition two_pens :: "usb_event list" where
  "two_pens = [Plug_in (pen 7), Plug_in (pen 9), Read_file 0 0 4]"

lemma two_pens_run:
  "\<exists>S t. usb_run (\<lambda>_ _. True) slow_pen (mapped_uaccess ucast) two_pens usb_session_start = Ret S \<and>
     (2, 0, t) \<in> set (moved S)"
proof -
  have ok: "interface_ok (pen d)" for d by (simp add: interface_ok_def pen_def)
  have z: "usb_register_dev slow_pen [] = 0" by (simp add: slow_pen_def)
  obtain ret s1 l1 where p1: "sample_usb_driver_probe slow_pen (pen 7) usb_image [] = Ret (ret, s1, l1)"
    "bulk_buf s1 = bulk_buf usb_image" "transfers s1 = transfers usb_image"
    using probe_ok [OF ok] by blast
  have "ret = usb_register_dev slow_pen []"
    using p1(1) by (auto simp: sample_usb_driver_probe_def obind_Ret_iff Let_def split: if_splits)
  then have ret: "\<not> sint ret < 0" using z by simp
  obtain ret2 s2 l2 where p2: "sample_usb_driver_probe slow_pen (pen 9) s1 l1 = Ret (ret2, s2, l2)"
    "bulk_buf s2 = bulk_buf s1" "transfers s2 = transfers s1"
    using probe_ok [OF ok] by blast
  have tr: "transfers usb_image = []" by (simp add: usb_image_def)
  have "usb_wf s2" using p1(2) p2(2) by (simp add: usb_wf_def usb_image_def)
  from pen_read_ok [OF slow_pen_ok mapped_uaccess_ok this] obtain r out s3 bs where
    p3: "pen_drive_read slow_pen (mapped_uaccess ucast) 0 4 s2 = Ret (r, out, s3)"
      "transfers s3 = transfers s2 @ [Bulk_in (device s2) BULK_EP_IN bs]" by blast
  show ?thesis
    using ret p1(3) p2(3) tr
    by (simp add: two_pens_def usb_session_start_def sample_usb_driver_def pen_drive_file_ops_def new_transfers_def
        p1(1) p2(1) p3)
qed


end
