(* ===== verification/Unlocked_Concurrency.thy ===== *)
theory Unlocked_Concurrency
  imports Char_Driver Mmap_Driver
begin

text \<open>
  Any number of threads in \<open>read\<close> and \<open>write\<close> of a driver that takes no lock at all, byte
  by byte: \<open>ex3.c\<close> and \<open>ex4.c\<close>, where every call works at offset 0, and \<open>ex27.c\<close>, where it
  works at the file position. \<open>raw_step\<close> is one step of one thread. The last part ties
  the steps of one thread to the functions of the three drivers.
\<close>

section \<open>Threads without a lock\<close>

text \<open>
  A reader at offset \<open>off\<close> has copied \<open>acc\<close> of \<open>n\<close> bytes. A writer at \<open>off\<close> has stored \<open>k\<close>
  bytes of \<open>d\<close>, what \<open>copy_from_user\<close> puts at the destination; its first number is a
  ghost, the place of its call in the list \<open>issued\<close> of all writes called so far.
\<close>

datatype raw_pc =
    Out
  | Reading nat nat "byte list"
  | Writing nat nat "byte list" nat

record raw =
  raw_mem :: "byte list"
  raw_pc :: "nat \<Rightarrow> raw_pc"
  issued :: "(nat \<times> byte list) list"
  returned :: "nat set"
  answers :: "(nat \<times> byte list) list"

definition raw_start :: "byte list \<Rightarrow> raw \<Rightarrow> bool" where
  "raw_start m s \<longleftrightarrow> s = \<lparr>raw_mem = m, raw_pc = (\<lambda>_. Out), issued = [], returned = {}, answers = []\<rparr>"

inductive raw_step :: "raw \<Rightarrow> raw \<Rightarrow> bool" where
  read_call: "raw_pc s i = Out \<Longrightarrow> off + n \<le> length (raw_mem s) \<Longrightarrow>
    raw_step s (s\<lparr>raw_pc := (raw_pc s)(i := Reading off n [])\<rparr>)"
| read_byte: "raw_pc s i = Reading off n acc \<Longrightarrow> length acc < n \<Longrightarrow>
    raw_step s (s\<lparr>raw_pc := (raw_pc s)(i := Reading off n (acc @ [raw_mem s ! (off + length acc)]))\<rparr>)"
| read_ret: "raw_pc s i = Reading off n acc \<Longrightarrow>
    raw_step s (s\<lparr>raw_pc := (raw_pc s)(i := Out), answers := answers s @ [(off, acc)]\<rparr>)"
| write_call: "raw_pc s i = Out \<Longrightarrow> off + length d \<le> length (raw_mem s) \<Longrightarrow>
    raw_step s (s\<lparr>raw_pc := (raw_pc s)(i := Writing (length (issued s)) off d 0), issued := issued s @ [(off, d)]\<rparr>)"
| write_byte: "raw_pc s i = Writing w off d k \<Longrightarrow> k < length d \<Longrightarrow>
    raw_step s (s\<lparr>raw_mem := (raw_mem s)[off + k := d ! k], raw_pc := (raw_pc s)(i := Writing w off d (Suc k))\<rparr>)"
| write_ret: "raw_pc s i = Writing w off d (length d) \<Longrightarrow>
    raw_step s (s\<lparr>raw_pc := (raw_pc s)(i := Out), returned := insert w (returned s)\<rparr>)"

inductive_cases raw_stepE: "raw_step s t"

section \<open>Where bytes come from\<close>

text \<open>Byte \<open>i\<close> of the buffer may be \<open>b\<close>: it was so at the start, or a write puts it there.\<close>

definition origin :: "byte list \<Rightarrow> (nat \<times> byte list) list \<Rightarrow> nat \<Rightarrow> byte \<Rightarrow> bool" where
  "origin m ws i b \<longleftrightarrow> b = m ! i \<or> (\<exists>(off, d) \<in> set ws. off \<le> i \<and> i < off + length d \<and> b = d ! (i - off))"

definition origins :: "byte list \<Rightarrow> (nat \<times> byte list) list \<Rightarrow> nat \<Rightarrow> byte list \<Rightarrow> bool" where
  "origins m ws off acc \<longleftrightarrow> (\<forall>j < length acc. origin m ws (off + j) (acc ! j))"

lemma origin_mono: "origin m ws i b \<Longrightarrow> set ws \<subseteq> set ws' \<Longrightarrow> origin m ws' i b"
  by (auto simp: origin_def)

lemma origins_mono: "origins m ws off acc \<Longrightarrow> set ws \<subseteq> set ws' \<Longrightarrow> origins m ws' off acc"
  by (auto simp: origins_def intro: origin_mono)

lemma origins_snoc: "origins m ws off (acc @ [b]) \<longleftrightarrow> origins m ws off acc \<and> origin m ws (off + length acc) b"
  by (auto simp: origins_def nth_append less_Suc_eq)

lemma origins_Nil [simp]: "origins m ws off []"
  by (simp add: origins_def)

fun raw_pc_ok :: "byte list \<Rightarrow> raw \<Rightarrow> raw_pc \<Rightarrow> bool" where
  "raw_pc_ok m s Out \<longleftrightarrow> True"
| "raw_pc_ok m s (Reading off n acc) \<longleftrightarrow>
     off + n \<le> length m \<and> length acc \<le> n \<and> origins m (issued s) off acc"
| "raw_pc_ok m s (Writing w off d k) \<longleftrightarrow>
     k \<le> length d \<and> off + length d \<le> length m \<and> w < length (issued s) \<and> issued s ! w = (off, d) \<and> w \<notin> returned s"

fun writer :: "raw_pc \<Rightarrow> nat option" where
  "writer (Writing w off d k) = Some w"
| "writer _ = None"

lemma writer_Some: "writer p = Some w \<longleftrightarrow> (\<exists>off d k. p = Writing w off d k)"
  by (cases p) auto

definition one_thread_each :: "(nat \<Rightarrow> raw_pc) \<Rightarrow> bool" where
  "one_thread_each f \<longleftrightarrow> (\<forall>i j w. writer (f i) = Some w \<longrightarrow> writer (f j) = Some w \<longrightarrow> i = j)"

lemma one_thread_upd:
  assumes "one_thread_each f" and "\<And>w j. writer p = Some w \<Longrightarrow> writer (f j) = Some w \<Longrightarrow> j = i"
  shows "one_thread_each (f(i := p))"
  using assms unfolding one_thread_each_def by (auto split: if_splits)

lemma one_thread_eq: "one_thread_each f \<Longrightarrow> writer (f i) = Some w \<Longrightarrow> writer (f j) = Some w \<Longrightarrow> i = j"
  unfolding one_thread_each_def by blast

definition raw_inv :: "byte list \<Rightarrow> raw \<Rightarrow> bool" where
  "raw_inv m s \<longleftrightarrow> length (raw_mem s) = length m \<and> origins m (issued s) 0 (raw_mem s) \<and>
     (\<forall>i. raw_pc_ok m s (raw_pc s i)) \<and> (\<forall>(off, acc) \<in> set (answers s). origins m (issued s) off acc) \<and>
     (\<forall>(off, d) \<in> set (issued s). off + length d \<le> length m) \<and> returned s \<subseteq> {..<length (issued s)} \<and>
     one_thread_each (raw_pc s)"

lemma raw_invD:
  assumes "raw_inv m s"
  shows "length (raw_mem s) = length m" and "origins m (issued s) 0 (raw_mem s)" and "raw_pc_ok m s (raw_pc s i)"
    and "(off, acc) \<in> set (answers s) \<Longrightarrow> origins m (issued s) off acc"
    and "(off, d) \<in> set (issued s) \<Longrightarrow> off + length d \<le> length m" and "returned s \<subseteq> {..<length (issued s)}"
    and "one_thread_each (raw_pc s)"
  using assms unfolding raw_inv_def by (blast | auto)+

lemma raw_pc_ok_mono:
  "raw_pc_ok m s p \<Longrightarrow> issued s' = issued s @ ws \<Longrightarrow> returned s' = returned s \<Longrightarrow> raw_pc_ok m s' p"
  by (cases p) (auto simp: nth_append intro: origins_mono)

lemma raw_inv_pc:
  assumes "raw_inv m s" and "raw_pc_ok m s p" and "\<And>w off d k. p \<noteq> Writing w off d k"
  shows "raw_inv m (s\<lparr>raw_pc := (raw_pc s)(i := p)\<rparr>)"
proof -
  have "one_thread_each ((raw_pc s)(i := p))"
    using assms by (intro one_thread_upd) (auto simp: raw_inv_def writer_Some)
  moreover
  have "raw_pc_ok m (s\<lparr>raw_pc := f\<rparr>) q = raw_pc_ok m s q" for f q by (cases q) auto
  ultimately show ?thesis using assms by (auto simp: raw_inv_def)
qed

lemma raw_inv_answer:
  assumes "raw_inv m s" and "origins m (issued s) off acc"
  shows "raw_inv m (s\<lparr>answers := answers s @ [(off, acc)]\<rparr>)"
proof -
  have "raw_pc_ok m (s\<lparr>answers := f\<rparr>) q = raw_pc_ok m s q" for f q by (cases q) auto
  then show ?thesis using assms by (auto simp: raw_inv_def)
qed

lemma raw_inv_write_call:
  assumes "raw_inv m s" and "off + length d \<le> length m"
  shows "raw_inv m (s\<lparr>raw_pc := (raw_pc s)(i := Writing (length (issued s)) off d 0), issued := issued s @ [(off, d)]\<rparr>)"
    (is "raw_inv m ?t")
proof -
  note D = raw_invD [OF assms(1)]
  have old: "raw_pc_ok m ?t (raw_pc s j)" for j
    by (rule raw_pc_ok_mono [OF D(3)]) simp_all
  have fresh: "length (issued s) \<notin> returned s" using D(6) by auto
  have wr: "w < length (issued s)" if "raw_pc s j = Writing w o' d' k'" for j w o' d' k'
    using D(3) [of j] that by simp
  have "raw_pc_ok m ?t (raw_pc ?t j)" for j
    using old [of j] fresh assms(2) by simp
  moreover have "\<forall>(off', acc) \<in> set (answers ?t). origins m (issued ?t) off' acc"
    by (auto intro: origins_mono [OF D(4)])
  moreover have "origins m (issued ?t) 0 (raw_mem ?t)"
    using D(2) by (auto intro: origins_mono)
  moreover have "returned ?t \<subseteq> {..<length (issued ?t)}" using D(6) by auto
  moreover have "one_thread_each (raw_pc ?t)"
    by (auto simp: writer_Some intro!: one_thread_upd [OF D(7)] dest: wr)
  ultimately show ?thesis using D(1,5) assms(2) by (auto simp: raw_inv_def)
qed

lemma raw_inv_write_byte:
  assumes "raw_inv m s" and "raw_pc s i = Writing w off d k" and "k < length d"
  shows "raw_inv m (s\<lparr>raw_mem := (raw_mem s)[off + k := d ! k], raw_pc := (raw_pc s)(i := Writing w off d (Suc k))\<rparr>)"
    (is "raw_inv m ?t")
proof -
  note D = raw_invD [OF assms(1)]
  have p: "off + length d \<le> length m" "w < length (issued s)" "issued s ! w = (off, d)" "w \<notin> returned s"
    using D(3) [of i] assms(2) by auto
  have same: "raw_pc_ok m ?t q = raw_pc_ok m s q" for q by (cases q) auto
  have "(off, d) \<in> set (issued s)" using p(2,3) by (metis nth_mem)
  then have "origin m (issued s) (off + k) (d ! k)"
    using assms(3) by (force simp: origin_def)
  then have "origins m (issued s) 0 (raw_mem ?t)"
    using D(1,2) p(1) assms(3) by (auto simp: origins_def nth_list_update)
  moreover have "one_thread_each (raw_pc ?t)"
    using one_thread_eq [OF D(7)] assms(2) by (auto intro!: one_thread_upd [OF D(7)])
  moreover have "raw_pc_ok m ?t (raw_pc ?t j)" for j
    unfolding same using D(3) p assms(3) by simp
  ultimately show ?thesis using D(1,4-6) by (auto simp: raw_inv_def)
qed

lemma raw_inv_write_ret:
  assumes "raw_inv m s" and "raw_pc s i = Writing w off d (length d)"
  shows "raw_inv m (s\<lparr>raw_pc := (raw_pc s)(i := Out), returned := insert w (returned s)\<rparr>)" (is "raw_inv m ?t")
proof -
  note D = raw_invD [OF assms(1)]
  have "raw_pc_ok m ?t (raw_pc ?t j)" for j
    using D(3) [of j] one_thread_eq [OF D(7), of i w j] assms(2) by (cases "raw_pc s j") auto
  moreover have "w < length (issued s)" using D(3) [of i] assms(2) by simp
  moreover have "one_thread_each (raw_pc ?t)"
    by (auto intro!: one_thread_upd [OF D(7)])
  ultimately show ?thesis using D(1,2,4-6) by (auto simp: raw_inv_def)
qed

lemma raw_inv_step:
  assumes "raw_inv m s" and "raw_step s t"
  shows "raw_inv m t"
proof -
  note D = raw_invD [OF assms(1)]
  show ?thesis
    using assms(2)
  proof (cases rule: raw_step.cases)
    case (read_call i off n)
    then show ?thesis using D(1) raw_inv_pc [OF assms(1), of "Reading off n []" i] by simp
  next
    case (read_byte i off n acc)
    have "raw_pc_ok m s (Reading off n acc)" using D(3) [of i] read_byte(2) by simp
    moreover have "origin m (issued s) (off + length acc) (raw_mem s ! (off + length acc))"
      using D(1,2) read_byte(3) calculation by (auto simp: origins_def)
    ultimately show ?thesis
      using read_byte raw_inv_pc [OF assms(1), of "Reading off n (acc @ [raw_mem s ! (off + length acc)])" i]
      by (simp add: origins_snoc)
  next
    case (read_ret i off n acc)
    have "origins m (issued s) off acc" using D(3) [of i] read_ret(2) by simp
    then show ?thesis
      using read_ret raw_inv_answer [OF raw_inv_pc [OF assms(1), of Out i], of off acc] by simp
  next
    case (write_call i off d)
    then show ?thesis using raw_inv_write_call [OF assms(1)] D(1) by simp
  next
    case (write_byte i w off d k)
    then show ?thesis using raw_inv_write_byte [OF assms(1)] by simp
  next
    case (write_ret i w off d)
    then show ?thesis using raw_inv_write_ret [OF assms(1)] by simp
  qed
qed

lemma raw_inv_start: "raw_start m s \<Longrightarrow> raw_inv m s"
  by (simp add: raw_start_def raw_inv_def origins_def origin_def one_thread_each_def)

interpretation raw_sys: invariant_system "raw_start m" raw_step "raw_inv m" for m
  by unfold_locales (auto intro: raw_inv_step raw_inv_start)

section \<open>Writes that keep apart\<close>

definition no_overlap :: "nat \<times> byte list \<Rightarrow> nat \<times> byte list \<Rightarrow> bool" where
  "no_overlap a b \<longleftrightarrow> fst a + length (snd a) \<le> fst b \<or> fst b + length (snd b) \<le> fst a"

definition disjoint_writes :: "(nat \<times> byte list) list \<Rightarrow> bool" where
  "disjoint_writes ws \<longleftrightarrow> (\<forall>v < length ws. \<forall>w < length ws. v \<noteq> w \<longrightarrow> no_overlap (ws ! v) (ws ! w))"

lemma disjoint_writes_snoc:
  "disjoint_writes (ws @ [a]) \<longleftrightarrow> disjoint_writes ws \<and> (\<forall>w < length ws. no_overlap (ws ! w) a)"
proof -
  have "no_overlap a b = no_overlap b a" for a b by (auto simp: no_overlap_def)
  then show ?thesis by (auto simp: disjoint_writes_def nth_append less_Suc_eq)
qed

text \<open>The first \<open>k\<close> bytes of write \<open>w\<close> are in the buffer.\<close>

definition bytes_stored :: "raw \<Rightarrow> nat \<Rightarrow> nat \<Rightarrow> bool" where
  "bytes_stored s w k \<longleftrightarrow> (\<forall>j < k. raw_mem s ! (fst (issued s ! w) + j) = snd (issued s ! w) ! j)"

definition apart_inv :: "raw \<Rightarrow> bool" where
  "apart_inv s \<longleftrightarrow> (\<forall>w \<in> returned s. bytes_stored s w (length (snd (issued s ! w)))) \<and>
     (\<forall>i w off d k. raw_pc s i = Writing w off d k \<longrightarrow> bytes_stored s w k)"

lemma stored_write_byte:
  assumes "raw_inv m s" and "disjoint_writes (issued s)" and "raw_pc s i = Writing w off d k" and "k < length d"
    and "v < length (issued s)" and "v \<noteq> w" and "n \<le> length (snd (issued s ! v))" and "bytes_stored s v n"
  shows "bytes_stored (s\<lparr>raw_mem := (raw_mem s)[off + k := d ! k], raw_pc := f\<rparr>) v n"
proof -
  have p: "w < length (issued s)" "issued s ! w = (off, d)"
    using raw_invD(3) [OF assms(1), of i] assms(3) by auto
  have "no_overlap (issued s ! v) (off, d)"
    using assms(2,5,6) p unfolding disjoint_writes_def by metis
  then have "off + k \<noteq> fst (issued s ! v) + j" if "j < n" for j
    using that assms(4,7) by (auto simp: no_overlap_def)
  then show ?thesis using assms(8) by (auto simp: bytes_stored_def)
qed

lemma apart_inv_write_byte:
  assumes "raw_inv m s" and "disjoint_writes (issued s)" and "apart_inv s"
    and "raw_pc s i = Writing w off d k" and "k < length d"
  shows "apart_inv (s\<lparr>raw_mem := (raw_mem s)[off + k := d ! k], raw_pc := (raw_pc s)(i := Writing w off d (Suc k))\<rparr>)"
    (is "apart_inv ?t")
proof -
  note D = raw_invD [OF assms(1)]
  note keep = stored_write_byte [OF assms(1,2,4,5)]
  have p: "off + length d \<le> length m" "issued s ! w = (off, d)" "w \<notin> returned s"
    using D(3) [of i] assms(4) by auto
  have "bytes_stored ?t v (length (snd (issued ?t ! v)))" if "v \<in> returned ?t" for v
    using that D(6) p(3) assms(3) by (auto intro!: keep simp: apart_inv_def)
  moreover have "bytes_stored ?t v n" if "raw_pc ?t j = Writing v off' d' n" for j v off' d' n
  proof (cases "j = i")
    case True
    have "bytes_stored s w k" using assms(3,4) by (auto simp: apart_inv_def)
    then show ?thesis using that True p(1,2) D(1) assms(5) by (auto simp: bytes_stored_def less_Suc_eq nth_list_update)
  next
    case False
    then have j: "raw_pc s j = Writing v off' d' n" using that by simp
    then have "v \<noteq> w" using one_thread_eq [OF D(7), of i w j] assms(4) False by auto
    moreover have "v < length (issued s)" "n \<le> length (snd (issued s ! v))" using D(3) [of j] j by auto
    moreover have "bytes_stored s v n" using assms(3) j by (auto simp: apart_inv_def)
    ultimately show ?thesis by (auto intro: keep)
  qed
  ultimately show ?thesis unfolding apart_inv_def by blast
qed

lemma stored_frame:
  "raw_mem t = raw_mem s \<Longrightarrow> issued t = issued s @ ws \<Longrightarrow> w < length (issued s) \<Longrightarrow> bytes_stored t w k = bytes_stored s w k"
  by (simp add: bytes_stored_def nth_append)

lemma apart_inv_step:
  assumes "raw_inv m s" and "raw_step s t" and "disjoint_writes (issued s)" and "apart_inv s"
  shows "apart_inv t"
proof -
  note D = raw_invD [OF assms(1)]
  have wr: "w < length (issued s)" if "raw_pc s j = Writing w o' d' k'" for j w o' d' k'
    using D(3) [of j] that by simp
  have ret: "w < length (issued s)" if "w \<in> returned s" for w using D(6) that by auto
  show ?thesis
    using assms(2)
  proof (cases rule: raw_step.cases)
    case (write_byte i w off d k)
    then show ?thesis using apart_inv_write_byte [OF assms(1,3,4)] by simp
  next
    case (write_call i off d)
    have f: "bytes_stored t w k = bytes_stored s w k" if "w < length (issued s)" for w k
      by (rule stored_frame [OF _ _ that, of _ "[(off, d)]"]) (simp_all add: write_call(1))
    have "bytes_stored t w 0" for w by (simp add: bytes_stored_def)
    then show ?thesis
      using assms(4) ret wr f unfolding apart_inv_def
      by (auto simp: write_call(1) nth_append)
  next
    case (write_ret i w off d)
    have "bytes_stored s w (length d)" using assms(4) write_ret(2) by (auto simp: apart_inv_def)
    moreover have "issued s ! w = (off, d)" using D(3) [of i] write_ret(2) by simp
    ultimately show ?thesis using assms(4) by (auto simp: apart_inv_def bytes_stored_def write_ret(1))
  qed (use assms(4) in \<open>auto simp: apart_inv_def bytes_stored_def\<close>)
qed

lemma disjoint_prefix: "raw_step s t \<Longrightarrow> disjoint_writes (issued t) \<Longrightarrow> disjoint_writes (issued s)"
  by (auto elim!: raw_stepE simp: disjoint_writes_snoc)

interpretation apart_sys: invariant_system "raw_start m" raw_step
    "\<lambda>s. raw_inv m s \<and> (disjoint_writes (issued s) \<longrightarrow> apart_inv s)" for m
proof unfold_locales
  fix s assume "raw_start m s"
  then show "raw_inv m s \<and> (disjoint_writes (issued s) \<longrightarrow> apart_inv s)"
    using raw_inv_start by (auto simp: raw_start_def apart_inv_def)
next
  fix s t assume "raw_inv m s \<and> (disjoint_writes (issued s) \<longrightarrow> apart_inv s)" and "raw_step s t"
  then show "raw_inv m t \<and> (disjoint_writes (issued t) \<longrightarrow> apart_inv t)"
    using raw_inv_step apart_inv_step disjoint_prefix by blast
qed

text \<open>The writes one after the other, in the order of their calls.\<close>

definition in_turn :: "(nat \<times> byte list) list \<Rightarrow> byte list \<Rightarrow> byte list" where
  "in_turn ws m = fold (\<lambda>(off, d). put_at off d) ws m"

lemma in_turn_snoc: "in_turn (ws @ [(off, d)]) m = put_at off d (in_turn ws m)"
  by (simp add: in_turn_def)

lemma length_in_turn:
  "\<forall>(off, d) \<in> set ws. off + length d \<le> length m \<Longrightarrow> length (in_turn ws m) = length m"
  by (induction ws rule: rev_induct) (auto simp: in_turn_def length_put_at)

lemma in_turn_nth:
  assumes "\<forall>(off, d) \<in> set ws. off + length d \<le> length m" and "disjoint_writes ws" and "p < length m"
  shows "(\<exists>w < length ws. \<exists>off d. ws ! w = (off, d) \<and> off \<le> p \<and> p < off + length d \<and> in_turn ws m ! p = d ! (p - off)) \<or>
    (\<forall>(off, d) \<in> set ws. \<not> (off \<le> p \<and> p < off + length d)) \<and> in_turn ws m ! p = m ! p"
  using assms
proof (induction ws rule: rev_induct)
  case Nil
  then show ?case by (simp add: in_turn_def)
next
  case (snoc a ws)
  obtain off d where a: "a = (off, d)" by (cases a)
  have len: "length (in_turn ws m) = length m"
    using snoc.prems(1) by (intro length_in_turn) auto
  have p: "in_turn (ws @ [a]) m ! p = (if off \<le> p \<and> p < off + length d then d ! (p - off) else in_turn ws m ! p)"
    using snoc.prems(1,3) len by (auto simp: a in_turn_snoc nth_put_at)
  show ?case
  proof (cases "off \<le> p \<and> p < off + length d")
    case True
    then show ?thesis using p a by (intro disjI1 exI [of _ "length ws"]) auto
  next
    case False
    have "disjoint_writes ws" using snoc.prems(2) by (simp add: disjoint_writes_snoc)
    from snoc.IH [OF _ this snoc.prems(3)] snoc.prems(1) False p a show ?thesis
      by (auto simp: nth_append)
  qed
qed

section \<open>The steps of one thread\<close>

lemma nth_piece:
  assumes "off + k \<le> i" and "i < off + k + n" and "k + n \<le> length d"
  shows "take n (drop k d) ! (i - (off + k)) = d ! (i - off)"
proof -
  have "k + (i - (off + k)) = i - off" using assms(1) by linarith
  then show ?thesis using assms by (simp add: less_diff_conv2)
qed

lemma write_bytes:
  assumes "raw_pc s i = Writing w off d k" and "k + n \<le> length d" and "off + length d \<le> length (raw_mem s)"
  shows "raw_step\<^sup>*\<^sup>* s (s\<lparr>raw_mem := put_at (off + k) (take n (drop k d)) (raw_mem s),
    raw_pc := (raw_pc s)(i := Writing w off d (k + n))\<rparr>)"
  using assms(2)
proof (induction n)
  case 0
  have "(raw_pc s)(i := Writing w off d k) = raw_pc s" using assms(1) by auto
  then show ?case by (simp add: put_at_def)
next
  case (Suc n)
  let ?m = "put_at (off + k) (take n (drop k d)) (raw_mem s)"
  let ?t = "s\<lparr>raw_mem := ?m, raw_pc := (raw_pc s)(i := Writing w off d (k + n))\<rparr>"
  have "raw_step ?t (?t\<lparr>raw_mem := (raw_mem ?t)[off + (k + n) := d ! (k + n)],
      raw_pc := (raw_pc ?t)(i := Writing w off d (Suc (k + n)))\<rparr>)"
    using Suc.prems by (intro raw_step.write_byte) auto
  moreover have "?m[off + (k + n) := d ! (k + n)] = put_at (off + k) (take (Suc n) (drop k d)) (raw_mem s)"
    using Suc.prems assms(3)
    by (intro nth_equalityI) (auto simp: length_put_at nth_put_at nth_list_update nth_piece less_Suc_eq)
  ultimately have "raw_step ?t (s\<lparr>raw_mem := put_at (off + k) (take (Suc n) (drop k d)) (raw_mem s),
      raw_pc := (raw_pc s)(i := Writing w off d (k + Suc n))\<rparr>)" by simp
  moreover have "raw_step\<^sup>*\<^sup>* s ?t" by (rule Suc.IH) (use Suc.prems in simp)
  ultimately show ?case by (rule rtranclp.rtrancl_into_rtrancl [rotated])
qed

lemma read_bytes:
  assumes "raw_pc s i = Reading off n []" and "k \<le> n" and "off + n \<le> length (raw_mem s)"
  shows "raw_step\<^sup>*\<^sup>* s (s\<lparr>raw_pc := (raw_pc s)(i := Reading off n (get_at off k (raw_mem s)))\<rparr>)"
  using assms(2)
proof (induction k)
  case 0
  have "(raw_pc s)(i := Reading off n []) = raw_pc s" using assms(1) by auto
  then show ?case by (simp add: get_at_def)
next
  case (Suc k)
  let ?t = "s\<lparr>raw_pc := (raw_pc s)(i := Reading off n (get_at off k (raw_mem s)))\<rparr>"
  have len: "length (get_at off k (raw_mem s)) = k" using Suc.prems assms(3) by (simp add: length_get_at)
  have "raw_step ?t (?t\<lparr>raw_pc := (raw_pc ?t)(i := Reading off n
      (get_at off k (raw_mem s) @ [raw_mem ?t ! (off + length (get_at off k (raw_mem s)))]))\<rparr>)"
    using Suc.prems len by (intro raw_step.read_byte) auto
  moreover have "get_at off k (raw_mem s) @ [raw_mem s ! (off + k)] = get_at off (Suc k) (raw_mem s)"
    using Suc.prems assms(3) by (simp add: get_at_def take_Suc_conv_app_nth)
  ultimately have "raw_step ?t (s\<lparr>raw_pc := (raw_pc s)(i := Reading off n (get_at off (Suc k) (raw_mem s)))\<rparr>)"
    by (simp add: len)
  moreover have "raw_step\<^sup>*\<^sup>* s ?t" by (rule Suc.IH) (use Suc.prems in simp)
  ultimately show ?case by (rule rtranclp.rtrancl_into_rtrancl [rotated])
qed

text \<open>A whole write or read of a thread that nobody interrupts.\<close>

definition raw_image :: "byte list \<Rightarrow> raw" where
  "raw_image m = \<lparr>raw_mem = m, raw_pc = (\<lambda>_. Out), issued = [], returned = {}, answers = []\<rparr>"

lemma reaches_image: "reaches (raw_start m) raw_step (raw_image m)"
  by (rule reaches_start) (simp add: raw_start_def raw_image_def)

lemma write_alone:
  assumes "off + length d \<le> length m"
  shows "\<exists>t. reaches (raw_start m) raw_step t \<and> raw_mem t = put_at off d m"
proof -
  let ?s = "(raw_image m)\<lparr>raw_pc := (\<lambda>_. Out)(0 := Writing 0 off d 0), issued := [(off, d)]\<rparr>"
  have call: "raw_step (raw_image m) ?s"
    using raw_step.write_call [of "raw_image m" 0 off d] assms by (simp add: raw_image_def)
  have bytes: "raw_step\<^sup>*\<^sup>* ?s (?s\<lparr>raw_mem := put_at off d m, raw_pc := (raw_pc ?s)(0 := Writing 0 off d (length d))\<rparr>)"
    using write_bytes [of ?s 0 0 off d 0 "length d"] assms by (simp add: raw_image_def)
  show ?thesis
    by (intro exI conjI, rule reaches_steps [OF reaches_step [OF reaches_image call] bytes]) simp
qed

lemma read_alone:
  assumes "off + n \<le> length m" and "k \<le> n"
  shows "\<exists>t. reaches (raw_start m) raw_step t \<and> raw_mem t = m \<and> answers t = [(off, get_at off k m)]"
proof -
  define s where "s = (raw_image m)\<lparr>raw_pc := (\<lambda>_. Out)(0 := Reading off n [])\<rparr>"
  define t where "t = s\<lparr>raw_pc := (raw_pc s)(0 := Reading off n (get_at off k m))\<rparr>"
  have "raw_step (raw_image m) s"
    using raw_step.read_call [of "raw_image m" 0 off n] assms by (simp add: s_def raw_image_def)
  then have s: "reaches (raw_start m) raw_step s"
    by (rule reaches_step [OF reaches_image])
  have "raw_step\<^sup>*\<^sup>* s t"
    using read_bytes [of s 0 off n k] assms by (simp add: s_def t_def raw_image_def)
  then have t: "reaches (raw_start m) raw_step t"
    by (rule reaches_steps [OF s])
  have "raw_pc t 0 = Reading off n (get_at off k m)" by (simp add: t_def)
  from reaches_step [OF t raw_step.read_ret [OF this]]
  show ?thesis by (intro exI conjI) (auto simp: s_def t_def raw_image_def)
qed

text \<open>The functions of the drivers are such runs.\<close>

lemma copy_in_run:
  assumes "uaccess_ok U" and "copy_in U up p xs off len = Ret (left, xs')"
  shows "\<exists>t. reaches (raw_start xs) raw_step t \<and> raw_mem t = xs'"
proof -
  have "unat len = 0 \<or> off + unat len \<le> length xs" and x: "xs' = put_at off (snd (copy_from_user U up len)) xs"
    and l: "length (snd (copy_from_user U up len)) = unat len"
    using assms length_copy_from_user [OF assms(1)]
    by (auto simp: copy_in_def Let_def split: option.splits)
  then show ?thesis
  proof (elim disjE)
    assume "unat len = 0"
    then have "xs' = xs" using x l by (simp add: put_at_Nil)
    moreover have "raw_mem (raw_image xs) = xs" by (simp add: raw_image_def)
    ultimately show ?thesis using reaches_image by metis
  next
    assume "off + unat len \<le> length xs"
    then show ?thesis using write_alone [of off "snd (copy_from_user U up len)" xs] x l by simp
  qed
qed

lemma drivers_write_bytewise:
  assumes "uaccess_ok U"
  shows "ex4_write U up cnt s = Ret (r, s') \<Longrightarrow> \<exists>t. reaches (raw_start (bufmem s)) raw_step t \<and> raw_mem t = bufmem s'"
    and "char_dev_write U up cnt ppos c = Ret (r, ppos', c') \<Longrightarrow>
      \<exists>t. reaches (raw_start (dev_mem c)) raw_step t \<and> raw_mem t = dev_mem c'"
proof -
  assume "ex4_write U up cnt s = Ret (r, s')"
  then obtain left m where "copy_in U up (buffer s) (bufmem s) 0 (xfer_len cnt) = Ret (left, m)" "bufmem s' = m"
    by (auto simp: ex4_write_def xfer_write_def obind_Ret_iff Let_def)
  then show "\<exists>t. reaches (raw_start (bufmem s)) raw_step t \<and> raw_mem t = bufmem s'"
    using copy_in_run [OF assms] by blast
next
  have idle: "\<exists>t. reaches (raw_start m) raw_step t \<and> raw_mem t = m" for m
    using write_alone [of 0 "[]" m] by simp
  assume "char_dev_write U up cnt ppos c = Ret (r, ppos', c')"
  then have "c' = c \<or> (\<exists>left n. copy_in U up (char_device_buf c) (dev_mem c) (unat ppos) n = Ret (left, dev_mem c'))"
    by (auto simp: char_dev_write_def obind_Ret_iff Let_def split: if_splits)
  then show "\<exists>t. reaches (raw_start (dev_mem c)) raw_step t \<and> raw_mem t = dev_mem c'"
    using copy_in_run [OF assms] idle by blast
qed

lemma copy_out_run:
  assumes "uaccess_ok U" and "copy_out U up p xs off len = Ret (left, out)" and "len \<noteq> 0"
  shows "\<exists>t. reaches (raw_start xs) raw_step t \<and> raw_mem t = xs \<and> answers t = [(off, out)]"
proof -
  let ?bs = "get_at off (unat len) xs"
  have fit: "off + unat len \<le> length xs" and r: "copy_to_user U up ?bs = (left, out)"
    using assms(2,3) by (auto simp: copy_out_def unat_eq_0 split: option.splits)
  have "out = take (length ?bs - unat left) ?bs"
    using copy_to_user_data [OF assms(1), of up ?bs] r by simp
  then have "out = get_at off (unat len - unat left) xs"
    using fit by (simp add: length_get_at) (simp add: get_at_def)
  then show ?thesis using read_alone [OF fit, of "unat len - unat left"] by simp
qed

lemma drivers_read_bytewise:
  assumes "uaccess_ok U"
  shows "ex4_read U up cnt s = Ret (r, out, s') \<Longrightarrow> cnt \<noteq> 0 \<Longrightarrow>
      \<exists>t. reaches (raw_start (bufmem s)) raw_step t \<and> raw_mem t = bufmem s' \<and> answers t = [(0, out)]"
    and "char_dev_read U up cnt ppos c = Ret (r, out, ppos', c') \<Longrightarrow> bytes_to_do ppos cnt \<noteq> 0 \<Longrightarrow>
      \<exists>t. reaches (raw_start (dev_mem c)) raw_step t \<and> raw_mem t = dev_mem c' \<and> answers t = [(unat ppos, out)]"
proof -
  assume "ex4_read U up cnt s = Ret (r, out, s')" and "cnt \<noteq> 0"
  moreover have "unat cnt \<noteq> 0"
    using \<open>cnt \<noteq> 0\<close> by (simp add: unat_eq_0)
  then have "unat (xfer_len cnt) \<noteq> 0" by (simp add: xfer_len_unat)
  then have "xfer_len cnt \<noteq> 0" by (metis unat_0)
  ultimately show "\<exists>t. reaches (raw_start (bufmem s)) raw_step t \<and> raw_mem t = bufmem s' \<and> answers t = [(0, out)]"
    using copy_out_run [OF assms] by (auto simp: ex4_read_def xfer_read_def obind_Ret_iff Let_def)
next
  assume c: "char_dev_read U up cnt ppos c = Ret (r, out, ppos', c')" and n: "bytes_to_do ppos cnt \<noteq> 0"
  have "scast (bytes_to_do ppos cnt) \<noteq> (0 :: size_t)"
  proof -
    obtain i where "i < 32" "bit (bytes_to_do ppos cnt) i"
      using n by (auto simp: bit_eq_iff)
    then have "bit (scast (bytes_to_do ppos cnt) :: size_t) i"
      by (simp add: bit_simps min_absorb2 less_Suc_eq_le [symmetric])
    then show ?thesis by auto
  qed
  then show "\<exists>t. reaches (raw_start (dev_mem c)) raw_step t \<and> raw_mem t = dev_mem c' \<and> answers t = [(unat ppos, out)]"
    using copy_out_run [OF assms] c n by (auto simp: char_dev_read_def obind_Ret_iff Let_def)
qed

section \<open>Properties\<close>

text \<open>Two threads write: the second stores \<open>k\<close> bytes, then the first runs to its end, then the
  second goes on.\<close>

lemma two_writes:
  assumes "off + length d \<le> length m" and "off' + length d' \<le> length m" and "k \<le> length d'"
  shows "\<exists>t. reaches (raw_start m) raw_step t \<and> issued t = [(off, d), (off', d')] \<and> returned t = {0, 1} \<and>
    raw_mem t = put_at (off' + k) (drop k d') (put_at off d (put_at off' (take k d') m))"
proof -
  define s0 where "s0 = (raw_image m)\<lparr>raw_pc := (\<lambda>_. Out)(0 := Writing 0 off d 0), issued := [(off, d)]\<rparr>"
  define s1 where "s1 = s0\<lparr>raw_pc := (raw_pc s0)(1 := Writing 1 off' d' 0), issued := [(off, d), (off', d')]\<rparr>"
  define s2 where "s2 = s1\<lparr>raw_mem := put_at off' (take k d') m, raw_pc := (raw_pc s1)(1 := Writing 1 off' d' k)\<rparr>"
  define s3 where "s3 = s2\<lparr>raw_mem := put_at off d (raw_mem s2), raw_pc := (raw_pc s2)(0 := Writing 0 off d (length d))\<rparr>"
  define s4 where "s4 = s3\<lparr>raw_mem := put_at (off' + k) (drop k d') (raw_mem s3),
      raw_pc := (raw_pc s3)(1 := Writing 1 off' d' (length d'))\<rparr>"
  define s5 where "s5 = s4\<lparr>raw_pc := (raw_pc s4)(0 := Out), returned := insert 0 (returned s4)\<rparr>"
  define s6 where "s6 = s5\<lparr>raw_pc := (raw_pc s5)(1 := Out), returned := insert 1 (returned s5)\<rparr>"
  note defs = s0_def s1_def s2_def s3_def s4_def s5_def s6_def raw_image_def
  have l2: "length (raw_mem s2) = length m" and l3: "length (raw_mem s3) = length m"
    using assms by (simp_all add: defs length_put_at)
  have "raw_step (raw_image m) s0" "raw_step s0 s1"
    using raw_step.write_call [of "raw_image m" 0 off d] raw_step.write_call [of s0 1 off' d'] assms
    by (simp_all add: s1_def s0_def raw_image_def)
  then have r1: "reaches (raw_start m) raw_step s1"
    using reaches_image reaches_step by metis
  have "raw_step\<^sup>*\<^sup>* s1 s2" "raw_step\<^sup>*\<^sup>* s2 s3" "raw_step\<^sup>*\<^sup>* s3 s4"
    using write_bytes [of s1 1 1 off' d' 0 k] write_bytes [of s2 0 0 off d 0 "length d"]
      write_bytes [of s3 1 1 off' d' k "length d' - k"] assms l2 l3
    by (simp_all add: s4_def s3_def s2_def s1_def s0_def raw_image_def)
  then have r4: "reaches (raw_start m) raw_step s4"
    using r1 reaches_steps by metis
  have "raw_step s4 s5" "raw_step s5 s6"
    using raw_step.write_ret [of s4 0 0 off d] raw_step.write_ret [of s5 1 1 off' d']
    by (simp_all add: defs)
  then have "reaches (raw_start m) raw_step s6"
    using r4 reaches_step by metis
  moreover have "raw_mem s6 = put_at (off' + k) (drop k d') (put_at off d (put_at off' (take k d') m))"
    by (simp add: defs)
  ultimately show ?thesis by (intro exI [of _ s6]) (auto simp: defs)
qed

lemma mixed_writes:
  assumes "length d = length d'" and "off + length d \<le> length m" and "k \<le> length d"
  shows "\<exists>t. reaches (raw_start m) raw_step t \<and> issued t = [(off, d), (off, d')] \<and> returned t = {0, 1} \<and>
    raw_mem t = put_at off (take k d @ drop k d') m"
proof -
  have "put_at (off + k) (drop k d') (put_at off d (put_at off (take k d') m)) = put_at off (take k d @ drop k d') m"
    using assms by (intro nth_equalityI) (auto simp: length_put_at nth_put_at nth_append)
  then show ?thesis using two_writes [of off d m off d' k] assms by simp
qed

text \<open>C24: without a lock, in \<open>ex3\<close>, \<open>ex4\<close> and \<open>ex27\<close>, the most that holds of a byte, of the buffer
  or of what any read has returned, is that it was there at the start or that some write
  puts it at that place: no byte comes from anywhere else, but two writes of equal length
  at the same place can both return and leave any cut of the one followed by the rest of
  the other.\<close>

theorem unlocked_bytes_origin:
  "(\<forall>s. reaches (raw_start m) raw_step s \<longrightarrow> origins m (issued s) 0 (raw_mem s) \<and>
      (\<forall>(off, acc) \<in> set (answers s). origins m (issued s) off acc)) \<and>
   (\<forall>off d d' k. length d = length d' \<and> off + length d \<le> length m \<and> k \<le> length d \<longrightarrow>
      (\<exists>t. reaches (raw_start m) raw_step t \<and> issued t = [(off, d), (off, d')] \<and> returned t = {0, 1} \<and>
         raw_mem t = put_at off (take k d @ drop k d') m))"
  using raw_invD(2,4) [OF raw_sys.inv_reaches] mixed_writes by blast

theorem unlocked_bytes_origin_witness:
  "\<exists>t. reaches (raw_start [0, 0]) raw_step t \<and> returned t = {0, 1} \<and> raw_mem t = [1, 4 :: byte]"
proof -
  have "\<exists>t. reaches (raw_start [0, 0]) raw_step t \<and> issued t = [(0, [1, 2]), (0, [3, 4])] \<and> returned t = {0, 1} \<and>
      raw_mem t = put_at 0 (take 1 [1, 2] @ drop 1 [3, 4]) [0, 0 :: byte]"
    using conjunct2 [OF unlocked_bytes_origin, rule_format, of "[1, 2]" "[3, 4]" 0 "[0, 0]" 1] by simp
  then show ?thesis by (auto simp: put_at_def)
qed

text \<open>C8: writes that keep apart need no lock. When no two of the writes called so far overlap,
  as with \<open>ex27\<close> at different positions, every write that has returned is in the buffer
  whole, and once all have returned the buffer is what the writes leave one after the
  other.\<close>

theorem unlocked_disjoint_writes:
  assumes "reaches (raw_start m) raw_step s" and "disjoint_writes (issued s)"
  shows "(\<forall>w \<in> returned s. w < length (issued s) \<and>
            get_at (fst (issued s ! w)) (length (snd (issued s ! w))) (raw_mem s) = snd (issued s ! w)) \<and>
    (returned s = {..<length (issued s)} \<longrightarrow> raw_mem s = in_turn (issued s) m)"
proof -
  have inv: "raw_inv m s" and ai: "apart_inv s"
    using apart_sys.inv_reaches [OF assms(1)] assms(2) by auto
  note D = raw_invD [OF inv]
  have st: "bytes_stored s w (length (snd (issued s ! w)))" if "w \<in> returned s" for w
    using ai that by (auto simp: apart_inv_def)
  have range: "\<forall>(off, d) \<in> set (issued s). off + length d \<le> length m" using D(5) by auto
  have whole: "w < length (issued s) \<and>
      get_at (fst (issued s ! w)) (length (snd (issued s ! w))) (raw_mem s) = snd (issued s ! w)" if "w \<in> returned s" for w
  proof -
    have w: "w < length (issued s)" using D(6) that by auto
    then have "fst (issued s ! w) + length (snd (issued s ! w)) \<le> length (raw_mem s)"
      using D(1) D(5) [of "fst (issued s ! w)" "snd (issued s ! w)"] by simp
    then show ?thesis
      using st [OF that] w by (auto simp: bytes_stored_def length_get_at nth_get_at intro!: nth_equalityI)
  qed
  have "raw_mem s = in_turn (issued s) m" if all: "returned s = {..<length (issued s)}"
  proof (rule nth_equalityI)
    show "length (raw_mem s) = length (in_turn (issued s) m)" using D(1) length_in_turn [OF range] by simp
  next
    fix p assume "p < length (raw_mem s)"
    then have p: "p < length m" using D(1) by simp
    show "raw_mem s ! p = in_turn (issued s) m ! p"
      using in_turn_nth [OF range assms(2) p]
    proof (elim disjE exE conjE)
      fix w off d assume w: "w < length (issued s)" "issued s ! w = (off, d)" "off \<le> p" "p < off + length d"
        "in_turn (issued s) m ! p = d ! (p - off)"
      then have "\<forall>j < length d. raw_mem s ! (off + j) = d ! j"
        using st [of w] all by (simp add: bytes_stored_def)
      moreover have "p - off < length d" and "off + (p - off) = p" using w(3,4) by linarith+
      ultimately have "raw_mem s ! p = d ! (p - off)" by metis
      then show ?thesis using w(5) by simp
    next
      assume "\<forall>(off, d) \<in> set (issued s). \<not> (off \<le> p \<and> p < off + length d)" "in_turn (issued s) m ! p = m ! p"
      moreover have "origin m (issued s) p (raw_mem s ! p)" using D(1,2) p by (auto simp: origins_def)
      ultimately show ?thesis by (auto simp: origin_def)
    qed
  qed
  with whole show ?thesis by blast
qed

text \<open>Two threads write two bytes each, side by side.\<close>

theorem unlocked_disjoint_writes_witness:
  "\<exists>s. reaches (raw_start [0, 0, 0, 0]) raw_step s \<and> raw_mem s = in_turn [(0, [1, 2]), (2, [3, 4 :: byte])] [0, 0, 0, 0] \<and>
     get_at 2 2 (raw_mem s) = [3, 4]"
proof -
  obtain s where s: "reaches (raw_start [0, 0, 0, 0]) raw_step s" "issued s = [(0, [1, 2]), (2, [3, 4 :: byte])]" "returned s = {0, 1}"
    using two_writes [of 0 "[1, 2]" "[0, 0, 0, 0]" 2 "[3, 4]" 1] by auto
  have d: "disjoint_writes (issued s)"
    by (auto simp: s(2) disjoint_writes_def no_overlap_def less_Suc_eq)
  have all: "returned s = {..<length (issued s)}" by (auto simp: s(2,3))
  have "get_at (fst (issued s ! 1)) (length (snd (issued s ! 1))) (raw_mem s) = snd (issued s ! 1)"
    and "raw_mem s = in_turn (issued s) [0, 0, 0, 0]"
    using conjunct1 [OF unlocked_disjoint_writes [OF s(1) d], THEN bspec, of 1]
      conjunct2 [OF unlocked_disjoint_writes [OF s(1) d], THEN mp, OF all] s(3) by simp_all
  then have "get_at 2 2 (raw_mem s) = [3, 4]" "raw_mem s = in_turn [(0, [1, 2]), (2, [3, 4])] [0, 0, 0, 0]"
    by (simp_all add: s(2) numeral_2_eq_2)
  with s(1) show ?thesis by blast
qed

end
