(* ===== verification/Module_Session.thy ===== *)
theory Module_Session
  imports File_Operations
begin

text \<open>
  A sample character driver inside the kernel that loads it: sessions of loading, unloading,
  opening, closing and calls through the table of operations, in any order, with loads that
  may fail. A module is pinned while a file is open (\<open>.owner = THIS_MODULE\<close> in every table).
  The specification knows no driver: it has the bytes of the device, who waits for what, and
  the number of open files. Ten drivers refine it, with one of three ways to wait.
\<close>

section \<open>Modules in the kernel\<close>

record 's chr_module =
  mod_init :: "kernel \<Rightarrow> 's \<Rightarrow> klog \<Rightarrow> c_int \<times> 's \<times> klog"
  mod_exit :: "'s \<Rightarrow> klog \<Rightarrow> 's \<times> klog"
  mod_image :: 's
  mod_fops :: "'s fops"

definition ex3_module :: "chr chr_module" where
  "ex3_module = \<lparr>mod_init = ex3_module_init, mod_exit = ex3_module_exit, mod_image = chr_image, mod_fops = ex3_fops\<rparr>"

definition ex4_module :: "chr chr_module" where
  "ex4_module = \<lparr>mod_init = ex4_module_init, mod_exit = ex4_module_exit, mod_image = chr_image, mod_fops = ex4_fops\<rparr>"

definition ex7_module :: "'l lockops \<Rightarrow> 'l \<Rightarrow> 'l chr_sem chr_module" where
  "ex7_module L x = \<lparr>mod_init = ex7_module_init L, mod_exit = ex7_module_exit, mod_image = sem_image x,
     mod_fops = ex7_fops L\<rparr>"

text \<open>The spinlock of \<open>ex8.c\<close> is initialised in the image.\<close>

definition ex8_module :: "'l lockops \<Rightarrow> 'l chr_sem chr_module" where
  "ex8_module L = \<lparr>mod_init = ex8_module_init, mod_exit = ex8_module_exit, mod_image = sem_image (lk_init L),
     mod_fops = ex8_fops L\<rparr>"

definition ex9_module :: "'c complops \<Rightarrow> 'c \<Rightarrow> 'c chr_compl chr_module" where
  "ex9_module C x = \<lparr>mod_init = ex9_module_init C, mod_exit = ex9_module_exit,
     mod_image = chr.extend chr_image \<lparr>setup_done = x\<rparr>, mod_fops = ex9_fops C\<rparr>"

definition ex10_module :: "'l lockops \<Rightarrow> 'q seqops \<Rightarrow> 'l \<Rightarrow> 'q \<Rightarrow> ('l, 'q) chr_seq chr_module" where
  "ex10_module L Q x q = \<lparr>mod_init = ex10_module_init L Q, mod_exit = ex10_module_exit,
     mod_image = chr_sem.extend (sem_image x) \<lparr>the_lock = q\<rparr>, mod_fops = ex10_fops L Q\<rparr>"

definition ex11_module :: "'l lockops \<Rightarrow> ioctl_abi \<Rightarrow> 'l \<Rightarrow> 'l chr_sem chr_module" where
  "ex11_module L A x = \<lparr>mod_init = ex11_module_init L, mod_exit = ex11_module_exit, mod_image = sem_image x,
     mod_fops = ex11_fops L A\<rparr>"

definition ex12_module :: "'l lockops \<Rightarrow> 'l \<Rightarrow> 'l chr_wait chr_module" where
  "ex12_module L x = \<lparr>mod_init = ex12_module_init L, mod_exit = ex12_module_exit, mod_image = wait_image x,
     mod_fops = ex12_fops L\<rparr>"

definition ex13_module :: "'l lockops \<Rightarrow> poll_abi \<Rightarrow> 'l \<Rightarrow> 'l chr_wait chr_module" where
  "ex13_module L A x = \<lparr>mod_init = ex13_module_init L, mod_exit = ex13_module_exit, mod_image = wait_image x,
     mod_fops = ex13_fops L A\<rparr>"

definition ex14_module :: "'l lockops \<Rightarrow> loff_t \<Rightarrow> 'l \<Rightarrow> 'l chr_wait chr_module" where
  "ex14_module L uninit x = \<lparr>mod_init = ex14_module_init L, mod_exit = ex14_module_exit, mod_image = wait_image x,
     mod_fops = ex14_fops L uninit\<rparr>"

section \<open>Sessions\<close>

datatype host_event =
    Insmod kernel
  | Rmmod
  | Open_file
  | Close_file
  | Read_file uaccess ptr size_t
  | Write_file uaccess ptr size_t
  | Ioctl_file uaccess c_uint c_ulong
  | Poll_file

datatype host_result =
    Loaded c_int
  | Unloaded
  | Busy
  | No_device
  | Opened c_int
  | Closed c_int
  | Bytes ssize_t "byte list"
  | Wrote ssize_t
  | Command ssize_t
  | Mask c_uint
  | Waits
  | Oops fault

record 's host =
  resident :: "'s option"
  opened :: nat
  host_log :: klog

definition host_start :: "'s host" where
  "host_start = \<lparr>resident = None, opened = 0, host_log = []\<rparr>"

text \<open>A call on an open file. One that would wait is given up without effect.\<close>

fun call_step :: "vfs \<Rightarrow> 's fops \<Rightarrow> host_event \<Rightarrow> 's \<Rightarrow> host_result \<times> 's" where
  "call_step V F (Read_file U p n) g =
     (case fresh_read V F U p n g of
        Ret (r, out, g') \<Rightarrow> (Bytes r out, g') | Block \<Rightarrow> (Waits, g) | Fault f \<Rightarrow> (Oops f, g))"
| "call_step V F (Write_file U p n) g =
     (case fresh_write V F U p n g of
        Ret (r, g') \<Rightarrow> (Wrote r, g') | Block \<Rightarrow> (Waits, g) | Fault f \<Rightarrow> (Oops f, g))"
| "call_step V F (Ioctl_file U cmd arg) g =
     (case sys_ioctl V F U cmd arg g of
        Ret (r, g') \<Rightarrow> (Command r, g') | Block \<Rightarrow> (Waits, g) | Fault f \<Rightarrow> (Oops f, g))"
| "call_step V F Poll_file g = (Mask (poll_mask V F g), g)"
| "call_step V F _ g = (No_device, g)"

text \<open>An empty \<open>open\<close> or \<open>release\<close> slot succeeds.\<close>

definition slot_call :: "('s \<Rightarrow> c_int \<times> 's) option \<Rightarrow> 's \<Rightarrow> c_int \<times> 's" where
  "slot_call slot g = (case slot of None \<Rightarrow> (0, g) | Some f \<Rightarrow> f g)"

fun host_step :: "vfs \<Rightarrow> 's chr_module \<Rightarrow> host_event \<Rightarrow> 's host \<Rightarrow> host_result \<times> 's host" where
  "host_step V D (Insmod K) H =
     (case resident H of
        Some g \<Rightarrow> (Busy, H)
      | None \<Rightarrow>
          (let (ret, g, l) = mod_init D K (mod_image D) (host_log H)
           in (Loaded ret, \<lparr>resident = (if ret = 0 then Some g else None), opened = 0, host_log = l\<rparr>)))"
| "host_step V D Rmmod H =
     (case resident H of
        None \<Rightarrow> (No_device, H)
      | Some g \<Rightarrow>
          (if opened H \<noteq> 0 then (Busy, H)
           else let (g, l) = mod_exit D g (host_log H) in (Unloaded, H\<lparr>resident := None, host_log := l\<rparr>)))"
| "host_step V D Open_file H =
     (case resident H of
        None \<Rightarrow> (No_device, H)
      | Some g \<Rightarrow>
          (let (ret, g) = slot_call (fo_open (mod_fops D)) g
           in (Opened ret, H\<lparr>resident := Some g, opened := (if ret = 0 then Suc (opened H) else opened H)\<rparr>)))"
| "host_step V D Close_file H =
     (case resident H of
        None \<Rightarrow> (No_device, H)
      | Some g \<Rightarrow>
          (if opened H = 0 then (No_device, H)
           else let (ret, g) = slot_call (fo_release (mod_fops D)) g
                in (Closed ret, H\<lparr>resident := Some g, opened := opened H - 1\<rparr>)))"
| "host_step V D e H =
     (case resident H of
        None \<Rightarrow> (No_device, H)
      | Some g \<Rightarrow>
          (if opened H = 0 then (No_device, H)
           else let (r, g) = call_step V (mod_fops D) e g in (r, H\<lparr>resident := Some g\<rparr>)))"

text \<open>The results of a session, which a fault ends, and the state it leaves.\<close>

fun host_run :: "vfs \<Rightarrow> 's chr_module \<Rightarrow> host_event list \<Rightarrow> 's host \<Rightarrow> host_result list \<times> 's host" where
  "host_run V D [] H = ([], H)"
| "host_run V D (e # es) H =
     (case host_step V D e H of
        (Oops f, H') \<Rightarrow> ([Oops f], H')
      | (r, H') \<Rightarrow> (let (rs, H'') = host_run V D es H' in (r # rs, H'')))"


section \<open>The specification\<close>

text \<open>
  How callers wait for each other, what a poll reports, and the commands: the result of a
  command and the byte it fills the device with.
\<close>

record 'w contract =
  calm :: 'w
  may_read :: "'w \<Rightarrow> 'w option"
  after_write :: "'w \<Rightarrow> 'w"
  events :: "'w \<Rightarrow> c_uint"
  command :: "uaccess \<Rightarrow> c_uint \<Rightarrow> c_ulong \<Rightarrow> ssize_t \<times> byte option"

record 'w host_spec =
  cells :: "byte list option"
  waiting :: 'w
  users :: nat

definition moved :: "size_t \<Rightarrow> nat" where
  "moved n = min 4000 (unat n)"

fun spec_call :: "'w contract \<Rightarrow> host_event \<Rightarrow> byte list \<Rightarrow> 'w \<Rightarrow> host_result \<times> byte list \<times> 'w" where
  "spec_call W (Read_file U p n) d w =
     (case may_read W w of
        None \<Rightarrow> (Waits, d, w)
      | Some w' \<Rightarrow>
          (if length d < moved n then (Oops OutOfBounds, d, w)
           else let (left, out) = copy_to_user U p (take (moved n) d)
                in (Bytes (of_nat (moved n) - left) out, d, w')))"
| "spec_call W (Write_file U p n) d w =
     (if length d < moved n then (Oops OutOfBounds, d, w)
      else let (left, bytes) = copy_from_user U p (of_nat (moved n))
           in (Wrote (of_nat (moved n) - left), put_at 0 bytes d, after_write W w))"
| "spec_call W (Ioctl_file U cmd arg) d w =
     (case command W U cmd arg of
        (r, None) \<Rightarrow> (Command r, d, w)
      | (r, Some c) \<Rightarrow>
          (if length d < 4000 then (Oops OutOfBounds, d, w) else (Command r, put_at 0 (replicate 4000 c) d, w)))"
| "spec_call W Poll_file d w = (Mask (events W w), d, w)"
| "spec_call W _ d w = (No_device, d, w)"

definition file_call :: "host_event \<Rightarrow> bool" where
  "file_call e \<longleftrightarrow> e \<notin> range Insmod \<union> {Rmmod, Open_file, Close_file}"

text \<open>One event; \<open>G\<close> is the size of the device. What a load finds in the memory it gets is open.\<close>

inductive spec_step ::
    "'w contract \<Rightarrow> nat \<Rightarrow> host_event \<Rightarrow> 'w host_spec \<Rightarrow> host_result \<Rightarrow> 'w host_spec \<Rightarrow> bool"
  for W :: "'w contract" and G :: nat where
  load: "cells S = None \<Longrightarrow> length d = G \<Longrightarrow>
    spec_step W G (Insmod K) S (Loaded 0) \<lparr>cells = Some d, waiting = calm W, users = 0\<rparr>"
| load_fails: "cells S = None \<Longrightarrow> spec_step W G (Insmod K) S (Loaded (- 1)) (S\<lparr>users := 0\<rparr>)"
| load_again: "cells S = Some d \<Longrightarrow> spec_step W G (Insmod K) S Busy S"
| unload: "cells S = Some d \<Longrightarrow> users S = 0 \<Longrightarrow> spec_step W G Rmmod S Unloaded (S\<lparr>cells := None\<rparr>)"
| unload_used: "cells S = Some d \<Longrightarrow> users S \<noteq> 0 \<Longrightarrow> spec_step W G Rmmod S Busy S"
| opens: "cells S = Some d \<Longrightarrow> spec_step W G Open_file S (Opened 0) (S\<lparr>users := Suc (users S)\<rparr>)"
| closes: "cells S = Some d \<Longrightarrow> users S \<noteq> 0 \<Longrightarrow>
    spec_step W G Close_file S (Closed 0) (S\<lparr>users := users S - 1\<rparr>)"
| calls: "file_call e \<Longrightarrow> cells S = Some d \<Longrightarrow> users S \<noteq> 0 \<Longrightarrow> spec_call W e d (waiting S) = (r, d', w') \<Longrightarrow>
    spec_step W G e S r (S\<lparr>cells := Some d', waiting := w'\<rparr>)"
| absent: "cells S = None \<Longrightarrow> e \<notin> range Insmod \<Longrightarrow> spec_step W G e S No_device S"
| not_open: "file_call e \<or> e = Close_file \<Longrightarrow> users S = 0 \<Longrightarrow> cells S = Some d \<Longrightarrow>
    spec_step W G e S No_device S"

inductive spec_run :: "'w contract \<Rightarrow> nat \<Rightarrow> host_event list \<Rightarrow> 'w host_spec \<Rightarrow> host_result list \<Rightarrow> bool"
  for W :: "'w contract" and G :: nat where
  over: "spec_run W G [] S []"
| crash: "spec_step W G e S (Oops f) S' \<Longrightarrow> spec_run W G (e # es) S [Oops f]"
| next_event: "spec_step W G e S r S' \<Longrightarrow> (\<And>f. r \<noteq> Oops f) \<Longrightarrow> spec_run W G es S' rs \<Longrightarrow>
    spec_run W G (e # es) S (r # rs)"

definition spec_host_start :: "'w contract \<Rightarrow> 'w host_spec" where
  "spec_host_start W = \<lparr>cells = None, waiting = calm W, users = 0\<rparr>"

text \<open>Kernels and users as documented; \<open>GFP_KERNEL\<close> is the same in all loads.\<close>

fun host_event_ok :: "nat \<Rightarrow> host_event \<Rightarrow> bool" where
  "host_event_ok G (Insmod K) \<longleftrightarrow> kernel_ok K \<and> unat (GFP_KERNEL K) = G"
| "host_event_ok G (Write_file U p n) \<longleftrightarrow> uaccess_ok U"
| "host_event_ok G (Ioctl_file U cmd arg) \<longleftrightarrow> uaccess_ok U"
| "host_event_ok G _ \<longleftrightarrow> True"

section \<open>Drivers that meet a contract\<close>

text \<open>What the kernel's ledger should say: a loaded module holds what it owns, and nothing else is held.\<close>

definition host_holds :: "('s \<Rightarrow> resource multiset) \<Rightarrow> 's host \<Rightarrow> resource multiset" where
  "host_holds owns H = (case resident H of None \<Rightarrow> {#} | Some g \<Rightarrow> owns g)"

locale hosted_driver =
  loadable_module "mod_init D" "mod_exit D" owns
  for D :: "'s chr_module" and owns :: "'s \<Rightarrow> resource multiset" +
  fixes V :: vfs and G :: nat and W :: "'w contract" and rel :: "'s \<Rightarrow> byte list \<Rightarrow> 'w \<Rightarrow> bool"
  assumes opens_ok: "slot_call (fo_open (mod_fops D)) g = (0, g)"
    and closes_ok: "slot_call (fo_release (mod_fops D)) g = (0, g)"
    and load_returns: "mod_init D K (mod_image D) l = (ret, g, l') \<Longrightarrow> ret = 0 \<or> ret = - 1"
    and load_rel: "kernel_ok K \<Longrightarrow> unat (GFP_KERNEL K) = G \<Longrightarrow> ledger l = Some R \<Longrightarrow>
      mod_init D K (mod_image D) l = (0, g, l') \<Longrightarrow> \<exists>d. length d = G \<and> rel g d (calm W)"
    and call_rel: "file_call e \<Longrightarrow> host_event_ok G e \<Longrightarrow> rel g d w \<Longrightarrow>
      \<exists>d' w'. spec_call W e d w = (fst (call_step V (mod_fops D) e g), d', w') \<and>
        rel (snd (call_step V (mod_fops D) e g)) d' w' \<and> owns (snd (call_step V (mod_fops D) e g)) = owns g"
begin

definition matches :: "'w host_spec \<Rightarrow> 's host \<Rightarrow> bool" where
  "matches S H \<longleftrightarrow> users S = opened H \<and> ledger (host_log H) = Some (host_holds owns H) \<and>
     (case resident H of None \<Rightarrow> cells S = None
      | Some g \<Rightarrow> (\<exists>d. cells S = Some d \<and> rel g d (waiting S)))"

lemma matches_start: "matches (spec_host_start W) host_start"
  by (simp add: matches_def spec_host_start_def host_start_def host_holds_def)

lemma matches_loaded:
  "resident H = Some g \<Longrightarrow> matches S H \<Longrightarrow>
     \<exists>d. cells S = Some d \<and> rel g d (waiting S) \<and> users S = opened H \<and> ledger (host_log H) = Some (owns g)"
  by (auto simp: matches_def host_holds_def)

lemma matches_unloaded:
  "resident H = None \<Longrightarrow> matches S H \<Longrightarrow> cells S = None \<and> users S = opened H \<and> ledger (host_log H) = Some {#}"
  by (auto simp: matches_def host_holds_def)

lemma load_matches:
  assumes "matches S H" and "host_event_ok G (Insmod K)" and "resident H = None"
    and "host_step V D (Insmod K) H = (r, H')"
  shows "\<exists>S'. spec_step W G (Insmod K) S r S' \<and> matches S' H'"
proof -
  obtain ret g l where i: "mod_init D K (mod_image D) (host_log H) = (ret, g, l)" by (metis prod_cases3)
  note m = matches_unloaded [OF assms(3,1)]
  have H': "r = Loaded ret" "H' = \<lparr>resident = (if ret = 0 then Some g else None), opened = 0, host_log = l\<rparr>"
    using assms(3,4) i by auto
  show ?thesis
  proof (cases "ret = 0")
    case True
    then have i0: "mod_init D K (mod_image D) (host_log H) = (0, g, l)" using i by simp
    obtain d where d: "length d = G" "rel g d (calm W)"
      using load_rel [OF _ _ _ i0] assms(2) m by auto
    have "ledger l = Some (owns g)" using init_success [OF i0] m by fastforce
    with d have "matches \<lparr>cells = Some d, waiting = calm W, users = 0\<rparr> H'"
      by (simp add: matches_def H' True host_holds_def)
    moreover have "spec_step W G (Insmod K) S r \<lparr>cells = Some d, waiting = calm W, users = 0\<rparr>"
      using spec_step.load [of S d G W K] m d(1) H'(1) True by simp
    ultimately show ?thesis by blast
  next
    case False
    then have "ret = - 1" and "ledger l = Some {#}"
      using load_returns [OF i] init_failure [OF i] m by auto
    then have "matches (S\<lparr>users := 0\<rparr>) H'" using m False by (simp add: matches_def H'(2) host_holds_def)
    moreover have "spec_step W G (Insmod K) S r (S\<lparr>users := 0\<rparr>)"
      using spec_step.load_fails [of S W G K] m H'(1) \<open>ret = - 1\<close> by simp
    ultimately show ?thesis by blast
  qed
qed

lemma call_matches:
  assumes "matches S H" and "host_event_ok G e" and "file_call e" and "host_step V D e H = (r, H')"
  shows "\<exists>S'. spec_step W G e S r S' \<and> matches S' H'"
proof (cases "resident H")
  case None
  then have "r = No_device \<and> H' = H" using assms(3,4) by (cases e) (auto simp: file_call_def)
  moreover have "e \<notin> range Insmod" using assms(3) by (simp add: file_call_def)
  ultimately show ?thesis using spec_step.absent matches_unloaded [OF None assms(1)] assms(1) by blast
next
  case (Some g)
  from matches_loaded [OF Some assms(1)] obtain d where d: "cells S = Some d" "rel g d (waiting S)"
    and u: "users S = opened H" and l: "ledger (host_log H) = Some (owns g)" by blast
  show ?thesis
  proof (cases "opened H = 0")
    case True
    then have "r = No_device \<and> H' = H" using Some assms(3,4) by (cases e) (auto simp: file_call_def)
    with True show ?thesis using spec_step.not_open [of e S d W G] assms(1,3) d(1) u by auto
  next
    case False
    obtain g' where c: "call_step V (mod_fops D) e g = (r, g')" and H': "H' = H\<lparr>resident := Some g'\<rparr>"
      using Some False assms(3,4) by (cases e) (auto simp: file_call_def split: prod.splits)
    from call_rel [OF assms(3,2) d(2)] obtain d' w' where
      s: "spec_call W e d (waiting S) = (r, d', w')" "rel g' d' w'" "owns g' = owns g" unfolding c by auto
    have "matches (S\<lparr>cells := Some d', waiting := w'\<rparr>) H'"
      using s(2,3) u l by (simp add: matches_def H' host_holds_def)
    moreover have "spec_step W G e S r (S\<lparr>cells := Some d', waiting := w'\<rparr>)"
      using spec_step.calls [OF assms(3) d(1) _ s(1)] u False by simp
    ultimately show ?thesis by blast
  qed
qed

lemma step_matches:
  assumes m: "matches S H" and ok: "host_event_ok G e" and st: "host_step V D e H = (r, H')"
  shows "\<exists>S'. spec_step W G e S r S' \<and> matches S' H'"
proof (cases "file_call e")
  case True
  then show ?thesis using call_matches [OF m ok _ st] by blast
next
  case special: False
  show ?thesis
  proof (cases "resident H")
    case None
    note n = matches_unloaded [OF None m]
    show ?thesis
    proof (cases e)
      case (Insmod K)
      then show ?thesis using load_matches [OF m _ None] ok st by blast
    qed (use st None n m spec_step.absent [of S e W G] special in \<open>auto simp: file_call_def\<close>)
  next
    case (Some g)
    from matches_loaded [OF Some m] obtain d where d: "cells S = Some d" "rel g d (waiting S)"
      and u: "users S = opened H" and l: "ledger (host_log H) = Some (owns g)" by blast
    show ?thesis
    proof (cases e)
      case (Insmod K)
      then show ?thesis using st Some spec_step.load_again [OF d(1)] m by auto
    next
      case Rmmod
      show ?thesis
      proof (cases "opened H = 0")
        case True
        obtain g' l' where x: "mod_exit D g (host_log H) = (g', l')" by fastforce
        have "ledger l' = Some {#}" using exit_releases [of "host_log H" "{#}" g] l x by simp
        moreover have "r = Unloaded" "H' = H\<lparr>resident := None, host_log := l'\<rparr>" using st Rmmod Some True x by auto
        ultimately show ?thesis
          using spec_step.unload [OF d(1)] u True Rmmod by (fastforce simp: matches_def host_holds_def)
      next
        case False
        then show ?thesis using st Some Rmmod spec_step.unload_used [OF d(1)] u m by auto
      qed
    next
      case Open_file
      then have "r = Opened 0" "H' = H\<lparr>resident := Some g, opened := Suc (opened H)\<rparr>"
        using st Some opens_ok by auto
      then show ?thesis
        using spec_step.opens [OF d(1), of W G] u l d Open_file by (fastforce simp: matches_def host_holds_def)
    next
      case Close_file
      show ?thesis
      proof (cases "opened H = 0")
        case True
        then show ?thesis using st Some Close_file spec_step.not_open [OF _ _ d(1), of e W G] u m by auto
      next
        case False
        then have "r = Closed 0" "H' = H\<lparr>resident := Some g, opened := opened H - 1\<rparr>"
          using st Some Close_file closes_ok by auto
        then show ?thesis
          using spec_step.closes [OF d(1), of W G] u l d Close_file False by (fastforce simp: matches_def host_holds_def)
      qed
    qed (use special in \<open>auto simp: file_call_def\<close>)
  qed
qed

lemma run_matches:
  assumes "matches S H" and "\<forall>e\<in>set es. host_event_ok G e" and "host_run V D es H = (rs, H')"
  shows "spec_run W G es S rs \<and> ((\<forall>f. Oops f \<notin> set rs) \<longrightarrow> ledger (host_log H') = Some (host_holds owns H'))"
  using assms
proof (induction es arbitrary: S H rs)
  case Nil
  then show ?case by (auto simp: matches_def intro: spec_run.over)
next
  case (Cons e es)
  obtain r H1 where st: "host_step V D e H = (r, H1)" by fastforce
  obtain S1 where s: "spec_step W G e S r S1" "matches S1 H1"
    using step_matches [OF Cons.prems(1) _ st] Cons.prems(2) by auto
  show ?case
  proof (cases "\<exists>f. r = Oops f")
    case True
    then show ?thesis using Cons.prems(3) st s(1) by (auto intro: spec_run.crash)
  next
    case False
    obtain rs1 where "host_run V D es H1 = (rs1, H')" and rs: "rs = r # rs1"
      using Cons.prems(3) st False by (auto split: host_result.splits prod.splits)
    from Cons.IH [OF s(2) _ this(1)] Cons.prems(2) show ?thesis
      using spec_run.next_event [OF s(1), of es rs1] False by (auto simp: rs)
  qed
qed

end


section \<open>The contracts\<close>

text \<open>Nobody waits; a read waits for a write each, counted; a read waits for a write since the last read.\<close>

definition plain_contract :: "vfs \<Rightarrow> unit contract" where
  "plain_contract V = \<lparr>calm = (), may_read = Some, after_write = id, events = (\<lambda>_. default_poll V),
     command = (\<lambda>U cmd arg. (no_ioctl V, None))\<rparr>"

definition counting_contract :: "vfs \<Rightarrow> nat contract" where
  "counting_contract V = \<lparr>calm = 0, may_read = (\<lambda>n. if n = 0 then None else Some (n - 1)), after_write = Suc,
     events = (\<lambda>_. default_poll V), command = (\<lambda>U cmd arg. (no_ioctl V, None))\<rparr>"

definition mailbox_contract :: "vfs \<Rightarrow> (bool \<Rightarrow> c_uint) \<Rightarrow> bool contract" where
  "mailbox_contract V ev = \<lparr>calm = False, may_read = (\<lambda>full. if full then Some False else None),
     after_write = (\<lambda>_. True), events = ev, command = (\<lambda>U cmd arg. (no_ioctl V, None))\<rparr>"

text \<open>The commands of \<open>ex11.c\<close>.\<close>

definition fill_command :: "ioctl_abi \<Rightarrow> uaccess \<Rightarrow> c_uint \<Rightarrow> c_ulong \<Rightarrow> ssize_t \<times> byte option" where
  "fill_command A U cmd arg =
     (if bad_command A cmd then (- ENOTTY, None)
      else if bad_address A U cmd arg then (- EFAULT, None)
      else if IOC_NR A cmd \<noteq> 1 \<and> IOC_NR A cmd \<noteq> 2 then (- ENOTTY, None)
      else (0, Some (fill_value A U cmd arg)))"

definition ioctl_contract :: "vfs \<Rightarrow> ioctl_abi \<Rightarrow> unit contract" where
  "ioctl_contract V A = (plain_contract V)\<lparr>command := fill_command A\<rparr>"

lemmas contract_defs = plain_contract_def counting_contract_def mailbox_contract_def ioctl_contract_def

section \<open>The drivers\<close>

text \<open>The buffer is an object with these bytes, the lock is free, and this is who waits.\<close>

definition live :: "('a chr_scheme \<Rightarrow> bool) \<Rightarrow> ('a chr_scheme \<Rightarrow> 'w) \<Rightarrow> 'a chr_scheme \<Rightarrow> byte list \<Rightarrow> 'w \<Rightarrow> bool" where
  "live free wait g d w \<longleftrightarrow> buffer g \<noteq> 0 \<and> bufmem g = d \<and> free g \<and> wait g = w"

lemma moved_len: "of_nat (moved n) = xfer_len n" "unat (xfer_len n) = moved n" "moved n \<le> 4000"
proof -
  show u: "unat (xfer_len n) = moved n" by (simp add: moved_def xfer_len_unat)
  show "of_nat (moved n) = xfer_len n" unfolding u [symmetric] by simp
qed (simp add: moved_def)

lemma xfer_live:
  assumes "p \<noteq> 0"
  shows "xfer_read U up n p mem = (if length mem < moved n then Fault OutOfBounds
      else Ret (of_nat (moved n) - fst (copy_to_user U up (take (moved n) mem)),
             snd (copy_to_user U up (take (moved n) mem))))"
    and "xfer_write U up n p mem = (if length mem < moved n then Fault OutOfBounds
      else Ret (of_nat (moved n) - fst (copy_from_user U up (of_nat (moved n))),
             put_at 0 (snd (copy_from_user U up (of_nat (moved n)))) mem))"
  using assms
  by (auto simp: xfer_read_def xfer_write_def copy_out_def copy_in_def obj_check_def moved_len Let_def get_at_def
      split: prod.splits)

lemma chr_owns_cong:
  "char_dev s = char_dev t \<Longrightarrow> char_cdev s = char_cdev t \<Longrightarrow> buffer s = buffer t \<Longrightarrow> chr_owns s = chr_owns t"
  by (simp add: chr_owns_def)

text \<open>Init sets up a buffer, and otherwise only the fields of the shared part before \<open>setup\<close>.\<close>

lemma init_returns:
  assumes "plain_setup setup"
  shows "dynamic_init setup K s l = (ret, s', l') \<Longrightarrow> ret = 0 \<or> ret = - 1"
    and "static_init setup K s l = (ret, s', l') \<Longrightarrow> ret = 0 \<or> ret = - 1"
  by (auto simp: dynamic_init_def static_init_def chr_init_rest_def fail0_def fail1_def fail2_def Let_def
      split: if_splits prod.splits dest!: plain_setupD [OF plain_numbers [OF assms]] plain_setupD [OF assms])

lemma init_setup:
  assumes "dynamic_init setup K s l = (0, s', l')"
  shows "\<exists>s0 l0. setup s0 l0 = (0, s', l') \<and> chr.more s0 = chr.more s"
  using assms
  by (auto simp: dynamic_init_def chr_init_rest_def fail0_def fail1_def fail2_def Let_def split: if_splits prod.splits)

text \<open>
  What is left to show of a driver whose globals extend those of \<open>ex4.c\<close>: its calls are the
  transfers of \<open>ex4.c\<close> between what its lock and its flag do.
\<close>

locale chr_hosted =
  loadable_module "mod_init D" "mod_exit D" chr_owns
  for D :: "'a chr_scheme chr_module" +
  fixes V :: vfs and W :: "'w contract" and free :: "'a chr_scheme \<Rightarrow> bool" and wait :: "'a chr_scheme \<Rightarrow> 'w"
  assumes slots: "slot_call (fo_open (mod_fops D)) = Pair 0" "slot_call (fo_release (mod_fops D)) = Pair 0"
    and returns: "mod_init D K (mod_image D) l = (ret, g, l') \<Longrightarrow> ret = 0 \<or> ret = - 1"
    and loads: "ledger l = Some R \<Longrightarrow> mod_init D K (mod_image D) l = (0, g, l') \<Longrightarrow>
      buffer_from_kmalloc K g \<and> free g \<and> wait g = calm W"
    and reads_wait: "free g \<Longrightarrow> may_read W (wait g) = None \<Longrightarrow> fresh_read V (mod_fops D) U p n g = Block"
    and reads: "free g \<Longrightarrow> may_read W (wait g) = Some w \<Longrightarrow>
      \<exists>g'. fresh_read V (mod_fops D) U p n g =
             obind (xfer_read U p n (buffer g) (bufmem g)) (\<lambda>(ret, out). Ret (ret, out, g')) \<and>
           chr.truncate g' = chr.truncate g \<and> free g' \<and> wait g' = w"
    and writes: "free g \<Longrightarrow>
      \<exists>g'. fresh_write V (mod_fops D) U p n g =
             obind (xfer_write U p n (buffer g) (bufmem g)) (\<lambda>(ret, m). Ret (ret, g'\<lparr>bufmem := m\<rparr>)) \<and>
           chr.truncate g' = chr.truncate g \<and> free g' \<and> wait g' = after_write W (wait g)"
    and commands: "free g \<Longrightarrow> buffer g \<noteq> 0 \<Longrightarrow> uaccess_ok U \<Longrightarrow> sys_ioctl V (mod_fops D) U cmd arg g =
      (case command W U cmd arg of
         (r, None) \<Rightarrow> Ret (r, g)
       | (r, Some c) \<Rightarrow> (if length (bufmem g) < 4000 then Fault OutOfBounds
           else Ret (r, g\<lparr>bufmem := put_at 0 (replicate 4000 c) (bufmem g)\<rparr>)))"
    and polls: "poll_mask V (mod_fops D) g = events W (wait g)"
    and bytes_only: "free (g\<lparr>bufmem := m\<rparr>) = free g" "wait (g\<lparr>bufmem := m\<rparr>) = wait g"
begin

lemma read_call:
  assumes "live free wait g d w"
  shows "\<exists>d' w'. spec_call W (Read_file U p n) d w = (fst (call_step V (mod_fops D) (Read_file U p n) g), d', w') \<and>
    live free wait (snd (call_step V (mod_fops D) (Read_file U p n) g)) d' w' \<and>
    chr_owns (snd (call_step V (mod_fops D) (Read_file U p n) g)) = chr_owns g"
proof (cases "may_read W (wait g)")
  case None
  then show ?thesis using assms reads_wait [of g U p n] by (simp add: live_def)
next
  case (Some w')
  from assms have g: "free g" "buffer g \<noteq> 0" "bufmem g = d" "wait g = w" by (simp_all add: live_def)
  from reads [OF g(1) Some, of U p n] obtain g' where g': "fresh_read V (mod_fops D) U p n g =
      obind (xfer_read U p n (buffer g) (bufmem g)) (\<lambda>(ret, out). Ret (ret, out, g'))"
    "chr.truncate g' = chr.truncate g" "free g'" "wait g' = w'" by blast
  from g'(2) have "buffer g' = buffer g" "bufmem g' = bufmem g" "chr_owns g' = chr_owns g"
    by (auto simp: chr.truncate_def intro: chr_owns_cong)
  then show ?thesis
    using g g' Some by (simp add: xfer_live(1) live_def case_prod_beta)
qed

lemma write_call:
  assumes "live free wait g d w"
  shows "\<exists>d' w'. spec_call W (Write_file U p n) d w = (fst (call_step V (mod_fops D) (Write_file U p n) g), d', w') \<and>
    live free wait (snd (call_step V (mod_fops D) (Write_file U p n) g)) d' w' \<and>
    chr_owns (snd (call_step V (mod_fops D) (Write_file U p n) g)) = chr_owns g"
proof -
  from assms have g: "free g" "buffer g \<noteq> 0" "bufmem g = d" "wait g = w" by (simp_all add: live_def)
  from writes [OF g(1), of U p n] obtain g' where g': "fresh_write V (mod_fops D) U p n g =
      obind (xfer_write U p n (buffer g) (bufmem g)) (\<lambda>(ret, m). Ret (ret, g'\<lparr>bufmem := m\<rparr>))"
    "chr.truncate g' = chr.truncate g" "free g'" "wait g' = after_write W (wait g)" by blast
  from g'(2) have "buffer g' = buffer g" "chr_owns (g'\<lparr>bufmem := m\<rparr>) = chr_owns g" for m
    by (auto simp: chr.truncate_def intro: chr_owns_cong)
  then show ?thesis
    using g g' by (simp add: xfer_live(2) live_def bytes_only case_prod_beta)
qed

lemma ioctl_call:
  assumes "live free wait g d w" and "uaccess_ok U"
  shows "\<exists>d' w'. spec_call W (Ioctl_file U cmd arg) d w =
      (fst (call_step V (mod_fops D) (Ioctl_file U cmd arg) g), d', w') \<and>
    live free wait (snd (call_step V (mod_fops D) (Ioctl_file U cmd arg) g)) d' w' \<and>
    chr_owns (snd (call_step V (mod_fops D) (Ioctl_file U cmd arg) g)) = chr_owns g"
proof -
  from assms have g: "free g" "buffer g \<noteq> 0" "bufmem g = d" "wait g = w" by (simp_all add: live_def)
  have owns: "chr_owns (g\<lparr>bufmem := m\<rparr>) = chr_owns g" for m by (rule chr_owns_cong) simp_all
  obtain r c where "command W U cmd arg = (r, c)" by fastforce
  with commands [OF g(1,2) assms(2), of cmd arg] g show ?thesis
    by (cases c) (auto simp: live_def bytes_only owns)
qed

lemma hosted: "hosted_driver D chr_owns V G W (live free wait)"
proof (unfold_locales, goal_cases)
  case (4 K l R g l')
  then show ?case
    using loads [OF 4(3,4)] buffer_from_kmalloc_length [of K g]
    by (auto simp: live_def buffer_from_kmalloc_def)
next
  case (5 e g d w)
  show ?case
  proof (cases e)
    case (Read_file U p n)
    show ?thesis unfolding Read_file by (rule read_call [OF 5(3)])
  next
    case (Write_file U p n)
    show ?thesis unfolding Write_file by (rule write_call [OF 5(3)])
  next
    case (Ioctl_file U cmd arg)
    show ?thesis unfolding Ioctl_file by (rule ioctl_call [OF 5(3)]) (use 5(2) Ioctl_file in simp)
  qed (use 5 in \<open>auto simp: file_call_def live_def polls\<close>)
qed (use slots returns in \<open>auto simp: fun_eq_iff\<close>)

end


sublocale chr_hosted \<subseteq> host: hosted_driver D chr_owns V G W "live free wait" for G
  by (rule hosted)

lemma dynamic_loads:
  assumes "mod_init D = dynamic_init setup" and "mod_exit D = chr_exit" and "plain_setup setup"
  shows "loadable_module (mod_init D) (mod_exit D) chr_owns"
    and "mod_init D K (mod_image D) l = (ret, g, l') \<Longrightarrow> ret = 0 \<or> ret = - 1"
    and "ledger l = Some R \<Longrightarrow> mod_init D K (mod_image D) l = (0, g, l') \<Longrightarrow>
      buffer_from_kmalloc K g \<and> (\<exists>s0 l0. setup s0 l0 = (0, g, l') \<and> chr.more s0 = chr.more (mod_image D))"
proof -
  show "loadable_module (mod_init D) (mod_exit D) chr_owns"
    unfolding assms(1,2) by (rule dynamic_module [OF assms(3)])
  show "mod_init D K (mod_image D) l = (ret, g, l') \<Longrightarrow> ret = 0 \<or> ret = - 1"
    unfolding assms(1) by (rule init_returns(1) [OF assms(3)])
  assume l: "ledger l = Some R" and "mod_init D K (mod_image D) l = (0, g, l')"
  then have i: "dynamic_init setup K (mod_image D) l = (0, g, l')" by (simp add: assms(1))
  show "buffer_from_kmalloc K g \<and> (\<exists>s0 l0. setup s0 l0 = (0, g, l') \<and> chr.more s0 = chr.more (mod_image D))"
    using init_setup [OF i] dynamic_init_success(2) [OF assms(3) i l] by blast
qed

lemma more_sem: "chr.more s = \<lparr>sem = x\<rparr> \<Longrightarrow> sem s = x"
  by (cases s) simp

lemma more_wait: "chr.more s = \<lparr>sem = x, condition = c\<rparr> \<Longrightarrow> condition s = c"
  by (cases s) simp

text \<open>ex3 and ex4 never wait.\<close>

lemma plain_hosted:
  assumes "loadable_module (mod_init D) (mod_exit D) chr_owns"
    and "\<And>K l ret g l'. mod_init D K (mod_image D) l = (ret, g, l') \<Longrightarrow> ret = 0 \<or> ret = - 1"
    and "\<And>K l g l' R. ledger l = Some R \<Longrightarrow> mod_init D K (mod_image D) l = (0, g, l') \<Longrightarrow> buffer_from_kmalloc K g"
    and "mod_fops D = ex3_fops"
  shows "chr_hosted D V (plain_contract V) (\<lambda>_. True) (\<lambda>_. ())"
proof (rule chr_hosted.intro [OF assms(1)], rule chr_hosted_axioms.intro, goal_cases)
  case (6 g w U p n)
  have "fresh_read V (mod_fops D) = ex3_read" unfolding assms(4) by (rule fresh_keep_pos) (simp add: ex3_fops_def)
  then show ?case by (auto simp: ex3_read_def)
next
  case (7 g U p n)
  have "fresh_write V (mod_fops D) = ex3_write" unfolding assms(4) by (rule fresh_keep_pos) (simp add: ex3_fops_def)
  then show ?case by (auto simp: ex3_write_def)
qed (use assms in \<open>auto simp: fun_eq_iff slot_call_def ex3_fops_def ex3_open_def ex3_release_def contract_defs
      sys_ioctl_def poll_mask_def\<close>)

lemma ex4_fops_same: "ex4_fops = ex3_fops"
  by (simp add: ex4_fops_def ex3_fops_def ex4_ops fun_eq_iff ex3_open_def ex4_open_def ex3_release_def ex4_release_def)

interpretation ex3_host: chr_hosted ex3_module V "plain_contract V" "\<lambda>_. True" "\<lambda>_. ()" for V
  by (rule plain_hosted)
    (auto simp: ex3_module_def ex3_module_init_def ex3_mod.loadable_module_axioms [unfolded ex3_module_init_def]
      dest: init_returns(2) [OF plain_no_setup] static_init_success(2) [OF plain_no_setup])

interpretation ex4_host: chr_hosted ex4_module V "plain_contract V" "\<lambda>_. True" "\<lambda>_. ()" for V
  by (rule plain_hosted)
    (auto simp: ex4_module_def ex4_module_init_def ex4_mod.loadable_module_axioms [unfolded ex4_module_init_def]
      ex4_fops_same dest: init_returns(1) [OF plain_no_setup] dynamic_init_success(2) [OF plain_no_setup])

text \<open>ex7, ex8 and ex11 take a lock around each transfer, and leave it free.\<close>

context kernel_lock
begin

lemma locked_xfer:
  assumes "lk_free L (sem g)"
  shows "\<exists>g'. locked_read L U p n g = obind (xfer_read U p n (buffer g) (bufmem g)) (\<lambda>(ret, out). Ret (ret, out, g')) \<and>
      chr.truncate g' = chr.truncate g \<and> lk_free L (sem g')"
    and "\<exists>g'. locked_write L U p n g = obind (xfer_write U p n (buffer g) (bufmem g)) (\<lambda>(ret, m). Ret (ret, g'\<lparr>bufmem := m\<rparr>)) \<and>
      chr.truncate g' = chr.truncate g \<and> chr_sem.more g' = chr_sem.more g \<and> lk_free L (sem g')"
proof -
  obtain x where x: "lk_acquire L (sem g) = Some x" using free_acquire [OF assms] by blast
  show "\<exists>g'. locked_read L U p n g = obind (xfer_read U p n (buffer g) (bufmem g)) (\<lambda>(ret, out). Ret (ret, out, g')) \<and>
      chr.truncate g' = chr.truncate g \<and> lk_free L (sem g')"
    by (rule exI [of _ "g\<lparr>sem := lk_release L x\<rparr>"])
      (simp add: locked_read_def x Let_def release_free [OF x] chr.truncate_def)
  show "\<exists>g'. locked_write L U p n g = obind (xfer_write U p n (buffer g) (bufmem g)) (\<lambda>(ret, m). Ret (ret, g'\<lparr>bufmem := m\<rparr>)) \<and>
      chr.truncate g' = chr.truncate g \<and> chr_sem.more g' = chr_sem.more g \<and> lk_free L (sem g')"
  proof (rule exI [of _ "g\<lparr>sem := lk_release L x\<rparr>"])
    have "g\<lparr>bufmem := m, sem := y\<rparr> = g\<lparr>sem := y, bufmem := m\<rparr>" for m y by (cases g) simp
    then show "locked_write L U p n g = obind (xfer_write U p n (buffer g) (bufmem g))
        (\<lambda>(ret, m). Ret (ret, g\<lparr>sem := lk_release L x, bufmem := m\<rparr>)) \<and>
        chr.truncate (g\<lparr>sem := lk_release L x\<rparr>) = chr.truncate g \<and>
        chr_sem.more (g\<lparr>sem := lk_release L x\<rparr>) = chr_sem.more g \<and> lk_free L (sem (g\<lparr>sem := lk_release L x\<rparr>))"
      by (cases "xfer_write U p n (buffer g) (bufmem g)")
        (auto simp: locked_write_def x Let_def release_free [OF x] chr.truncate_def)
  qed
qed

lemma locked_hosted:
  fixes D :: "'l chr_sem chr_module"
  assumes "mod_init D = dynamic_init su" and "mod_exit D = chr_exit" and "plain_setup su"
    and start: "\<And>s0 l0 g l'. su s0 l0 = (0, g, l') \<Longrightarrow> chr.more s0 = chr.more (mod_image D) \<Longrightarrow> sem g = lk_init L"
    and F: "mod_fops D = ex7_fops L\<lparr>fo_ioctl := io\<rparr>"
    and cmd: "\<And>g U cmd arg. lk_free L (sem g) \<Longrightarrow> buffer g \<noteq> 0 \<Longrightarrow> uaccess_ok U \<Longrightarrow> sys_ioctl N (mod_fops D) U cmd arg g =
      (case c U cmd arg of
         (r, None) \<Rightarrow> Ret (r, g)
       | (r, Some b) \<Rightarrow> (if length (bufmem g) < 4000 then Fault OutOfBounds
           else Ret (r, g\<lparr>bufmem := put_at 0 (replicate 4000 b) (bufmem g)\<rparr>)))"
  shows "chr_hosted D N (plain_contract N\<lparr>command := c\<rparr>) (\<lambda>g. lk_free L (sem g)) (\<lambda>_. ())"
proof -
  note init = dynamic_loads [OF assms(1-3)]
  have rd: "fresh_read N (mod_fops D) = locked_read L"
    unfolding F by (rule fresh_keep_pos) (simp add: ex7_fops_def ex7_read_def)
  have wr: "fresh_write N (mod_fops D) = locked_write L"
    unfolding F by (rule fresh_keep_pos) (simp add: ex7_fops_def ex7_write_def)
  show ?thesis
  proof (rule chr_hosted.intro [OF init(1)], rule chr_hosted_axioms.intro, goal_cases)
    case (3 K l ret g l')
    then show ?case by (rule init(2))
  next
    case (4 l R K g l')
    then show ?case using init(3) start init_free by (fastforce simp: contract_defs)
  next
    case (6 g w U p n)
    then show ?case unfolding rd using locked_xfer(1) [of g U p n] by auto
  next
    case (7 g U p n)
    then show ?case unfolding wr using locked_xfer(2) [of g U p n] by auto
  next
    case (8 g U cmd arg)
    then show ?case using cmd [of g U cmd arg] by simp
  qed (auto simp: F ex7_fops_def slot_call_def ex7_open_def ex7_release_def fun_eq_iff contract_defs poll_mask_def)
qed

end

lemma sem_setup_sem: "sem_setup L s l = (ret, g, l') \<Longrightarrow> sem g = lk_init L"
  by (auto simp: sem_setup_def)

lemma ex11_fops_ioctl: "ex11_fops L A = (ex7_fops L)\<lparr>fo_ioctl := Some (ex11_ioctl A)\<rparr>"
  by (simp add: ex11_fops_def ex7_fops_def ex11_read_def ex7_read_def ex11_write_def ex7_write_def fun_eq_iff
      ex11_open_def ex7_open_def ex11_release_def ex7_release_def)

lemma ex8_fops_ex7: "ex8_fops L = (ex7_fops L)\<lparr>fo_ioctl := None\<rparr>"
  by (simp add: ex8_fops_def ex7_fops_def ex8_read_def ex7_read_def ex8_write_def ex7_write_def fun_eq_iff
      ex8_open_def ex7_open_def ex8_release_def ex7_release_def)

lemma ex11_ioctl_command:
  assumes "buffer g \<noteq> 0" and "uaccess_ok U"
  shows "ex11_ioctl A U cmd arg g =
    (case fill_command A U cmd arg of
       (r, None) \<Rightarrow> Ret (r, g)
     | (r, Some b) \<Rightarrow> (if length (bufmem g) < 4000 then Fault OutOfBounds
         else Ret (r, g\<lparr>bufmem := put_at 0 (replicate 4000 b) (bufmem g)\<rparr>)))"
  using fill_char [OF assms(2), of arg] assms(1)
  by (auto simp: ex11_ioctl_def fill_command_def bad_command_def bad_address_def fill_value_def memset_result Let_def)

context kernel_lock
begin

lemma ex7_hosted: "chr_hosted (ex7_module L x) N (plain_contract N) (\<lambda>g. lk_free L (sem g)) (\<lambda>_. ())"
proof -
  have "plain_contract N = (plain_contract N)\<lparr>command := command (plain_contract N)\<rparr>" by simp
  moreover have "chr_hosted (ex7_module L x) N (plain_contract N\<lparr>command := command (plain_contract N)\<rparr>)
      (\<lambda>g. lk_free L (sem g)) (\<lambda>_. ())"
    by (rule locked_hosted [where su = "sem_setup L" and io = None])
      (auto simp: ex7_module_def ex7_module_init_def ex7_module_exit_def plain_sem_setup sem_setup_sem ex7_fops_def
        sys_ioctl_def contract_defs)
  ultimately show ?thesis by simp
qed

lemma ex8_hosted: "chr_hosted (ex8_module L) N (plain_contract N) (\<lambda>g. lk_free L (sem g)) (\<lambda>_. ())"
proof -
  have "chr_hosted (ex8_module L) N (plain_contract N\<lparr>command := command (plain_contract N)\<rparr>)
      (\<lambda>g. lk_free L (sem g)) (\<lambda>_. ())"
    by (rule locked_hosted [where su = no_setup and io = None])
      (auto simp: ex8_module_def ex8_module_init_def ex8_module_exit_def plain_no_setup no_setup_def ex8_fops_ex7
        sys_ioctl_def contract_defs sem_image_def chr.defs dest: more_sem)
  then show ?thesis by simp
qed

lemma ex11_hosted:
  "chr_hosted (ex11_module L A x) N (ioctl_contract N A) (\<lambda>g. lk_free L (sem g)) (\<lambda>_. ())"
  unfolding ioctl_contract_def
  by (rule locked_hosted [where su = "sem_setup L" and io = "Some (ex11_ioctl A)"])
    (simp_all add: ex11_module_def ex11_module_init_def ex11_module_exit_def plain_sem_setup sem_setup_sem
      ex11_fops_ioctl sys_ioctl_def ex11_ioctl_command)

end

text \<open>In ex12, ex13 and ex14 a read waits for the flag and clears it.\<close>

context kernel_lock
begin

lemma wait_hosted:
  fixes D :: "'l chr_wait chr_module"
  assumes "mod_init D = dynamic_init (wait_setup L)" and "mod_exit D = chr_exit" and image: "mod_image D = wait_image x"
    and F: "fo_read (mod_fops D) = Some (keep_pos_read (wait_read False))"
      "fo_write (mod_fops D) = Some (keep_pos_write (wait_write L))"
    and slots: "\<And>g. slot_call (fo_open (mod_fops D)) g = (0, g)" "\<And>g. slot_call (fo_release (mod_fops D)) g = (0, g)"
    and io: "fo_ioctl (mod_fops D) = None" and polls: "\<And>g. poll_mask N (mod_fops D) g = ev (condition g = 1)"
  shows "chr_hosted D N (mailbox_contract N ev) (\<lambda>g. lk_free L (sem g)) (\<lambda>g. condition g = 1)"
proof -
  note init = dynamic_loads [OF assms(1,2) plain_wait_setup] and rd = fresh_keep_pos(1) [OF F(1)] and wr = fresh_keep_pos(2) [OF F(2)]
  show ?thesis
  proof (rule chr_hosted.intro [OF init(1)], rule chr_hosted_axioms.intro, goal_cases)
    case (3 K l ret g l')
    then show ?case by (rule init(2))
  next
    case (4 l R K g l')
    from init(3) [OF this] obtain s0 l0 where "buffer_from_kmalloc K g" "wait_setup L s0 l0 = (0, g, l')"
      "chr.more s0 = \<lparr>sem = x, condition = 0\<rparr>"
      by (auto simp: image wait_image_def sem_image_def chr.defs chr_sem.defs)
    then show ?case
      using init_free more_wait [of s0 x 0] by (auto simp: wait_setup_def contract_defs)
  next
    case (6 g w U p n)
    then show ?case
      by (auto simp: rd wait_read_def contract_defs chr.truncate_def split: if_splits
          intro!: exI [of _ "g\<lparr>condition := 0\<rparr>"])
  next
    case (7 g U p n)
    from locked_xfer(2) [OF this, of U p n] obtain g' where g':
      "locked_write L U p n g = obind (xfer_write U p n (buffer g) (bufmem g)) (\<lambda>(ret, m). Ret (ret, g'\<lparr>bufmem := m\<rparr>))"
      "chr.truncate g' = chr.truncate g" "lk_free L (sem g')" by blast
    have swap: "g'\<lparr>bufmem := m, condition := 1\<rparr> = g'\<lparr>condition := 1, bufmem := m\<rparr>" for m by (cases g') simp
    have "wait_write L U p n g =
        obind (xfer_write U p n (buffer g) (bufmem g)) (\<lambda>(ret, m). Ret (ret, g'\<lparr>condition := 1, bufmem := m\<rparr>))"
      by (cases "xfer_write U p n (buffer g) (bufmem g)") (auto simp: wait_write_def g'(1) swap)
    with g'(2,3) show ?case
      unfolding wr by (intro exI [of _ "g'\<lparr>condition := 1\<rparr>"]) (simp add: contract_defs chr.truncate_def)
  qed (use slots in \<open>auto simp: fun_eq_iff rd wait_read_def contract_defs sys_ioctl_def io polls split: if_splits\<close>)
qed

lemma ex12_hosted:
  "chr_hosted (ex12_module L x) N (mailbox_contract N (\<lambda>_. default_poll N)) (\<lambda>g. lk_free L (sem g)) (\<lambda>g. condition g = 1)"
  by (rule wait_hosted [where x = x])
    (simp_all add: ex12_module_def ex12_module_init_def ex12_module_exit_def ex12_fops_def ex12_read_def
      ex12_write_def slot_call_def ex12_open_def ex12_release_def poll_mask_def)

lemma ex13_hosted:
  "chr_hosted (ex13_module L A x) N (mailbox_contract N (\<lambda>full. if full then POLLIN A OR POLLRDNORM A else 0))
     (\<lambda>g. lk_free L (sem g)) (\<lambda>g. condition g = 1)"
  by (rule wait_hosted [where x = x])
    (simp_all add: ex13_module_def ex13_module_init_def ex13_module_exit_def ex13_fops_def ex13_read_def
      ex13_write_def slot_call_def ex13_open_def ex13_release_def poll_mask_def ex13_poll_def)

lemma ex14_hosted:
  "chr_hosted (ex14_module L uninit x) N (mailbox_contract N (\<lambda>_. default_poll N)) (\<lambda>g. lk_free L (sem g)) (\<lambda>g. condition g = 1)"
  by (rule wait_hosted [where x = x])
    (simp_all add: ex14_module_def ex14_module_init_def ex14_module_exit_def ex14_fops_def ex14_read_def
      ex14_write_def slot_call_def ex14_open_def ex14_release_def poll_mask_def)

end

text \<open>ex9 counts, ex10 takes the lock for writes only.\<close>

lemma more_compl: "chr.more s = \<lparr>setup_done = x\<rparr> \<Longrightarrow> setup_done s = x"
  by (cases s) simp

lemma ex9_hosted:
  assumes C: "completion_laws C"
  shows "chr_hosted (ex9_module C x) N (counting_contract N) (\<lambda>_. True) (\<lambda>g. cp_done C (setup_done g))"
proof -
  have D: "mod_init (ex9_module C x) = dynamic_init (compl_setup C)" "mod_exit (ex9_module C x) = chr_exit"
    by (simp_all add: ex9_module_def ex9_module_init_def ex9_module_exit_def)
  note init = dynamic_loads [OF D plain_compl_setup]
  have rd: "fresh_read N (mod_fops (ex9_module C x)) = ex9_read C"
    by (rule fresh_keep_pos) (simp add: ex9_module_def ex9_fops_def)
  have wr: "fresh_write N (mod_fops (ex9_module C x)) = ex9_write C"
    by (rule fresh_keep_pos) (simp add: ex9_module_def ex9_fops_def)
  show ?thesis
  proof (rule chr_hosted.intro [OF init(1)], rule chr_hosted_axioms.intro, goal_cases)
    case (3 K l ret g l')
    then show ?case by (rule init(2))
  next
    case (4 l R K g l')
    then show ?case
      using init(3) C by (fastforce simp: compl_setup_def contract_defs completion_laws_def)
  next
    case (5 g U p n)
    then show ?case using C by (auto simp: rd ex9_read_def contract_defs completion_laws_def split: if_splits option.splits)
  next
    case (6 g w U p n)
    then obtain y where "cp_wait C (setup_done g) = Some y" "cp_done C (setup_done g) = Suc (cp_done C y)"
      using completion_waits [OF C, of "setup_done g"] by (auto simp: contract_defs split: if_splits)
    with 6 show ?case
      by (auto simp: rd ex9_read_def contract_defs chr.truncate_def intro!: exI [of _ "g\<lparr>setup_done := y\<rparr>"])
  next
    case (7 g U p n)
    let ?g = "g\<lparr>setup_done := cp_complete C (setup_done g)\<rparr>"
    have "g\<lparr>bufmem := m, setup_done := y\<rparr> = g\<lparr>setup_done := y, bufmem := m\<rparr>" for m y by (cases g) simp
    then have "ex9_write C U p n g =
        obind (xfer_write U p n (buffer g) (bufmem g)) (\<lambda>(ret, m). Ret (ret, ?g\<lparr>bufmem := m\<rparr>))"
      by (cases "xfer_write U p n (buffer g) (bufmem g)") (auto simp: ex9_write_def)
    then show ?case
      unfolding wr using C by (intro exI [of _ ?g]) (simp add: contract_defs chr.truncate_def completion_laws_def)
  qed (auto simp: fun_eq_iff ex9_module_def ex9_fops_def slot_call_def ex9_open_def ex9_release_def contract_defs
      sys_ioctl_def poll_mask_def)
qed

context kernel_lock
begin

lemma ex10_hosted:
  assumes Q: "seqlock_laws Q"
  shows "chr_hosted (ex10_module L Q x q) N (plain_contract N) (\<lambda>g. lk_free L (sem g)) (\<lambda>_. ())"
proof -
  let ?D = "ex10_module L Q x q"
  have D: "mod_init ?D = dynamic_init (seq_setup L Q)" "mod_exit ?D = chr_exit"
    by (simp_all add: ex10_module_def ex10_module_init_def ex10_module_exit_def)
  note init = dynamic_loads [OF D plain_seq_setup]
  have rd: "fresh_read N (mod_fops ?D) = ex10_read Q"
    by (rule fresh_keep_pos) (simp add: ex10_module_def ex10_fops_def)
  have wr: "fresh_write N (mod_fops ?D) = locked_write L"
    by (rule fresh_keep_pos) (simp add: ex10_module_def ex10_fops_def ex10_write_def)
  show ?thesis
  proof (rule chr_hosted.intro [OF init(1)], rule chr_hosted_axioms.intro, goal_cases)
    case (3 K l ret g l')
    then show ?case by (rule init(2))
  next
    case (4 l R K g l')
    then show ?case using init(3) init_free by (fastforce simp: seq_setup_def contract_defs)
  next
    case (6 g w U p n)
    have "ex10_read Q U p n g = obind (xfer_read U p n (buffer g) (bufmem g)) (\<lambda>(ret, out). Ret (ret, out, g))"
      using ex10_read_loop_once [OF Q, of 0 U p n g] by (simp only: ex10_read_def One_nat_def)
    with 6 show ?case unfolding rd by auto
  next
    case (7 g U p n)
    then show ?case unfolding wr using locked_xfer(2) [of g U p n] by auto
  qed (auto simp: fun_eq_iff ex10_module_def ex10_fops_def slot_call_def ex10_open_def ex10_release_def contract_defs
      sys_ioctl_def poll_mask_def)
qed

end


section \<open>A device of 4000 bytes or more is safe\<close>

definition sized :: "nat \<Rightarrow> 'w host_spec \<Rightarrow> bool" where
  "sized G S \<longleftrightarrow> (case cells S of None \<Rightarrow> True | Some d \<Rightarrow> length d = G)"

lemma spec_call_sized:
  assumes "spec_call W e d w = (r, d', w')" and "host_event_ok G e" and "length d = G" and "4000 \<le> G"
  shows "length d' = G \<and> (\<forall>f. r \<noteq> Oops f)"
proof (cases e)
  case (Write_file U p n)
  then have "length (snd (copy_from_user U p (of_nat (moved n)))) = moved n"
    using assms(2) moved_len(2) [of n] by (simp add: length_copy_from_user moved_len(1))
  then show ?thesis
    using assms moved_len(3) [of n] Write_file by (auto simp: length_put_at split: prod.splits if_splits)
next
  case (Read_file U p n)
  then show ?thesis
    using assms moved_len(3) [of n] by (auto split: prod.splits option.splits if_splits)
qed (use assms in \<open>auto simp: length_put_at Let_def split: prod.splits option.splits if_splits\<close>)

lemma spec_step_sized:
  "spec_step W G e S r S' \<Longrightarrow> host_event_ok G e \<Longrightarrow> sized G S \<Longrightarrow> 4000 \<le> G \<Longrightarrow> sized G S' \<and> (\<forall>f. r \<noteq> Oops f)"
  by (induction rule: spec_step.cases) (auto simp: sized_def dest: spec_call_sized)

lemma spec_run_sized:
  "spec_run W G es S rs \<Longrightarrow> \<forall>e\<in>set es. host_event_ok G e \<Longrightarrow> sized G S \<Longrightarrow> 4000 \<le> G \<Longrightarrow> \<forall>f. Oops f \<notin> set rs"
proof (induction rule: spec_run.induct)
  case (crash e S f S' es)
  then show ?case using spec_step_sized by fastforce
next
  case (next_event e S r S' es rs)
  then show ?case using spec_step_sized by fastforce
qed simp

text \<open>A module meets a contract when its sessions show what the contract allows, its resources are in order,
  and, with a device of at least 4000 bytes, nothing faults.\<close>

definition meets :: "vfs \<Rightarrow> nat \<Rightarrow> 's chr_module \<Rightarrow> ('s \<Rightarrow> resource multiset) \<Rightarrow> 'w contract \<Rightarrow> bool" where
  "meets V G D owns W \<longleftrightarrow>
     (\<forall>es rs H. (\<forall>e\<in>set es. host_event_ok G e) \<longrightarrow> host_run V D es host_start = (rs, H) \<longrightarrow>
        spec_run W G es (spec_host_start W) rs \<and>
        ((\<forall>f. Oops f \<notin> set rs) \<longrightarrow> ledger (host_log H) = Some (host_holds owns H)) \<and>
        (4000 \<le> G \<longrightarrow> (\<forall>f. Oops f \<notin> set rs)))"

context hosted_driver
begin

lemma meets: "meets V G D owns W"
proof (unfold meets_def, intro allI impI)
  fix es rs H
  assume ok: "\<forall>e\<in>set es. host_event_ok G e" and run: "host_run V D es host_start = (rs, H)"
  from run_matches [OF matches_start ok run]
  have s: "spec_run W G es (spec_host_start W) rs" "(\<forall>f. Oops f \<notin> set rs) \<longrightarrow> ledger (host_log H) = Some (host_holds owns H)"
    by simp_all
  then show "spec_run W G es (spec_host_start W) rs \<and>
      ((\<forall>f. Oops f \<notin> set rs) \<longrightarrow> ledger (host_log H) = Some (host_holds owns H)) \<and> (4000 \<le> G \<longrightarrow> (\<forall>f. Oops f \<notin> set rs))"
    using spec_run_sized [OF s(1) ok] by (simp add: sized_def spec_host_start_def)
qed

end

lemmas hosted_meets = hosted_driver.meets [OF chr_hosted.hosted]

section \<open>Property\<close>

text \<open>C3: ten drivers in the kernel that loads them. Any session of loads that succeed or fail,
  unloads, opens, closes, reads, writes, commands and polls shows what the specification allows: one
  device of bytes that a load finds in any state, reads and writes of at most 4000 bytes from its
  start, a module that stays while a file is open; where the device is shorter than a transfer, a
  fault, and never one through NULL. The drivers of ex3, ex4, ex7, ex8 and ex10 are the same device,
  that of ex11 has two commands besides, ex9 counts writes to let reads through, and ex12, ex13 and
  ex14 are a mailbox. Whatever a session did, what the kernel holds for a module is exactly
  what it owns while it is loaded, and nothing afterwards.\<close>

theorem char_sessions_meet_contracts:
  assumes "lock_laws Z L" and "completion_laws C" and "seqlock_laws Q"
  shows "meets V G ex3_module chr_owns (plain_contract V) \<and>
    meets V G ex4_module chr_owns (plain_contract V) \<and>
    meets V G (ex7_module L x) chr_owns (plain_contract V) \<and>
    meets V G (ex8_module L) chr_owns (plain_contract V) \<and>
    meets V G (ex9_module C c) chr_owns (counting_contract V) \<and>
    meets V G (ex10_module L Q x q) chr_owns (plain_contract V) \<and>
    meets V G (ex11_module L A x) chr_owns (ioctl_contract V A) \<and>
    meets V G (ex12_module L x) chr_owns (mailbox_contract V (\<lambda>_. default_poll V)) \<and>
    meets V G (ex13_module L P x) chr_owns
      (mailbox_contract V (\<lambda>full. if full then POLLIN P OR POLLRDNORM P else 0)) \<and>
    meets V G (ex14_module L uninit x) chr_owns (mailbox_contract V (\<lambda>_. default_poll V))"
proof -
  note kl = kernel_lock.intro [OF assms(1)]
  show ?thesis
    by (intro conjI ex3_host.host.meets ex4_host.host.meets
        hosted_meets [OF kernel_lock.ex7_hosted [OF kl]] hosted_meets [OF kernel_lock.ex8_hosted [OF kl]]
        hosted_meets [OF ex9_hosted [OF assms(2)]] hosted_meets [OF kernel_lock.ex10_hosted [OF kl assms(3)]]
        hosted_meets [OF kernel_lock.ex11_hosted [OF kl]] hosted_meets [OF kernel_lock.ex12_hosted [OF kl]]
        hosted_meets [OF kernel_lock.ex13_hosted [OF kl]] hosted_meets [OF kernel_lock.ex14_hosted [OF kl]])
qed

text \<open>A read waits, a write arrives, the module is in use, the read gets the bytes, the module goes.\<close>

definition sample_session :: "host_event list" where
  "sample_session = [Insmod good_kernel, Open_file, Read_file sevens 1 3, Write_file sevens 1 3, Rmmod,
     Read_file sevens 1 2, Close_file, Rmmod, Poll_file]"

definition sample_results :: "host_result list" where
  "sample_results = [Loaded 0, Opened 0, Waits, Wrote 3, Busy, Bytes 2 [7, 7], Closed 0, Unloaded, No_device]"

lemma sample_load:
  "\<exists>g l. ex13_module_init counting_lock good_kernel (wait_image 0) [] = (0, g, l) \<and>
     sem g = 1 \<and> condition g = 0 \<and> buffer g \<noteq> 0 \<and> bufmem g = replicate 208 0"
  by (simp add: ex13_module_init_def init_defs wait_setup_def wait_image_def sem_image_def chr.defs chr_sem.defs
      counting_lock_def)

lemma sample_calls:
  assumes "sem g = 1" and "condition g = 0" and "buffer g \<noteq> 0" and "bufmem g = replicate 208 0"
  shows "ex13_read False sevens 1 3 g = Block"
    and "\<exists>g'. ex13_write counting_lock sevens 1 3 g = Ret (3, g') \<and>
      ex13_read False sevens 1 2 g' = Ret (2, [7, 7], g'\<lparr>condition := 0\<rparr>)"
proof -
  show "ex13_read False sevens 1 3 g = Block" using assms(2) by (simp add: ex13_read_def wait_read_def)
  have m: "moved 3 = 3" "moved 2 = 2" by (simp_all add: moved_def)
  have three: "map f [0..<3] = [f 0, f (Suc 0), f 2]" for f :: "nat \<Rightarrow> byte" by (simp add: upt_rec numeral_2_eq_2)
  have "ex13_write counting_lock sevens 1 3 g =
      Ret (3, g\<lparr>bufmem := [7, 7, 7] @ drop 3 (replicate 208 0), sem := 1, condition := 1\<rparr>)" (is "_ = Ret (3, ?g)")
    using assms
    by (simp add: ex13_write_def wait_write_def locked_defs xfer_live counting_lock_def mapped_uaccess_def put_at_def m three)
  moreover have "ex13_read False sevens 1 2 ?g = Ret (2, [7, 7], ?g\<lparr>condition := 0\<rparr>)"
    using assms by (simp add: ex13_read_def wait_read_def xfer_live mapped_uaccess_def m)
  ultimately show "\<exists>g'. ex13_write counting_lock sevens 1 3 g = Ret (3, g') \<and>
      ex13_read False sevens 1 2 g' = Ret (2, [7, 7], g'\<lparr>condition := 0\<rparr>)" by blast
qed

lemma sample_run:
  "fst (host_run linux_vfs (ex13_module counting_lock linux_poll 0) sample_session host_start) = sample_results"
proof -
  obtain g l where g: "ex13_module_init counting_lock good_kernel (wait_image 0) [] = (0, g, l)"
    and f: "sem g = 1" "condition g = 0" "buffer g \<noteq> 0" "bufmem g = replicate 208 0"
    using sample_load by blast
  note calls = sample_calls [OF f]
  obtain g' where w: "ex13_write counting_lock sevens 1 3 g = Ret (3, g')"
    "ex13_read False sevens 1 2 g' = Ret (2, [7, 7], g'\<lparr>condition := 0\<rparr>)" using calls(2) by blast
  have r: "fresh_read linux_vfs (ex13_fops counting_lock linux_poll) = ex13_read False"
    "fresh_write linux_vfs (ex13_fops counting_lock linux_poll) = ex13_write counting_lock"
    by (rule fresh_keep_pos, simp add: ex13_fops_def)+
  have slots: "slot_call (fo_open (ex13_fops counting_lock linux_poll)) g = (0, g)"
    "slot_call (fo_release (ex13_fops counting_lock linux_poll)) g = (0, g)" for g
    by (simp_all add: slot_call_def ex13_fops_def ex13_open_def ex13_release_def)
  show ?thesis
    by (simp add: sample_session_def sample_results_def ex13_module_def host_start_def g slots r calls(1) w split: prod.splits)
qed

theorem char_sessions_meet_contracts_witness:
  "spec_run (mailbox_contract linux_vfs (\<lambda>full. if full then POLLIN linux_poll OR POLLRDNORM linux_poll else 0)) 208
     sample_session (spec_host_start (mailbox_contract linux_vfs
       (\<lambda>full. if full then POLLIN linux_poll OR POLLRDNORM linux_poll else 0))) sample_results"
proof -
  obtain H where run: "host_run linux_vfs (ex13_module counting_lock linux_poll 0) sample_session host_start = (sample_results, H)"
    using sample_run by (metis prod.collapse)
  have ok: "\<forall>e\<in>set sample_session. host_event_ok 208 e"
    using good_kernel_ok mapped_uaccess_ok by (simp add: sample_session_def good_kernel_def)
  have "meets linux_vfs 208 (ex13_module counting_lock linux_poll 0) chr_owns
      (mailbox_contract linux_vfs (\<lambda>full. if full then POLLIN linux_poll OR POLLRDNORM linux_poll else 0))"
    using char_sessions_meet_contracts [OF counting_lock_laws counting_completion_laws, of counting_seqlock linux_vfs 208]
    by (simp add: seqlock_laws_def counting_seqlock_def)
  with ok run show ?thesis unfolding meets_def by blast
qed

end
