(* ===== verification/Spec2Isabelle.thy ===== *)
theory Spec2Isabelle
  imports Lock_Concurrency Tiny_Tty_Session Block_Device Ldd_Bus Char_Ioctl Char_Wait Proc_Entry Adc_Driver
    Mmap_Driver Pci_Session Usb_Driver Deferred_Work Memory_Modules Poll_Client Device_Programs
    Print_Modules Completion_Concurrency Usb_Concurrency Usb_Session Unlocked_Concurrency
    Module_Session
begin

text \<open>
  The driver examples of this repository: small Linux kernel modules, one topic a day. The
  development models each module's operations, its init and its exit, and states what a user
  and the kernel can rely on, and where they cannot.

  \<^bold>\<open>The kernel.\<close> The modules share nothing but the kernel they call, which is not in the
  repository. \<open>Kernel_Interface\<close> has the user-space copies (\<open>uaccess\<close>), kernel objects with
  null and bounds faults, and the outcomes of driver code (\<open>Ret\<close>, \<open>Block\<close>, \<open>Fault\<close>).
  \<open>Module_Lifecycle\<close> has the calls with their results as a log, the kernel as a record of
  functions of that log, the \<open>ledger\<close> that reads the held resources off a log, the contract
  \<open>loadable_module\<close> of init and exit, and the locks. Documented behaviour that a property
  relies on is one of its hypotheses: \<open>kernel_ok\<close>, \<open>uaccess_ok\<close>, \<open>lock_laws\<close>,
  \<open>completion_laws\<close>, \<open>seqlock_laws\<close>, \<open>defer_laws\<close>, \<open>usb_ok\<close>, \<open>dma_ok\<close>, \<open>vfs_ok\<close>, \<open>poll_laws\<close>,
  \<open>distinct_paths\<close>, and those of the tty and ioctl numbers.
  Each has a concrete instance, on which the witnesses run. \<open>Prelude\<close> has the C types as
  words, byte buffers and the contract \<open>invariant_system\<close> of transition systems; \<open>C_Text\<close> the
  decimal conversions and \<open>strlen\<close>.

  \<^bold>\<open>The sample character driver and its variants.\<close>
  \<^item> \<open>Char_Driver\<close>: \<open>day_02/ex3.c\<close>, \<open>ex4.c\<close>. The transfer bodies, the init labels and the exit
    that the later files repeat are definitions of their own here (\<open>xfer_read\<close>, \<open>chr_init_rest\<close>,
    \<open>chr_exit\<close>). The contract \<open>char_device\<close> says what read and write promise; every variant
    interprets it. The results: what was written is read back, and the swapped arguments of
    \<open>kmalloc\<close> make exactly the transfers above \<open>GFP_KERNEL\<close> bytes overrun the buffer.
  \<^item> \<open>Char_Locks\<close>: \<open>day_03/ex7.c\<close>, \<open>ex8.c\<close>, \<open>ex9.c\<close>, \<open>day_04/ex10.c\<close>, one call at a time.
  \<^item> \<open>Lock_Concurrency\<close>: the same with any number of threads, byte by byte. One lock around
    both transfers makes reads atomic (ex7, ex8); the seqlock of ex10 does not.
  \<^item> \<open>Unlocked_Concurrency\<close>: the same for the drivers without a lock, ex3 and ex4 at offset 0
    and ex27 at any position. Writes that do not overlap need none, for the others only the
    origin of each byte is sure.
  \<^item> \<open>Completion_Concurrency\<close>: the same for ex9, whose completion counts but does not exclude.
  \<^item> \<open>Char_Ioctl\<close>: \<open>day_04/ex11.c\<close> and \<open>driver_ioctl_const.h\<close>, with the fill that takes no lock.
  \<^item> \<open>Char_Wait\<close>: \<open>day_04/ex12.c\<close>, \<open>day_05/ex13.c\<close>, \<open>ex14.c\<close>: reads that wait for a write,
    poll and seek, one call at a time (a one-place mailbox) and interleaved (lost writes).
  \<^item> \<open>Mmap_Driver\<close>: \<open>day_11/ex27.c\<close>, with 64-bit positions and 32-bit counts.
  \<^item> \<open>Adc_Driver\<close>: \<open>day_14/ex31.c\<close>, whose polling loop never ends.
  \<^item> \<open>Test_Programs\<close>: \<open>day_02/test.c\<close> and \<open>day_03/test.c\<close> as clients of \<open>char_device\<close>.
  \<^item> \<open>Char_Family\<close>: runs of calls on any of the nine drivers keep the type of the buffer.
  \<^item> \<open>File_Operations\<close>: the tables of operations of these drivers and the system calls through
    them, with what the kernel does for an empty slot.
  \<^item> \<open>Module_Session\<close>: ten of these drivers in the kernel that loads them, in sessions of loads that
    may fail, unloads, opens, closes and calls through the tables. Each refines a specification
    without a driver, a device of bytes with one of three ways to wait.
  \<^item> \<open>Poll_Client\<close>: \<open>day_05/polltest.c\<close> against the tables, refined to a one-place mailbox on
    ex13, and where it hangs.
  \<^item> \<open>Device_Programs\<close>: \<open>day_11/mmap.c\<close> with what its mapping shows, \<open>day_13/test.c\<close> and
    \<open>day_14/test.c\<close>.

  \<^bold>\<open>The other drivers.\<close>
  \<^item> \<open>Tiny_Tty\<close>, \<open>Tiny_Tty_Lifecycle\<close>, \<open>Tiny_Tty_Session\<close>: \<open>day_12/ex29.c\<close>. The second has runs of opens, closes
    and timer ticks, refined to a number of users per port, exit after any run, and a tick
    split around a close. The third has sessions over the whole table of operations, with
    the output of each call and tasks asleep in an ioctl, refined to a specification whose
    one line is RTS; what else a session shows is decided by the memory the ports got.
  \<^item> \<open>Block_Device\<close>: \<open>day_13/ex30.c\<close>. Draining a queue of requests refines reads and
    overwrites of stretches of one byte array.
  \<^item> \<open>Ldd_Bus\<close>: \<open>day_10/ex24.c\<close>, \<open>ex25.c\<close>, \<open>ex26.c\<close> and \<open>lddbus.h\<close>, with any number of client
    modules in any order of loads and unloads.
  \<^item> \<open>Proc_Entry\<close>: \<open>day_03/ex5.c\<close>, and \<open>ex6.c\<close> with any number of files that share its counter.
  \<^item> \<open>Pci_Driver\<close>, \<open>Pci_Session\<close>: \<open>day_08/ex22.c\<close>, the probe and remove of any number of devices,
    and sessions in which cards come and go until the driver is unloaded.
  \<^item> \<open>Usb_Driver\<close>, \<open>Usb_Concurrency\<close>, \<open>Usb_Session\<close>: \<open>day_09/ex23.c\<close>, one call at a time, with
    the transfer and the copy of several calls interleaved, and in sessions in which pens
    come and go.
  \<^item> \<open>Deferred_Work\<close>: \<open>day_06/ex15.c\<close> to \<open>ex18.c\<close> and \<open>day_07/ex20.c\<close>, the handlers interleaved
    with the exit functions.
  \<^item> \<open>Memory_Modules\<close>: \<open>day_07/ex19.c\<close>, \<open>day_11/ex28.c\<close>.
  \<^item> \<open>Print_Modules\<close>: \<open>day_01/ex1.c\<close>, \<open>ex2.c\<close>, \<open>day_08/ex21.c\<close>, as the lines they print.

  \<^bold>\<open>State and operations.\<close> The globals of a file are a record with the names of the C
  variables, a function is a definition that takes the record and returns it updated, an
  error number is the negated word the code returns. Sizes, counts and positions are words of
  the width the code gives them, with the conversions of the code written out; offsets into
  objects are natural numbers. A pointer is a word, its object a list of bytes beside it.

  \<^bold>\<open>Loops and fuel.\<close> Loops over lists, bars, ports and segments are structural. The polling
  loop of the ADC is a partial function, with \<open>None\<close> for a loop that does not end. The retry
  loop of ex10 has fuel, and one unit is enough since it never retries when calls do not
  interleave. \<open>TIOCMIWAIT\<close> goes through a list of wake-ups and blocks at its end.
  \<open>cat_device\<close> and \<open>write_loop\<close> model user programs; their fuel exceeds the number of bytes
  to move, and each turn moves at least one.
  \<open>poll_loop\<close>, which never ends by itself, goes through a list of turns of any length.

  \<^bold>\<open>Not modelled.\<close> \<open>printk\<close>, where it is not all that a function does; the file
  operation tables of the block, proc and ADC drivers, which only name functions; \<open>tiny_read_proc\<close> of ex29,
  which is compiled out; \<open>day_04/test_ioctl.c\<close>, which is no C program since it uses an
  undeclared variable; the page cache between \<open>day_13/test.c\<close> and the block driver. The interleavings of
  ex13 and ex14 are those of ex12, whose read and write they share.
\<close>

section \<open>All modules\<close>


end
